(* ===== verification/Sdf_Prelude.thy ===== *)
theory Sdf_Prelude
  imports Main "HOL-Library.Word" "HOL-Library.Monad_Syntax"
begin

text \<open>
  Shared vocabulary of the SerialDFS development: the machine types of the Open Watcom
  16-bit small memory model, little-endian byte access, the C array operations on lists,
  and the byte-codec interface that the wire formats of the other theories instantiate.
\<close>

unbundle bit_operations_syntax

section \<open>Machine types\<close>

text \<open>
  \<open>unsigned char\<close> is 8 bits, \<open>unsigned int\<close> and \<open>unsigned short\<close> are 16 bits and
  \<open>unsigned long\<close> is 32 bits in the memory model the makefile selects (\<open>-ms -0\<close>).
\<close>

type_synonym byte = "8 word"
type_synonym u16 = "16 word"
type_synonym u32 = "32 word"

named_theorems array_simps
named_theorems codec_simps

text \<open>Sizes are sums with numerals; keep \<open>n + 2\<close> as it is written.\<close>

declare add_2_eq_Suc [simp del] add_2_eq_Suc' [simp del]

section \<open>Word lemmas\<close>

lemma xor_eq_zero: "(a :: 'a::len word) XOR b = 0 \<longleftrightarrow> a = b"
  by (metis xor.assoc xor.right_neutral xor_self_eq)

lemma xor_cancel_left [simp]: "(c :: 'a::len word) XOR a = c XOR b \<longleftrightarrow> a = b"
  by (metis xor.assoc xor.left_neutral xor_self_eq)

lemma xor_cancel_right [simp]: "(a :: 'a::len word) XOR c = b XOR c \<longleftrightarrow> a = b"
  by (metis xor_cancel_left xor.commute)

lemma byte_less [simp]: "unat (b :: byte) < 256"
  using unsigned_less [of b] by simp

lemma unat_succ_less:
  assumes "(i :: 'a::len word) < j"
  shows "unat (i + 1) = Suc (unat i)"
proof -
  have l: "unat i < unat j" using assms by (simp add: word_less_nat_alt)
  have "unat j < 2 ^ LENGTH('a)" by (rule unsigned_less)
  with l have "Suc (unat i) < 2 ^ LENGTH('a)" by linarith
  then show ?thesis by (simp add: unat_word_ariths)
qed

lemma u16_less [simp]: "unat (w :: u16) < 65536"
  using unsigned_less [of w] by simp

lemma unat_ucast_byte [simp]: "unat (ucast (b :: byte) :: u16) = unat b"
  by (simp add: unsigned_ucast_eq take_bit_nat_eq_self_iff) (rule less_trans [OF byte_less], simp)

lemma unat_ucast_u16 [simp]: "unat (ucast (w :: u16) :: u32) = unat w"
  by (simp add: unsigned_ucast_eq take_bit_nat_eq_self_iff) (rule less_trans [OF u16_less], simp)

lemma u16_of_nat: "n < 65536 \<Longrightarrow> unat (of_nat n :: u16) = n"
  by (simp add: unat_of_nat take_bit_nat_eq_self_iff)

lemma byte_of_nat: "n < 256 \<Longrightarrow> unat (of_nat n :: byte) = n"
  by (simp add: unat_of_nat take_bit_nat_eq_self_iff)

lemma u32_of_nat: "n < 2 ^ 32 \<Longrightarrow> unat (of_nat n :: u32) = n"
  by (simp add: unat_of_nat take_bit_nat_eq_self_iff)

lemma ucast_byte_inject [simp]: "(ucast (a :: byte) :: u16) = ucast b \<longleftrightarrow> a = b"
  by (metis unat_ucast_byte word_unat_eq_iff)

lemma mask_bytes: "(0xFF :: 'a::len word) = mask 8" "(0xFFFF :: 'a word) = mask 16"
  by (simp_all add: mask_numeral)

lemma u16_and_mask [simp]: "(w :: u16) AND 0xFFFF = w"
  by (rule bit_word_eqI) (simp add: mask_bytes bit_simps)

section \<open>Little-endian access\<close>

definition le16 :: "u16 \<Rightarrow> byte list" where
  "le16 w = [ucast w, ucast (drop_bit 8 w)]"

definition le32 :: "u32 \<Rightarrow> byte list" where
  "le32 w = [ucast w, ucast (drop_bit 8 w), ucast (drop_bit 16 w), ucast (drop_bit 24 w)]"

definition get_le16 :: "byte \<Rightarrow> byte \<Rightarrow> u16" where
  "get_le16 lo hi = ucast lo OR push_bit 8 (ucast hi)"

definition get_le32 :: "byte \<Rightarrow> byte \<Rightarrow> byte \<Rightarrow> byte \<Rightarrow> u32" where
  "get_le32 b0 b1 b2 b3 =
     ucast b0 OR push_bit 8 (ucast b1) OR push_bit 16 (ucast b2) OR push_bit 24 (ucast b3)"

lemma length_le [simp]: "length (le16 w) = 2" "length (le32 v) = 4"
  by (simp_all add: le16_def le32_def)

lemma get_le16_ucast [simp]: "get_le16 (ucast w) (ucast (drop_bit 8 w)) = w"
  by (rule bit_word_eqI) (auto simp: get_le16_def bit_simps)

lemma get_le32_ucast [simp]:
  "get_le32 (ucast w) (ucast (drop_bit 8 w)) (ucast (drop_bit 16 w)) (ucast (drop_bit 24 w)) = w"
proof (rule bit_word_eqI)
  fix n assume "n < LENGTH(32)"
  then have "n < 8 \<or> (8 \<le> n \<and> n < 16) \<or> (16 \<le> n \<and> n < 24) \<or> (24 \<le> n \<and> n < 32)" by auto
  then show "bit (get_le32 (ucast w) (ucast (drop_bit 8 w)) (ucast (drop_bit 16 w))
      (ucast (drop_bit 24 w))) n = bit w n"
    by (elim disjE conjE) (auto simp: get_le32_def bit_simps)
qed

lemma get_le16_lo [simp]: "(ucast (get_le16 lo hi) :: byte) = lo"
  by (rule bit_word_eqI) (auto simp: get_le16_def bit_simps)

lemma get_le16_hi [simp]: "(ucast (drop_bit 8 (get_le16 lo hi)) :: byte) = hi"
  by (rule bit_word_eqI) (auto simp: get_le16_def bit_simps dest: bit_imp_le_length)

lemma get_le16_inject: "get_le16 a b = get_le16 c d \<longleftrightarrow> a = c \<and> b = d"
  by (metis get_le16_lo get_le16_hi)

section \<open>Arrays as lists\<close>

text \<open>
  \<open>copy_at dst off src n\<close> is the C loop \<open>for (i = 0; i < n; i++) dst[off + i] = src[i]\<close>.
\<close>

primrec copy_at :: "'a list \<Rightarrow> nat \<Rightarrow> 'a list \<Rightarrow> nat \<Rightarrow> 'a list" where
  "copy_at dst off src 0 = dst"
| "copy_at dst off src (Suc n) = (copy_at dst off src n)[off + n := src ! n]"

lemma length_copy_at [simp]: "length (copy_at dst off src n) = length dst"
  by (induction n) simp_all

lemma nth_copy_at:
  "off + n \<le> length dst \<Longrightarrow>
   copy_at dst off src n ! i = (if off \<le> i \<and> i < off + n then src ! (i - off) else dst ! i)"
  by (induction n) (auto simp: nth_list_update less_Suc_eq)

lemma copy_at_eq [array_simps]:
  assumes "off + n \<le> length dst" "n \<le> length src"
  shows "copy_at dst off src n = take off dst @ take n src @ drop (off + n) dst"
  by (rule nth_equalityI) (use assms in \<open>auto simp: nth_copy_at nth_append min_def\<close>)

lemma copy_at_append: "n \<le> length src \<Longrightarrow> copy_at dst off (src @ src') n = copy_at dst off src n"
  by (induction n) (simp_all add: nth_append)

lemma take_nth_Suc: "i < length xs \<Longrightarrow> take (Suc i) xs = take i xs @ [xs ! i]"
  by (rule take_Suc_conv_app_nth)

section \<open>Fallible computations\<close>

text \<open>
  \<open>ensures P c\<close>: if \<open>c\<close> returns, its result satisfies \<open>P\<close>; the rules follow the program text.
  Where a property is that the code returns, it is stated as \<open>c = Some _\<close> instead.
\<close>

definition ensures :: "('a \<Rightarrow> bool) \<Rightarrow> 'a option \<Rightarrow> bool" where
  "ensures P c \<longleftrightarrow> (\<forall>x. c = Some x \<longrightarrow> P x)"

named_theorems ensures_rules

lemma ensures_Some [simp]: "ensures P (Some x) \<longleftrightarrow> P x"
  by (simp add: ensures_def)

lemma ensures_None [simp]: "ensures P None"
  by (simp add: ensures_def)

lemma ensures_bind: "ensures P (c \<bind> f) \<longleftrightarrow> ensures (\<lambda>x. ensures P (f x)) c"
  by (cases c) simp_all

lemma ensures_bindI:
  "(\<And>x. c = Some x \<Longrightarrow> ensures P (f x)) \<Longrightarrow> ensures P (c \<bind> f)"
  by (cases c) simp_all

lemma ensures_ifI [ensures_rules]:
  "(b \<Longrightarrow> ensures P c) \<Longrightarrow> (\<not> b \<Longrightarrow> ensures P d) \<Longrightarrow> ensures P (if b then c else d)"
  by simp

lemma ensures_seq:
  "ensures Q c \<Longrightarrow> (\<And>x. Q x \<Longrightarrow> ensures P (f x)) \<Longrightarrow> ensures P (c \<bind> f)"
  by (cases c) simp_all

lemma ensuresD: "ensures P c \<Longrightarrow> c = Some x \<Longrightarrow> P x"
  by (simp add: ensures_def)

section \<open>Byte codecs\<close>

text \<open>
  The contract of a wire format: what \<open>enc\<close> writes, \<open>dec\<close> reads back whatever bytes
  follow it. The two consequences every user of the format relies on are that distinct
  values have distinct encodings and that no encoding is a proper prefix of another.
\<close>

locale byte_codec =
  fixes enc :: "'a \<Rightarrow> byte list"
    and dec :: "byte list \<Rightarrow> 'a option"
    and valid :: "'a \<Rightarrow> bool"
  assumes dec_enc: "valid x \<Longrightarrow> dec (enc x @ rest) = Some x"
begin

lemma dec_enc_exact: "valid x \<Longrightarrow> dec (enc x) = Some x"
  using dec_enc [of x "[]"] by simp

lemma prefix_free:
  assumes "valid x" "valid y" "enc x @ r = enc y @ s"
  shows "x = y \<and> r = s"
proof -
  from assms have "Some x = Some y" by (metis dec_enc)
  with assms(3) show ?thesis by simp
qed

lemma enc_inj: "valid x \<Longrightarrow> valid y \<Longrightarrow> enc x = enc y \<Longrightarrow> x = y"
  using prefix_free [of x y "[]" "[]"] by simp

end

definition dec_le16 :: "byte list \<Rightarrow> u16 option" where
  "dec_le16 bs = (case bs of lo # hi # _ \<Rightarrow> Some (get_le16 lo hi) | _ \<Rightarrow> None)"

definition dec_le32 :: "byte list \<Rightarrow> u32 option" where
  "dec_le32 bs = (case bs of b0 # b1 # b2 # b3 # _ \<Rightarrow> Some (get_le32 b0 b1 b2 b3) | _ \<Rightarrow> None)"

interpretation le16: byte_codec le16 dec_le16 "\<lambda>_. True"
  by unfold_locales (simp add: le16_def dec_le16_def)

interpretation le32: byte_codec le32 dec_le32 "\<lambda>_. True"
  by unfold_locales (simp add: le32_def dec_le32_def)

end
