(* ===== verification/Sdf_DosMem.thy ===== *)
theory Sdf_DosMem
  imports Sdf_Prelude
begin

text \<open>
  Real-mode memory and the DOS structures in it, \<open>dos/src/dosstruc.h\<close>. Memory is a function
  from linear addresses to bytes, so that far pointers that name the same bytes do alias: DOS
  hands the redirector a disk transfer area that is the search record of its own SDA. A far
  pointer is a segment and an offset; pointer arithmetic changes the offset only and wraps at
  64 KB. Structures are byte offsets, checked against the declared field lists.
\<close>

type_synonym memory = "nat \<Rightarrow> byte"
type_synonym fp = "u16 \<times> u16"

section \<open>Far pointers and access\<close>

definition lin :: "fp \<Rightarrow> nat" where
  "lin p = 16 * unat (fst p) + unat (snd p)"

definition fadd :: "fp \<Rightarrow> u16 \<Rightarrow> fp" where
  "fadd p k = (fst p, snd p + k)"

definition peek8 :: "memory \<Rightarrow> fp \<Rightarrow> byte" where
  "peek8 m p = m (lin p)"

definition poke8 :: "memory \<Rightarrow> fp \<Rightarrow> byte \<Rightarrow> memory" where
  "poke8 m p b = m(lin p := b)"

definition peek16 :: "memory \<Rightarrow> fp \<Rightarrow> u16" where
  "peek16 m p = get_le16 (peek8 m p) (peek8 m (fadd p 1))"

definition peek32 :: "memory \<Rightarrow> fp \<Rightarrow> u32" where
  "peek32 m p = get_le32 (peek8 m p) (peek8 m (fadd p 1)) (peek8 m (fadd p 2)) (peek8 m (fadd p 3))"

primrec poke_bytes :: "memory \<Rightarrow> fp \<Rightarrow> byte list \<Rightarrow> memory" where
  "poke_bytes m p [] = m"
| "poke_bytes m p (b # bs) = poke_bytes (poke8 m p b) (fadd p 1) bs"

definition poke16 :: "memory \<Rightarrow> fp \<Rightarrow> u16 \<Rightarrow> memory" where
  "poke16 m p w = poke_bytes m p (le16 w)"

definition poke32 :: "memory \<Rightarrow> fp \<Rightarrow> u32 \<Rightarrow> memory" where
  "poke32 m p w = poke_bytes m p (le32 w)"

definition peek_bytes :: "memory \<Rightarrow> fp \<Rightarrow> nat \<Rightarrow> byte list" where
  "peek_bytes m p n = map (\<lambda>i. peek8 m (fadd p (of_nat i))) [0..<n]"

definition peek_fp :: "memory \<Rightarrow> fp \<Rightarrow> fp" where
  "peek_fp m p = (peek16 m (fadd p 2), peek16 m p)"

definition poke_fp :: "memory \<Rightarrow> fp \<Rightarrow> fp \<Rightarrow> memory" where
  "poke_fp m p q = poke16 (poke16 m p (snd q)) (fadd p 2) (fst q)"

abbreviation NULL :: fp where "NULL \<equiv> (0, 0)"

text \<open>\<open>copybytes\<close> between two far addresses, one byte at a time.\<close>

primrec copybytes :: "memory \<Rightarrow> fp \<Rightarrow> fp \<Rightarrow> nat \<Rightarrow> memory" where
  "copybytes m d s 0 = m"
| "copybytes m d s (Suc l) = copybytes (poke8 m d (peek8 m s)) (fadd d 1) (fadd s 1) l"

section \<open>Reading over writing\<close>

text \<open>\<open>fits p n\<close>: the \<open>n\<close> bytes at \<open>p\<close> do not run over the end of the segment.\<close>

definition fits :: "fp \<Rightarrow> nat \<Rightarrow> bool" where
  "fits p n \<longleftrightarrow> unat (snd p) + n \<le> 65536"

lemma fadd_fadd [simp]: "fadd (fadd p j) k = fadd p (j + k)"
  by (simp add: fadd_def add.assoc)

lemma fadd_0 [simp]: "fadd p 0 = p"
  by (simp add: fadd_def)

lemma lin_fadd: "fits p n \<Longrightarrow> unat k < n \<Longrightarrow> lin (fadd p k) = lin p + unat k"
  by (simp add: lin_def fadd_def fits_def unat_word_ariths)

lemma fits_mono: "fits p n \<Longrightarrow> k \<le> n \<Longrightarrow> fits p k"
  by (simp add: fits_def)

lemma fits_fadd: "fits p n \<Longrightarrow> unat k + j \<le> n \<Longrightarrow> fits (fadd p k) j"
proof (cases "unat (snd p) + unat k < 65536")
  case True
  then show "fits p n \<Longrightarrow> unat k + j \<le> n \<Longrightarrow> fits (fadd p k) j"
    by (simp add: fits_def fadd_def unat_word_ariths)
next
  case False
  then show "fits p n \<Longrightarrow> unat k + j \<le> n \<Longrightarrow> fits (fadd p k) j"
    by (auto simp: fits_def fadd_def unat_word_ariths)
qed

lemma poke_bytes_at:
  "fits p (length bs) \<Longrightarrow>
   poke_bytes m p bs a = (if lin p \<le> a \<and> a < lin p + length bs then bs ! (a - lin p) else m a)"
proof (induction bs arbitrary: m p)
  case (Cons b bs)
  show ?case
  proof (cases bs)
    case Nil
    then show ?thesis by (auto simp: poke8_def)
  next
    case (Cons b' bs')
    then have l: "lin (fadd p 1) = lin p + 1" "fits (fadd p 1) (length bs)"
      using Cons.prems fits_fadd [of p "length (b # bs)" 1 "length bs"]
      by (simp_all add: lin_fadd [of p "length (b # bs)"])
    show ?thesis
      by (simp add: Cons.IH [OF l(2)] l(1) poke8_def)
  qed
qed auto

lemma peek_bytes_eq:
  "fits p n \<Longrightarrow> n \<le> 65536 \<Longrightarrow> peek_bytes m p n = map (\<lambda>i. m (lin p + i)) [0..<n]"
  by (auto simp: peek_bytes_def peek8_def lin_fadd [of p n] unat_of_nat take_bit_nat_eq_self_iff)

lemma length_peek_bytes [simp]: "length (peek_bytes m p n) = n"
  by (simp add: peek_bytes_def)

text \<open>Two regions of linear memory that share no byte.\<close>

definition apart :: "fp \<Rightarrow> nat \<Rightarrow> fp \<Rightarrow> nat \<Rightarrow> bool" where
  "apart p j q k \<longleftrightarrow> lin p + j \<le> lin q \<or> lin q + k \<le> lin p"

lemma apart_sym: "apart p j q k \<longleftrightarrow> apart q k p j"
  by (auto simp: apart_def)

lemma peek_poke_bytes_same:
  "fits p (length bs) \<Longrightarrow> length bs \<le> 65536 \<Longrightarrow> peek_bytes (poke_bytes m p bs) p (length bs) = bs"
  by (rule nth_equalityI) (simp_all add: peek_bytes_eq poke_bytes_at)

lemma peek_poke_bytes_apart:
  assumes "fits p n" "n \<le> 65536" "fits q (length bs)" "apart p n q (length bs)"
  shows "peek_bytes (poke_bytes m q bs) p n = peek_bytes m p n"
  using assms by (auto simp: peek_bytes_eq poke_bytes_at apart_def)

section \<open>Structure layouts\<close>

type_synonym layout = "(string \<times> nat) list"

fun offset_of :: "layout \<Rightarrow> string \<Rightarrow> nat option" where
  "offset_of [] f = None"
| "offset_of ((g, n) # fs) f = (if g = f then Some 0 else map_option ((+) n) (offset_of fs f))"

definition struct_size :: "layout \<Rightarrow> nat" where
  "struct_size l = sum_list (map snd l)"

definition cdsstruct :: layout where
  "cdsstruct = [(''current_path'', 67), (''flags'', 2), (''dpb'', 4), (''u'', 6),
     (''backslash_offset'', 2), (''f2'', 7)]"

definition sdbstruct :: layout where
  "sdbstruct = [(''drv_lett'', 1), (''srch_tmpl'', 11), (''srch_attr'', 1), (''dir_entry'', 2),
     (''par_clstr'', 2), (''f1'', 4)]"

definition foundfilestruct :: layout where
  "foundfilestruct = [(''fname'', 11), (''fattr'', 1), (''f1'', 10), (''time_lstupd'', 2),
     (''date_lstupd'', 2), (''start_clstr'', 2), (''fsize'', 4)]"

definition sdastruct :: layout where
  "sdastruct = [(''f0'', 12), (''curr_dta'', 4), (''f1'', 32), (''dd'', 1), (''mm'', 1),
     (''yy_1980'', 2), (''f2'', 106), (''fn1'', 128), (''fn2'', 128),
     (''sdb'', struct_size sdbstruct), (''found_file'', struct_size foundfilestruct),
     (''drive_cdscopy'', struct_size cdsstruct), (''fcb_fn1'', 11), (''f3'', 1), (''fcb_fn2'', 11),
     (''f4'', 11), (''srch_attr'', 1), (''open_mode'', 1), (''f5'', 51), (''drive_cdsptr'', 4),
     (''f6'', 12), (''fn1_csofs'', 2), (''fn2_csofs'', 2), (''f7'', 71), (''spop_act'', 2),
     (''spop_attr'', 2), (''spop_mode'', 2), (''f8'', 29),
     (''ren_srcfile'', struct_size sdbstruct), (''ren_file'', struct_size foundfilestruct)]"

definition sftstruct :: layout where
  "sftstruct = [(''handle_count'', 2), (''open_mode'', 2), (''file_attr'', 1),
     (''dev_info_word'', 2), (''dev_drvr_ptr'', 4), (''start_sector'', 2), (''file_time'', 4),
     (''file_size'', 4), (''file_pos'', 4), (''rel_sector'', 2), (''abs_sector'', 2),
     (''dir_sector'', 2), (''dir_entry_no'', 1), (''file_name'', 11)]"

text \<open>The offsets the handlers use.\<close>

abbreviation (input) SFT_HANDLE_COUNT :: u16 where "SFT_HANDLE_COUNT \<equiv> 0"
abbreviation (input) SFT_OPEN_MODE :: u16 where "SFT_OPEN_MODE \<equiv> 2"
abbreviation (input) SFT_FILE_ATTR :: u16 where "SFT_FILE_ATTR \<equiv> 4"
abbreviation (input) SFT_DEV_INFO :: u16 where "SFT_DEV_INFO \<equiv> 5"
abbreviation (input) SFT_DEV_DRVR :: u16 where "SFT_DEV_DRVR \<equiv> 7"
abbreviation (input) SFT_START_SECTOR :: u16 where "SFT_START_SECTOR \<equiv> 11"
abbreviation (input) SFT_FILE_TIME :: u16 where "SFT_FILE_TIME \<equiv> 13"
abbreviation (input) SFT_FILE_SIZE :: u16 where "SFT_FILE_SIZE \<equiv> 17"
abbreviation (input) SFT_FILE_POS :: u16 where "SFT_FILE_POS \<equiv> 21"
abbreviation (input) SFT_REL_SECTOR :: u16 where "SFT_REL_SECTOR \<equiv> 25"
abbreviation (input) SFT_ABS_SECTOR :: u16 where "SFT_ABS_SECTOR \<equiv> 27"
abbreviation (input) SFT_DIR_SECTOR :: u16 where "SFT_DIR_SECTOR \<equiv> 29"
abbreviation (input) SFT_DIR_ENTRY_NO :: u16 where "SFT_DIR_ENTRY_NO \<equiv> 31"
abbreviation (input) SFT_FILE_NAME :: u16 where "SFT_FILE_NAME \<equiv> 32"

abbreviation (input) SDA_CURR_DTA :: u16 where "SDA_CURR_DTA \<equiv> 0x0C"
abbreviation (input) SDA_FN1 :: u16 where "SDA_FN1 \<equiv> 0x9E"
abbreviation (input) SDA_FN2 :: u16 where "SDA_FN2 \<equiv> 0x11E"
abbreviation (input) SDA_SDB :: u16 where "SDA_SDB \<equiv> 0x19E"
abbreviation (input) SDA_FOUND_FILE :: u16 where "SDA_FOUND_FILE \<equiv> 0x1B3"
abbreviation (input) SDA_FCB_FN1 :: u16 where "SDA_FCB_FN1 \<equiv> 0x22B"
abbreviation (input) SDA_SRCH_ATTR :: u16 where "SDA_SRCH_ATTR \<equiv> 0x24D"
abbreviation (input) SDA_SPOP_ACT :: u16 where "SDA_SPOP_ACT \<equiv> 0x2DD"

abbreviation (input) SDB_DRV_LETT :: u16 where "SDB_DRV_LETT \<equiv> 0"
abbreviation (input) SDB_SRCH_TMPL :: u16 where "SDB_SRCH_TMPL \<equiv> 1"
abbreviation (input) SDB_SRCH_ATTR :: u16 where "SDB_SRCH_ATTR \<equiv> 12"
abbreviation (input) SDB_DIR_ENTRY :: u16 where "SDB_DIR_ENTRY \<equiv> 13"
abbreviation (input) SDB_PAR_CLSTR :: u16 where "SDB_PAR_CLSTR \<equiv> 15"
abbreviation (input) SDB_SIZE :: u16 where "SDB_SIZE \<equiv> 21"

abbreviation (input) FF_FNAME :: u16 where "FF_FNAME \<equiv> 0"
abbreviation (input) FF_FATTR :: u16 where "FF_FATTR \<equiv> 11"
abbreviation (input) FF_TIME :: u16 where "FF_TIME \<equiv> 22"
abbreviation (input) FF_DATE :: u16 where "FF_DATE \<equiv> 24"
abbreviation (input) FF_START_CLSTR :: u16 where "FF_START_CLSTR \<equiv> 26"
abbreviation (input) FF_FSIZE :: u16 where "FF_FSIZE \<equiv> 28"
abbreviation (input) FF_SIZE :: nat where "FF_SIZE \<equiv> 32"

section \<open>C strings\<close>

text \<open>\<open>cstring m p bs\<close>: the characters \<open>bs\<close> and a terminating NUL are at \<open>p\<close>.\<close>

definition cstring :: "memory \<Rightarrow> fp \<Rightarrow> byte list \<Rightarrow> bool" where
  "cstring m p bs \<longleftrightarrow> 0 \<notin> set bs \<and> length bs < 65536 \<and>
     peek_bytes m p (length bs + 1) = bs @ [0]"

lemma cstring_nth:
  assumes "cstring m p bs" "i \<le> length bs"
  shows "peek8 m (fadd p (of_nat i)) = (if i = length bs then 0 else bs ! i)"
proof -
  have "peek_bytes m p (length bs + 1) ! i = (bs @ [0]) ! i"
    using assms by (simp add: cstring_def)
  then show ?thesis using assms by (simp add: peek_bytes_def nth_append del: upt_Suc)
qed

lemma cstring_nz: "cstring m p bs \<Longrightarrow> i < length bs \<Longrightarrow> bs ! i \<noteq> 0"
  by (metis cstring_def nth_mem)

partial_function (option) mystrlen_loop :: "memory \<Rightarrow> fp \<Rightarrow> u16 \<Rightarrow> u16 option" where
  "mystrlen_loop m s r = (if peek8 m s = 0 then Some r else mystrlen_loop m (fadd s 1) (r + 1))"

definition mystrlen :: "memory \<Rightarrow> fp \<Rightarrow> u16 option" where
  "mystrlen m s = mystrlen_loop m s 0"

lemma mystrlen_loop_cstring:
  "cstring m p bs \<Longrightarrow> n \<le> length bs \<Longrightarrow>
   mystrlen_loop m (fadd p (of_nat (length bs - n))) (of_nat (length bs - n)) = Some (of_nat (length bs))"
proof (induction n)
  case 0
  then show ?case by (subst mystrlen_loop.simps) (simp add: cstring_nth)
next
  case (Suc n)
  let ?i = "length bs - Suc n"
  have "Suc ?i = length bs - n" using Suc.prems by simp
  then have nxt: "of_nat ?i + 1 = (of_nat (length bs - n) :: u16)"
    by (metis of_nat_Suc add.commute)
  have "peek8 m (fadd p (of_nat ?i)) \<noteq> 0"
    using Suc.prems cstring_nz [of m p bs ?i] by (subst cstring_nth [of m p bs]) auto
  then show ?case using Suc by (subst mystrlen_loop.simps) (simp add: nxt)
qed

lemma mystrlen_cstring: "cstring m p bs \<Longrightarrow> mystrlen m p = Some (of_nat (length bs))"
  using mystrlen_loop_cstring [of m p bs "length bs"] by (simp add: mystrlen_def)

section \<open>Field access in apart regions\<close>

lemma poke_bytes_append:
  "poke_bytes m p (as @ bs) = poke_bytes (poke_bytes m p as) (fadd p (of_nat (length as))) bs"
  by (induction as arbitrary: m p) (simp_all add: add.commute)

lemma poke8_eq: "poke8 m p b = poke_bytes m p [b]"
  by simp

lemma apart_fadd:
  "fits p n \<Longrightarrow> unat k + j \<le> n \<Longrightarrow> 0 < j \<Longrightarrow> apart p n q l \<Longrightarrow> apart (fadd p k) j q l"
  by (auto simp: apart_def lin_fadd)

lemma apart_mono: "apart p n q l \<Longrightarrow> n' \<le> n \<Longrightarrow> l' \<le> l \<Longrightarrow> apart p n' q l'"
  by (auto simp: apart_def)

lemma peek8_poke_apart:
  "fits q (length bs) \<Longrightarrow> apart p 1 q (length bs) \<Longrightarrow> peek8 (poke_bytes m q bs) p = peek8 m p"
  by (auto simp: peek8_def poke_bytes_at apart_def)

lemma peek16_poke_apart:
  assumes "fits q (length bs)" "fits p 2" "apart p 2 q (length bs)"
  shows "peek16 (poke_bytes m q bs) p = peek16 m p"
proof -
  have "apart p 1 q (length bs)" "apart (fadd p 1) 1 q (length bs)"
    using assms apart_fadd [of p 2 1 1 q "length bs"] by (auto intro: apart_mono)
  then show ?thesis using assms(1) by (simp add: peek16_def peek8_poke_apart)
qed

lemma peek32_poke_apart:
  assumes "fits q (length bs)" "fits p 4" "apart p 4 q (length bs)"
  shows "peek32 (poke_bytes m q bs) p = peek32 m p"
proof -
  have "apart (fadd p k) 1 q (length bs)" if "unat k < 4" for k
    using assms that by (intro apart_fadd [of p 4]) auto
  from this [of 0] this [of 1] this [of 2] this [of 3] show ?thesis
    using assms(1) by (simp add: peek32_def peek8_poke_apart)
qed

lemma peek_fp_poke_apart:
  assumes "fits q (length bs)" "fits p 4" "apart p 4 q (length bs)"
  shows "peek_fp (poke_bytes m q bs) p = peek_fp m p"
proof -
  have "apart p 2 q (length bs)" "apart (fadd p 2) 2 q (length bs)" "fits p 2" "fits (fadd p 2) 2"
    using assms apart_fadd [of p 4 2 2 q "length bs"] fits_fadd [of p 4 2 2]
    by (auto intro: apart_mono fits_mono)
  then show ?thesis using assms(1) by (simp add: peek_fp_def peek16_poke_apart)
qed

text \<open>What a store to a field leaves at the field itself.\<close>

lemma peek16_poke16: "fits p 2 \<Longrightarrow> peek16 (poke16 m p w) p = w"
  using lin_fadd [of p 2 1] by (simp add: peek16_def poke16_def le16_def peek8_def poke8_def)

lemma peek32_poke32: "fits p 4 \<Longrightarrow> peek32 (poke32 m p v) p = v"
  using lin_fadd [of p 4 1] lin_fadd [of p 4 2] lin_fadd [of p 4 3]
  by (simp add: peek32_def poke32_def le32_def peek8_def poke8_def)

lemma peek8_poke8 [simp]: "peek8 (poke8 m p b) p = b"
  by (simp add: peek8_def poke8_def)

text \<open>
  A memory is unchanged outside the regions of a list: each store of a function extends the
  list by the region it writes.
\<close>

definition same_outside :: "(fp \<times> nat) list \<Rightarrow> memory \<Rightarrow> memory \<Rightarrow> bool" where
  "same_outside rs m m' \<longleftrightarrow>
     (\<forall>a. (\<forall>(p, n) \<in> set rs. \<not> (lin p \<le> a \<and> a < lin p + n)) \<longrightarrow> m' a = m a)"

lemma same_outside_refl [simp]: "same_outside rs m m"
  by (simp add: same_outside_def)

lemma same_outside_poke:
  "same_outside rs m m' \<Longrightarrow> fits p (length bs) \<Longrightarrow> (q, k) \<in> set rs \<Longrightarrow>
   lin q \<le> lin p \<Longrightarrow> lin p + length bs \<le> lin q + k \<Longrightarrow> same_outside rs m (poke_bytes m' p bs)"
  by (fastforce simp: same_outside_def poke_bytes_at)

lemma same_outside_trans:
  "same_outside rs m m' \<Longrightarrow> same_outside rs m' m'' \<Longrightarrow> same_outside rs m m''"
  by (simp add: same_outside_def)

lemma same_outsideD:
  "same_outside rs m m' \<Longrightarrow> (\<And>q k. (q, k) \<in> set rs \<Longrightarrow> a < lin q \<or> lin q + k \<le> a) \<Longrightarrow> m' a = m a"
  unfolding same_outside_def by (metis (mono_tags, lifting) case_prodI2 leD not_le)

lemma peek8_same:
  assumes "same_outside rs m m'" "\<And>q k. (q, k) \<in> set rs \<Longrightarrow> apart p 1 q k"
  shows "peek8 m' p = peek8 m p"
proof -
  have "m' (lin p) = m (lin p)"
    by (rule same_outsideD [OF assms(1)]) (drule assms(2), simp add: apart_def less_eq_Suc_le)
  then show ?thesis by (simp add: peek8_def)
qed

lemma peek16_same:
  assumes "same_outside rs m m'" "fits p 2" "\<And>q k. (q, k) \<in> set rs \<Longrightarrow> apart p 2 q k"
  shows "peek16 m' p = peek16 m p"
proof -
  have "peek8 m' p = peek8 m p"
    by (rule peek8_same [OF assms(1)]) (drule assms(3), erule apart_mono, simp_all)
  moreover have "peek8 m' (fadd p 1) = peek8 m (fadd p 1)"
    by (rule peek8_same [OF assms(1)]) (drule assms(3), erule apart_fadd [OF assms(2), rotated 2], simp_all)
  ultimately show ?thesis by (simp add: peek16_def)
qed

lemma peek_bytes_same:
  assumes "same_outside rs m m'" "fits p n" "n \<le> 65536" "\<And>q k. (q, k) \<in> set rs \<Longrightarrow> apart p n q k"
  shows "peek_bytes m' p n = peek_bytes m p n"
proof -
  have "m' (lin p + i) = m (lin p + i)" if "i < n" for i
    by (rule same_outsideD [OF assms(1)]) (drule assms(4), use that in \<open>auto simp: apart_def\<close>)
  with assms(2,3) show ?thesis by (simp add: peek_bytes_eq)
qed

lemma peek_fp_same:
  assumes "same_outside rs m m'" "fits p 4" "\<And>q k. (q, k) \<in> set rs \<Longrightarrow> apart p 4 q k"
  shows "peek_fp m' p = peek_fp m p"
proof -
  have f: "fits p 2" "fits (fadd p 2) 2" using assms(2) fits_fadd [of p 4 2 2] by (auto intro: fits_mono)
  have "peek16 m' p = peek16 m p"
    by (rule peek16_same [OF assms(1) f(1)]) (drule assms(3), erule apart_mono, simp_all)
  moreover have "peek16 m' (fadd p 2) = peek16 m (fadd p 2)"
    by (rule peek16_same [OF assms(1) f(2)])
      (drule assms(3), erule apart_fadd [OF assms(2), rotated 2], simp_all)
  ultimately show ?thesis by (simp add: peek_fp_def)
qed

lemma peek_bytes_sub:
  "w + c \<le> n \<Longrightarrow> peek_bytes m (fadd p (of_nat w)) c = take c (drop w (peek_bytes m p n))"
  by (rule nth_equalityI) (simp_all add: peek_bytes_def)

end
