(* ===== verification/Sdf_Frame.thy ===== *)
theory Sdf_Frame
  imports Sdf_Prelude
begin

text \<open>
  The serial frame codec, \<open>dos/src/serframe.c\<close> and \<open>serframe.h\<close>: the CRC-16/CCITT-FALSE
  table with its lazy initialisation, the incremental and block CRC, \<open>frame_encode\<close> and
  \<open>frame_decode\<close>. The lemmas relate the table-driven CRC to the division of
  polynomials modulo two by the CCITT generator, which is defined without the program's own loop, the encoder to the wire layout of \<open>protocol/spec.txt\<close>, and the decoder to the
  frames it accepts.
\<close>

section \<open>Constants\<close>

definition FRAME_MAGIC_0 :: byte where "FRAME_MAGIC_0 = 0x53"
definition FRAME_MAGIC_1 :: byte where "FRAME_MAGIC_1 = 0x44"
definition FRAME_VERSION :: byte where "FRAME_VERSION = 1"

abbreviation (input) FRAME_HDR_SIZE :: nat where "FRAME_HDR_SIZE \<equiv> 10"
abbreviation (input) FRAME_CRC_SIZE :: nat where "FRAME_CRC_SIZE \<equiv> 2"
abbreviation (input) FRAME_MAX_PAYLOAD :: nat where "FRAME_MAX_PAYLOAD \<equiv> 512"
abbreviation (input) FRAME_MAX_SIZE :: nat where "FRAME_MAX_SIZE \<equiv> 524"

lemmas frame_consts = FRAME_MAGIC_0_def FRAME_MAGIC_1_def FRAME_VERSION_def

abbreviation (input) CMD_PING :: byte where "CMD_PING \<equiv> 0x01"
abbreviation (input) CMD_LIST_DIR :: byte where "CMD_LIST_DIR \<equiv> 0x10"
abbreviation (input) CMD_LIST_DIR_NEXT :: byte where "CMD_LIST_DIR_NEXT \<equiv> 0x11"
abbreviation (input) CMD_OPEN :: byte where "CMD_OPEN \<equiv> 0x20"
abbreviation (input) CMD_CREATE :: byte where "CMD_CREATE \<equiv> 0x21"
abbreviation (input) CMD_READ :: byte where "CMD_READ \<equiv> 0x22"
abbreviation (input) CMD_WRITE :: byte where "CMD_WRITE \<equiv> 0x23"
abbreviation (input) CMD_SEEK :: byte where "CMD_SEEK \<equiv> 0x24"
abbreviation (input) CMD_CLOSE :: byte where "CMD_CLOSE \<equiv> 0x25"
abbreviation (input) CMD_DELETE :: byte where "CMD_DELETE \<equiv> 0x30"
abbreviation (input) CMD_RENAME :: byte where "CMD_RENAME \<equiv> 0x31"
abbreviation (input) CMD_MKDIR :: byte where "CMD_MKDIR \<equiv> 0x32"
abbreviation (input) CMD_RMDIR :: byte where "CMD_RMDIR \<equiv> 0x33"
abbreviation (input) CMD_GET_ATTR :: byte where "CMD_GET_ATTR \<equiv> 0x40"
abbreviation (input) CMD_SET_ATTR :: byte where "CMD_SET_ATTR \<equiv> 0x41"
abbreviation (input) CMD_FLUSH :: byte where "CMD_FLUSH \<equiv> 0x50"

abbreviation (input) STATUS_OK :: byte where "STATUS_OK \<equiv> 0x00"
abbreviation (input) ERR_NOT_FOUND :: byte where "ERR_NOT_FOUND \<equiv> 0x01"
abbreviation (input) ERR_ACCESS :: byte where "ERR_ACCESS \<equiv> 0x02"
abbreviation (input) ERR_BAD_HANDLE :: byte where "ERR_BAD_HANDLE \<equiv> 0x03"
abbreviation (input) ERR_EXISTS :: byte where "ERR_EXISTS \<equiv> 0x04"
abbreviation (input) ERR_IO :: byte where "ERR_IO \<equiv> 0x05"
abbreviation (input) ERR_CRC :: byte where "ERR_CRC \<equiv> 0x06"
abbreviation (input) ERR_TIMEOUT :: byte where "ERR_TIMEOUT \<equiv> 0x07"
abbreviation (input) ERR_UNSUPPORTED :: byte where "ERR_UNSUPPORTED \<equiv> 0x08"
abbreviation (input) ERR_BAD_PATH :: byte where "ERR_BAD_PATH \<equiv> 0x09"
abbreviation (input) ERR_PROTOCOL :: byte where "ERR_PROTOCOL \<equiv> 0x0A"

abbreviation (input) FLAG_NONE :: byte where "FLAG_NONE \<equiv> 0x00"
abbreviation (input) FLAG_RETRY :: byte where "FLAG_RETRY \<equiv> 0x01"

section \<open>CRC-16/CCITT-FALSE\<close>

text \<open>One turn of the inner loop of \<open>crc_init\<close>; \<open>v\<close> is 16 bits wide.\<close>

definition crc_step :: "u16 \<Rightarrow> u16" where
  "crc_step v = (if v AND 0x8000 \<noteq> 0 then push_bit 1 v XOR 0x1021 else push_bit 1 v)"

definition crc_entry :: "nat \<Rightarrow> u16" where
  "crc_entry i = (crc_step ^^ 8) (push_bit 8 (of_nat i))"

text \<open>The statics of \<open>serframe.c\<close>: the table and its ready flag, and \<open>crc_init\<close> filling it.\<close>

record crc_static =
  crc_table :: "u16 list"
  crc_ready :: bool

primrec crc_fill :: "nat \<Rightarrow> u16 list \<Rightarrow> u16 list" where
  "crc_fill 0 t = t"
| "crc_fill (Suc i) t = (crc_fill i t)[i := crc_entry i]"

definition crc_init :: "crc_static \<Rightarrow> crc_static" where
  "crc_init c = c\<lparr>crc_table := crc_fill 256 (crc_table c), crc_ready := True\<rparr>"

definition crc_lookup :: "u16 list \<Rightarrow> u16 \<Rightarrow> byte \<Rightarrow> u16" where
  "crc_lookup t crc b =
     (t ! unat ((drop_bit 8 crc XOR ucast b) AND 0xFF) XOR push_bit 8 crc) AND 0xFFFF"

definition crc16_update :: "u16 \<Rightarrow> byte \<Rightarrow> crc_static \<Rightarrow> u16 \<times> crc_static" where
  "crc16_update crc b c =
     (let c = (if crc_ready c then c else crc_init c) in (crc_lookup (crc_table c) crc b, c))"

primrec crc_loop :: "u16 list \<Rightarrow> byte list \<Rightarrow> nat \<Rightarrow> u16" where
  "crc_loop t buf 0 = 0xFFFF"
| "crc_loop t buf (Suc i) = crc_lookup t (crc_loop t buf i) (buf ! i)"

definition crc16_block :: "byte list \<Rightarrow> nat \<Rightarrow> crc_static \<Rightarrow> u16 \<times> crc_static" where
  "crc16_block buf len c =
     (let c = (if crc_ready c then c else crc_init c) in (crc_loop (crc_table c) buf len, c))"

section \<open>Encoder and decoder\<close>

text \<open>
  \<open>frame_encode\<close> writes into \<open>out\<close> and returns the frame length, 0 when the payload is too
  long. The caller's \<open>payload\<close> array and \<open>plen\<close> are separate, as in C.
\<close>

definition frame_encode ::
  "byte \<Rightarrow> byte \<Rightarrow> byte \<Rightarrow> byte \<Rightarrow> byte list \<Rightarrow> nat \<Rightarrow> byte list \<Rightarrow> crc_static \<Rightarrow>
   nat \<times> byte list \<times> crc_static" where
  "frame_encode cmd sq fl st payload plen out c =
     (if plen > FRAME_MAX_PAYLOAD then (0, out, c)
      else let
        out = out[0 := FRAME_MAGIC_0, 1 := FRAME_MAGIC_1, 2 := FRAME_VERSION, 3 := fl, 4 := sq,
                  5 := cmd, 6 := st, 7 := 0, 8 := of_nat plen AND 0xFF,
                  9 := of_nat (plen div 256) AND 0xFF];
        out = copy_at out 10 payload plen;
        (crc, c) = crc16_block out (FRAME_HDR_SIZE + plen) c;
        out = out[FRAME_HDR_SIZE + plen := ucast (crc AND 0xFF),
                  FRAME_HDR_SIZE + plen + 1 := ucast (drop_bit 8 crc AND 0xFF)]
      in (FRAME_HDR_SIZE + plen + FRAME_CRC_SIZE, out, c))"

record frame_hdr =
  version :: byte
  flags :: byte
  seq :: byte
  command :: byte
  status :: byte
  payload_len :: nat

datatype frame_err = FRAME_SHORT | FRAME_BADMAGIC | FRAME_BADVER | FRAME_BADCRC | FRAME_TOOLONG

text \<open>
  \<open>frame_decode\<close> returns the header, the offset of the payload in \<open>buf\<close> and its length.
\<close>

definition frame_decode ::
  "byte list \<Rightarrow> nat \<Rightarrow> crc_static \<Rightarrow> (frame_err + frame_hdr \<times> nat \<times> nat) \<times> crc_static" where
  "frame_decode buf len c =
     (if len < FRAME_HDR_SIZE then (Inl FRAME_SHORT, c)
      else if buf ! 0 \<noteq> FRAME_MAGIC_0 \<or> buf ! 1 \<noteq> FRAME_MAGIC_1 then (Inl FRAME_BADMAGIC, c)
      else if buf ! 2 \<noteq> FRAME_VERSION then (Inl FRAME_BADVER, c)
      else let plen = unat (get_le16 (buf ! 8) (buf ! 9)) in
        if plen > FRAME_MAX_PAYLOAD then (Inl FRAME_TOOLONG, c)
        else if len < FRAME_HDR_SIZE + plen + FRAME_CRC_SIZE then (Inl FRAME_SHORT, c)
        else let
          crc_wire = get_le16 (buf ! (FRAME_HDR_SIZE + plen)) (buf ! (FRAME_HDR_SIZE + plen + 1));
          (crc_calc, c) = crc16_block buf (FRAME_HDR_SIZE + plen) c
        in if crc_wire \<noteq> crc_calc then (Inl FRAME_BADCRC, c)
           else (Inr (\<lparr>version = buf ! 2, flags = buf ! 3, seq = buf ! 4, command = buf ! 5,
                       status = buf ! 6, payload_len = plen\<rparr>, FRAME_HDR_SIZE, plen), c))"

section \<open>The table is transparent\<close>

text \<open>
  Whether the table is initialised or not, every CRC is computed from the same 256 entries:
  \<open>crc_ok\<close> is the invariant of the statics, which a fresh program image satisfies.
\<close>

definition crc_ok :: "crc_static \<Rightarrow> bool" where
  "crc_ok c \<longleftrightarrow> length (crc_table c) = 256 \<and> (crc_ready c \<longrightarrow> crc_table c = map crc_entry [0..<256])"

definition crc_image :: crc_static where
  "crc_image = \<lparr>crc_table = replicate 256 0, crc_ready = False\<rparr>"

abbreviation crc_tab :: "u16 list" where "crc_tab \<equiv> map crc_entry [0..<256]"

definition crc_next :: "u16 \<Rightarrow> byte \<Rightarrow> u16" where
  "crc_next crc b = crc_lookup crc_tab crc b"

definition crc_of :: "byte list \<Rightarrow> u16" where
  "crc_of bs = foldl crc_next 0xFFFF bs"

lemma crc_image_ok [simp]: "crc_ok crc_image"
  by (simp add: crc_ok_def crc_image_def)

lemma length_crc_fill [simp]: "length (crc_fill n t) = length t"
  by (induction n) simp_all

lemma crc_fill_nth: "n \<le> length t \<Longrightarrow> i < n \<Longrightarrow> crc_fill n t ! i = crc_entry i"
  by (induction n) (auto simp: nth_list_update less_Suc_eq)

lemma crc_fill_all: "length t = 256 \<Longrightarrow> crc_fill 256 t = crc_tab"
  by (rule nth_equalityI) (auto simp: crc_fill_nth simp del: upt_rec_numeral)

lemma crc_init_ok: "crc_ok c \<Longrightarrow> crc_ok (crc_init c) \<and> crc_ready (crc_init c)"
  by (simp add: crc_ok_def crc_init_def crc_fill_all del: upt_rec_numeral)

lemma crc_ready_table: "crc_ok c \<Longrightarrow> crc_table (if crc_ready c then c else crc_init c) = crc_tab"
  using crc_init_ok [of c] by (auto simp: crc_ok_def simp del: upt_rec_numeral)

lemma crc_ensure_ok: "crc_ok c \<Longrightarrow> crc_ok (if crc_ready c then c else crc_init c)"
  using crc_init_ok [of c] by auto

lemma crc_loop_tab: "len \<le> length buf \<Longrightarrow> crc_loop crc_tab buf len = crc_of (take len buf)"
  by (induction len) (simp_all add: crc_of_def crc_next_def take_nth_Suc del: upt_rec_numeral)

lemma crc16_block_fst:
  "crc_ok c \<Longrightarrow> len \<le> length buf \<Longrightarrow> fst (crc16_block buf len c) = crc_of (take len buf)"
  using crc_ready_table [of c] by (simp add: crc16_block_def Let_def crc_loop_tab)

lemma crc16_block_ok: "crc_ok c \<Longrightarrow> crc_ok (snd (crc16_block buf len c))"
  using crc_ensure_ok [of c] by (simp add: crc16_block_def Let_def)

lemma crc16_update_eq:
  "crc_ok c \<Longrightarrow> fst (crc16_update crc b c) = crc_next crc b \<and> crc_ok (snd (crc16_update crc b c))"
  using crc_ready_table [of c] crc_ensure_ok [of c]
  by (simp add: crc16_update_def Let_def crc_next_def)

section \<open>The CRC as polynomial division\<close>

lemma crc_step_alt: "crc_step v = push_bit 1 v XOR (if bit v 15 then 0x1021 else 0)"
proof -
  have "(0x8000 :: u16) = push_bit 15 1" by simp
  then have "v AND 0x8000 \<noteq> 0 \<longleftrightarrow> bit v 15"
    by (metis and_exp_eq_0_iff_not_bit push_bit_of_1)
  then show ?thesis by (simp add: crc_step_def)
qed

lemma crc_step_xor: "crc_step (a XOR b) = crc_step a XOR crc_step b"
  by (simp add: crc_step_alt push_bit_xor bit_xor_iff ac_simps)

lemma crc_step_zero_iff: "crc_step v = 0 \<longleftrightarrow> v = 0"
proof
  assume eq: "crc_step v = 0"
  have "\<not> bit (crc_step v) 0" using eq by simp
  moreover have "bit (crc_step v) 0 \<longleftrightarrow> bit v 15"
    by (simp add: crc_step_alt bit_simps del: push_bit_Suc)
  ultimately have n15: "\<not> bit v 15" by simp
  with eq have pb: "push_bit 1 v = 0" by (simp add: crc_step_alt)
  show "v = 0"
  proof (rule bit_word_eqI)
    fix n assume n: "n < LENGTH(16)"
    show "bit v n = bit 0 n"
    proof (cases "n = 15")
      case False
      with n have "bit (push_bit 1 v) (Suc n) = bit v n" by (simp add: bit_simps del: push_bit_Suc)
      with pb show ?thesis by simp
    qed (use n15 in simp)
  qed
qed (simp add: crc_step_alt)

lemma crc_steps_xor: "(crc_step ^^ n) (a XOR b) = (crc_step ^^ n) a XOR (crc_step ^^ n) b"
  by (induction n) (simp_all add: crc_step_xor)

lemma crc_steps_zero_iff: "(crc_step ^^ n) v = 0 \<longleftrightarrow> v = 0"
  by (induction n) (simp_all add: crc_step_zero_iff)

lemma crc_steps_inj: "(crc_step ^^ n) a = (crc_step ^^ n) b \<longleftrightarrow> a = b"
proof -
  have "(crc_step ^^ n) a = (crc_step ^^ n) b \<longleftrightarrow> (crc_step ^^ n) (a XOR b) = 0"
    by (simp add: crc_steps_xor xor_eq_zero)
  then show ?thesis by (simp add: crc_steps_zero_iff xor_eq_zero)
qed

lemma crc_steps_low: "n \<le> 8 \<Longrightarrow> (crc_step ^^ n) (ucast (b :: byte)) = push_bit n (ucast b)"
proof (induction n)
  case (Suc n)
  then have "\<not> bit (push_bit n (ucast b) :: u16) 15"
    by (auto simp: bit_simps dest: bit_imp_le_length)
  then have "crc_step (push_bit n (ucast b)) = push_bit 1 (push_bit n (ucast b))"
    by (simp add: crc_step_alt del: push_bit_Suc One_nat_def)
  with Suc have "(crc_step ^^ Suc n) (ucast b) = push_bit 1 (push_bit n (ucast b))"
    by simp
  then show ?case by (simp only: push_bit_push_bit) simp
qed simp

definition crc_bitwise :: "u16 \<Rightarrow> byte \<Rightarrow> u16" where
  "crc_bitwise crc b = (crc_step ^^ 8) (crc XOR push_bit 8 (ucast b))"

lemma u16_split: "(w :: u16) = push_bit 8 (ucast (ucast (drop_bit 8 w) :: byte)) XOR ucast (ucast w :: byte)"
  by (rule bit_word_eqI) (auto simp: bit_simps)

lemma crc_entry_byte: "crc_entry (unat (b :: byte)) = (crc_step ^^ 8) (push_bit 8 (ucast b))"
  by (simp add: crc_entry_def unsigned_ucast_eq)

lemma crc_index: "unat ((drop_bit 8 crc XOR ucast b) AND (0xFF :: u16)) =
    unat (ucast (drop_bit 8 crc) XOR b :: byte)"
proof -
  have "(drop_bit 8 crc XOR ucast b) AND (0xFF :: u16) = ucast (ucast (drop_bit 8 crc) XOR b :: byte)"
    by (rule bit_word_eqI) (auto simp: mask_bytes bit_simps dest: bit_imp_le_length)
  then show ?thesis by simp
qed

lemma crc_next_bitwise: "crc_next crc b = crc_bitwise crc b"
proof -
  let ?i = "ucast (drop_bit 8 crc) XOR b :: byte"
  have lt: "unat ?i < 256" by simp
  have lin: "crc XOR push_bit 8 (ucast b) = push_bit 8 (ucast ?i) XOR (ucast (ucast crc :: byte) :: u16)"
    by (rule bit_word_eqI) (auto simp: bit_simps)
  have m: "(w :: u16) AND 0xFFFF = w" for w
    by (rule bit_word_eqI) (auto simp: bit_simps)
  have "crc_next crc b = crc_entry (unat ?i) XOR push_bit 8 crc"
    using lt by (simp add: crc_next_def crc_lookup_def crc_index m del: upt_rec_numeral)
  also have "push_bit 8 crc = push_bit 8 (ucast (ucast crc :: byte))"
    by (rule bit_word_eqI) (auto simp: bit_simps)
  also have "crc_entry (unat ?i) XOR push_bit 8 (ucast (ucast crc :: byte)) = crc_bitwise crc b"
    by (simp add: crc_bitwise_def lin crc_steps_xor crc_entry_byte crc_steps_low)
  finally show ?thesis .
qed

lemma crc_next_inj_crc: "crc_next c b = crc_next d b \<longleftrightarrow> c = d"
  by (simp add: crc_next_bitwise crc_bitwise_def crc_steps_inj)

lemma crc_next_inj_byte: "crc_next c a = crc_next c b \<longleftrightarrow> a = b"
proof -
  have "push_bit 8 (ucast a :: u16) = push_bit 8 (ucast b) \<longleftrightarrow> a = b"
  proof
    assume "push_bit 8 (ucast a :: u16) = push_bit 8 (ucast b)"
    then have "(ucast (drop_bit 8 (push_bit 8 (ucast a :: u16))) :: byte) =
      ucast (drop_bit 8 (push_bit 8 (ucast b :: u16)))" by simp
    moreover have "(ucast (drop_bit 8 (push_bit 8 (ucast x :: u16))) :: byte) = x" for x
      by (rule bit_word_eqI) (auto simp: bit_simps)
    ultimately show "a = b" by simp
  qed simp
  then show ?thesis by (simp add: crc_next_bitwise crc_bitwise_def crc_steps_inj)
qed

lemma crc_fold_inj: "foldl crc_next c bs = foldl crc_next d bs \<longleftrightarrow> c = d"
  by (induction bs arbitrary: c d) (simp_all add: crc_next_inj_crc)

lemma crc_two_bytes: "foldl crc_next c [a, b] = (crc_step ^^ 16) (c XOR get_le16 b a)"
proof -
  have e: "(crc_step ^^ 16) v = (crc_step ^^ 8) ((crc_step ^^ 8) v)" for v
    by (simp add: funpow_add [symmetric, THEN fun_cong, simplified comp_def])
  have s: "c XOR get_le16 b a = (c XOR push_bit 8 (ucast a)) XOR ucast b"
    by (rule bit_word_eqI) (auto simp: bit_simps get_le16_def dest: bit_imp_le_length)
  show ?thesis by (simp add: e s crc_steps_xor crc_steps_low crc_next_bitwise crc_bitwise_def ac_simps)
qed

lemma crc_two_bytes_inj:
  "foldl crc_next c [a, b] = foldl crc_next c [a', b'] \<longleftrightarrow> a = a' \<and> b = b'"
  by (auto simp only: crc_two_bytes crc_steps_inj get_le16_inject xor_cancel_left) 

lemma funpow_8: "(f ^^ 8) x = f (f (f (f (f (f (f (f x)))))))"
  by (simp add: numeral_eq_Suc)

lemma crc_check: "crc_of [0x31, 0x32, 0x33, 0x34, 0x35, 0x36, 0x37, 0x38, 0x39] = 0x29B1"
  by (simp add: crc_of_def crc_next_bitwise crc_bitwise_def funpow_8 crc_step_def)
section \<open>The wire layout\<close>

text \<open>
  The frame as \<open>protocol/spec.txt\<close> describes it: ten header bytes, the payload and the CRC
  of everything before it, little-endian.
\<close>

definition frame_body :: "byte \<Rightarrow> byte \<Rightarrow> byte \<Rightarrow> byte \<Rightarrow> byte list \<Rightarrow> byte list" where
  "frame_body cmd sq fl st pl =
     [0x53, 0x44, 1, fl, sq, cmd, st, 0] @ le16 (of_nat (length pl)) @ pl"

definition frame_wire :: "byte \<Rightarrow> byte \<Rightarrow> byte \<Rightarrow> byte \<Rightarrow> byte list \<Rightarrow> byte list" where
  "frame_wire cmd sq fl st pl =
     frame_body cmd sq fl st pl @ le16 (crc_of (frame_body cmd sq fl st pl))"

lemma length_frame_body [simp]: "length (frame_body cmd sq fl st pl) = 10 + length pl"
  by (simp add: frame_body_def)

lemma length_frame_wire [simp]: "length (frame_wire cmd sq fl st pl) = 12 + length pl"
  by (simp add: frame_wire_def)

lemma byte_and_mask [simp]: "(b :: byte) AND 0xFF = b"
  by (rule bit_word_eqI) (simp add: mask_bytes bit_simps)

lemma ucast_and_mask [simp]: "(ucast ((w :: u16) AND 0xFF) :: byte) = ucast w"
  by (rule bit_word_eqI) (simp add: mask_bytes bit_simps)

lemma u16_bytes: "n < 65536 \<Longrightarrow> le16 (of_nat n) = [of_nat n, of_nat (n div 256)]"
proof -
  have "(ucast (of_nat n :: u16) :: byte) = of_nat n"
    by (rule bit_word_eqI) (simp add: bit_simps)
  moreover have "(ucast (drop_bit 8 (of_nat n :: u16)) :: byte) = of_nat (n div 256)" if "n < 65536"
  proof (rule bit_word_eqI)
    fix m assume "m < LENGTH(8)"
    then show "bit (ucast (drop_bit 8 (of_nat n :: u16)) :: byte) m = bit (of_nat (n div 256) :: byte) m"
      by (simp add: bit_simps flip: drop_bit_eq_div [where n = 8, simplified])
  qed
  ultimately show "n < 65536 \<Longrightarrow> le16 (of_nat n) = [of_nat n, of_nat (n div 256)]"
    by (simp add: le16_def)
qed

lemma u16_of_nat_div: "(ucast (drop_bit 8 (w :: u16) AND 0xFF) :: byte) = ucast (drop_bit 8 w)"
  by simp

lemma frame_encode_spec:
  assumes "crc_ok c" "plen \<le> 512" "plen \<le> length payload" "12 + plen \<le> length out"
  shows "\<exists>c'. crc_ok c' \<and> frame_encode cmd sq fl st payload plen out c =
    (12 + plen, frame_wire cmd sq fl st (take plen payload) @ drop (12 + plen) out, c')"
proof -
  obtain o0 o1 o2 o3 o4 o5 o6 o7 o8 o9 rest where out: "out = o0 # o1 # o2 # o3 # o4 # o5 # o6 # o7 # o8 # o9 # rest"
    and rest: "length rest \<ge> plen + 2"
    using assms(4) by (auto simp: numeral_eq_Suc Suc_le_length_iff)
  let ?body = "frame_body cmd sq fl st (take plen payload)"
  let ?hd = "out[0 := FRAME_MAGIC_0, 1 := FRAME_MAGIC_1, 2 := FRAME_VERSION, 3 := fl, 4 := sq,
                  5 := cmd, 6 := st, 7 := 0, 8 := of_nat plen AND 0xFF,
                  9 := of_nat (plen div 256) AND 0xFF]"
  let ?out = "copy_at ?hd 10 payload plen"
  have o: "?out = ?body @ drop plen rest"
    using assms(2,3) rest
    by (simp add: copy_at_eq out frame_body_def frame_consts u16_bytes min_def drop_Cons')
  obtain crc c' where blk: "crc16_block ?out (10 + plen) c = (crc, c')" by fastforce
  have crc: "crc = crc_of ?body"
    using crc16_block_fst [OF assms(1), of "10 + plen" ?out] assms(3) rest
    unfolding blk unfolding o by simp
  have ok: "crc_ok c'" using crc16_block_ok [OF assms(1), of ?out "10 + plen"] unfolding blk by simp
  obtain r0 r1 rr where r: "drop plen rest = r0 # r1 # rr"
  proof -
    have "Suc (Suc 0) \<le> length (drop plen rest)" using rest by simp
    then show ?thesis using that by (simp only: Suc_le_length_iff) blast
  qed
  have rr: "rr = drop (12 + plen) out"
  proof -
    have "rr = drop 2 (drop plen rest)" by (simp add: r)
    then show ?thesis by (simp add: out drop_Cons')
  qed
  have "frame_encode cmd sq fl st payload plen out c =
     (case crc16_block ?out (10 + plen) c of (crc, c) \<Rightarrow>
       (10 + plen + 2, ?out[10 + plen := ucast (crc AND 0xFF),
                            10 + plen + 1 := ucast (drop_bit 8 crc AND 0xFF)], c))"
    using assms(2) by (simp only: frame_encode_def Let_def leD if_False)
  then have "frame_encode cmd sq fl st payload plen out c =
     (12 + plen, (?body @ r0 # r1 # rr)[10 + plen := ucast crc, 11 + plen := ucast (drop_bit 8 crc)], c')"
    unfolding blk unfolding o r by simp
  also have "(?body @ r0 # r1 # rr)[10 + plen := ucast crc, 11 + plen := ucast (drop_bit 8 crc)] =
     ?body @ le16 crc @ rr"
    using assms(3) by (simp add: list_update_append le16_def)
  finally show ?thesis using ok by (simp add: frame_wire_def crc rr)
qed

lemma frame_encode_too_long: "plen > 512 \<Longrightarrow> frame_encode cmd sq fl st payload plen out c = (0, out, c)"
  by (simp add: frame_encode_def)

section \<open>What the decoder accepts\<close>

text \<open>\<open>frame_at buf n\<close>: the bytes at the front of \<open>buf\<close> are a frame with an \<open>n\<close>-byte payload.\<close>

definition frame_at :: "byte list \<Rightarrow> nat \<Rightarrow> bool" where
  "frame_at buf n \<longleftrightarrow>
     buf ! 0 = FRAME_MAGIC_0 \<and> buf ! 1 = FRAME_MAGIC_1 \<and> buf ! 2 = FRAME_VERSION \<and>
     n \<le> 512 \<and> unat (get_le16 (buf ! 8) (buf ! 9)) = n \<and>
     get_le16 (buf ! (10 + n)) (buf ! (11 + n)) = crc_of (take (10 + n) buf)"

definition hdr_at :: "byte list \<Rightarrow> frame_hdr" where
  "hdr_at buf = \<lparr>version = buf ! 2, flags = buf ! 3, seq = buf ! 4, command = buf ! 5,
                 status = buf ! 6, payload_len = unat (get_le16 (buf ! 8) (buf ! 9))\<rparr>"

lemma frame_decode_accepts:
  assumes "crc_ok c" "len \<le> length buf"
  shows "fst (frame_decode buf len c) = Inr (h, off, n) \<longleftrightarrow>
    frame_at buf n \<and> 12 + n \<le> len \<and> h = hdr_at buf \<and> off = 10"
proof -
  let ?n = "unat (get_le16 (buf ! 8) (buf ! 9))"
  have blk: "fst (crc16_block buf (10 + ?n) c) = crc_of (take (10 + ?n) buf)" if "12 + ?n \<le> len"
    using crc16_block_fst [OF assms(1), of "10 + ?n" buf] that assms(2) by simp
  show ?thesis
    by (cases "12 + ?n \<le> len")
       (use blk in \<open>auto simp: frame_decode_def frame_at_def hdr_at_def Let_def
          split: prod.splits\<close>)
qed

lemma frame_decode_crc_ok: "crc_ok c \<Longrightarrow> crc_ok (snd (frame_decode buf len c))"
  by (auto simp: frame_decode_def Let_def split: prod.splits) (metis crc16_block_ok snd_conv)+

lemma frame_at_wire:
  assumes "length pl \<le> 512"
  shows "frame_at (frame_wire cmd sq fl st pl @ rest) (length pl)"
    and "hdr_at (frame_wire cmd sq fl st pl @ rest) =
      \<lparr>version = 1, flags = fl, seq = sq, command = cmd, status = st, payload_len = length pl\<rparr>"
  using assms by (simp_all add: frame_at_def hdr_at_def frame_wire_def frame_consts nth_append
      frame_body_def le16_def unat_of_nat take_Cons')

section \<open>Error detection\<close>

lemma crc_fold_inj_list:
  assumes "length xs = 1 \<or> length xs = 2" "length ys = length xs" "foldl crc_next c xs = foldl crc_next c ys"
  shows "xs = ys"
  using assms(1)
proof
  assume "length xs = 1"
  then obtain a b where "xs = [a]" "ys = [b]" using assms(2)
    by (metis length_0_conv length_Suc_conv One_nat_def)
  then show ?thesis using assms(3) by (simp add: crc_next_inj_byte)
next
  assume "length xs = 2"
  then have "length xs = Suc (Suc 0)" "length ys = Suc (Suc 0)" using assms(2) by simp_all
  then obtain a b a' b' where e: "xs = [a, b]" "ys = [a', b']"
    by (simp only: length_Suc_conv length_0_conv) blast
  have "a = a' \<and> b = b'"
    by (rule iffD1 [OF crc_two_bytes_inj]) (rule assms(3) [unfolded e])
  then show ?thesis by (simp add: e)
qed

lemma crc_of_overwrite:
  assumes "length ds = 1 \<or> length ds = 2" "i + length ds \<le> length bs"
    and "crc_of (take i bs @ ds @ drop (i + length ds) bs) = crc_of bs"
  shows "take (length ds) (drop i bs) = ds"
proof -
  let ?ys = "take (length ds) (drop i bs)" and ?zs = "drop (i + length ds) bs"
  let ?c = "foldl crc_next 0xFFFF (take i bs)"
  have "bs = take i bs @ ?ys @ ?zs"
    by (metis append_take_drop_id drop_drop add.commute)
  then have "crc_of bs = foldl crc_next (foldl crc_next ?c ?ys) ?zs"
    by (metis crc_of_def foldl_append)
  with assms(3) have eq: "foldl crc_next ?c ds = foldl crc_next ?c ?ys"
    by (simp add: crc_of_def crc_fold_inj)
  have "length ?ys = length ds" using assms(2) by simp
  with eq assms(1) show ?thesis using crc_fold_inj_list by metis
qed

section \<open>The frame format as a byte codec\<close>

definition frame_put :: "frame_hdr \<times> byte list \<Rightarrow> byte list" where
  "frame_put = (\<lambda>(h, pl).
     let (n, out, _) = frame_encode (command h) (seq h) (flags h) (status h) pl (length pl)
                         (replicate FRAME_MAX_SIZE 0) crc_image
     in take n out)"

definition frame_get :: "byte list \<Rightarrow> (frame_hdr \<times> byte list) option" where
  "frame_get bs = (case fst (frame_decode bs (length bs) crc_image) of
     Inl _ \<Rightarrow> None | Inr (h, off, n) \<Rightarrow> Some (h, take n (drop off bs)))"

definition frame_valid :: "frame_hdr \<times> byte list \<Rightarrow> bool" where
  "frame_valid = (\<lambda>(h, pl). version h = 1 \<and> payload_len h = length pl \<and> length pl \<le> 512)"

lemma frame_put_wire:
  "length pl \<le> 512 \<Longrightarrow>
   frame_put (h, pl) = frame_wire (command h) (seq h) (flags h) (status h) pl"
  using frame_encode_spec [of crc_image "length pl" pl "replicate FRAME_MAX_SIZE 0"
      "command h" "seq h" "flags h" "status h"]
  by (auto simp: frame_put_def)

interpretation wire: byte_codec frame_put frame_get frame_valid
proof
  fix x :: "frame_hdr \<times> byte list" and rest
  assume v: "frame_valid x"
  obtain h pl where x: "x = (h, pl)" by fastforce
  let ?w = "frame_wire (command h) (seq h) (flags h) (status h) pl"
  have "hdr_at (?w @ rest) = h"
    using v frame_at_wire(2) [of pl "command h" "seq h" "flags h" "status h" rest]
    by (cases h) (simp add: x frame_valid_def)
  then have "fst (frame_decode (?w @ rest) (length (?w @ rest)) crc_image) = Inr (h, 10, length pl)"
    using v frame_at_wire(1) [of pl "command h" "seq h" "flags h" "status h" rest]
    by (simp add: frame_decode_accepts x frame_valid_def)
  moreover have "take (length pl) (drop 10 (?w @ rest)) = pl"
    by (simp add: frame_wire_def frame_body_def)
  ultimately show "frame_get (frame_put x @ rest) = Some x"
    using v by (simp add: frame_get_def frame_put_wire x frame_valid_def)
qed

section \<open>The CRC as division of polynomials\<close>

text \<open>
  The reference for the checksum, independent of the program's loop: polynomials over the field of
  two elements are natural numbers, the bits being the coefficients; their sum is \<open>XOR\<close>, and
  \<open>clmul\<close> is their product. A CRC is the remainder of a division by the generator, here
  \<open>x^16 + x^12 + x^5 + 1\<close>.
\<close>

fun clmul :: "nat \<Rightarrow> nat \<Rightarrow> nat" where
  "clmul q g = (if q = 0 then 0 else (if odd q then g else 0) XOR 2 * clmul (q div 2) g)"

declare clmul.simps [simp del]

definition CCITT_GENERATOR :: nat where
  "CCITT_GENERATOR = 2 ^ 16 + 2 ^ 12 + 2 ^ 5 + 1"

definition message_poly :: "byte list \<Rightarrow> nat" where
  "message_poly = foldl (\<lambda>m b. 256 * m + unat b) 0"

text \<open>Congruence modulo the generator.\<close>

definition ccitt_cong :: "nat \<Rightarrow> nat \<Rightarrow> bool" where
  "ccitt_cong a b \<longleftrightarrow> (\<exists>q. a = clmul q CCITT_GENERATOR XOR b)"

lemma double_xor: "2 * (a XOR b :: nat) = 2 * a XOR 2 * b"
  using push_bit_xor [of 1 a b] by (simp add: push_bit_eq_mult mult.commute)

lemma mult_256_xor: "256 * (a XOR b :: nat) = 256 * a XOR 256 * b"
  using push_bit_xor [of 8 a b] by (simp add: push_bit_eq_mult mult.commute)

lemma mult_pow_xor: "(a XOR b :: nat) * 2 ^ n = a * 2 ^ n XOR b * 2 ^ n"
  using push_bit_xor [of n a b] by (simp only: push_bit_eq_mult)

lemma xor_div_2: "(a XOR b :: nat) div 2 = a div 2 XOR b div 2"
  using drop_bit_xor [of 1 a b] by (simp only: drop_bit_eq_div) simp

lemma xor_odd: "odd (a XOR b :: nat) \<longleftrightarrow> odd a \<noteq> odd b"
  by (simp add: even_xor_iff)

lemma clmul_0 [simp]: "clmul 0 g = 0"
  by (simp add: clmul.simps)

lemma clmul_rec: "clmul q g = (if odd q then g else 0) XOR 2 * clmul (q div 2) g"
  by (cases "q = 0") (simp_all add: clmul.simps [of q])

lemma clmul_1 [simp]: "clmul (Suc 0) g = g"
  by (simp add: clmul.simps [of "Suc 0"])

lemma clmul_double: "clmul (2 * q) g = 2 * clmul q g"
  by (simp add: clmul_rec [of "2 * q"])

lemma xor_left_self: "(a :: nat) XOR (a XOR b) = b"
  by (simp flip: xor.assoc)

lemma clmul_xor: "clmul (a XOR b) g = clmul a g XOR clmul b g"
proof (induction a arbitrary: b rule: less_induct)
  case (less a)
  show ?case
  proof (cases "a = 0")
    case False
    then have "clmul ((a XOR b) div 2) g = clmul (a div 2) g XOR clmul (b div 2) g"
      by (simp add: xor_div_2 less.IH)
    then show ?thesis
      by (subst (1 2 3) clmul_rec) (auto simp: xor_odd double_xor ac_simps xor_left_self)
  qed simp
qed

lemma cong_refl [simp]: "ccitt_cong a a"
  unfolding ccitt_cong_def by (rule exI [of _ 0]) simp

lemma cong_trans [trans]: "ccitt_cong a b \<Longrightarrow> ccitt_cong b c \<Longrightarrow> ccitt_cong a c"
  unfolding ccitt_cong_def by (metis clmul_xor xor.assoc)

lemma cong_xor: "ccitt_cong a b \<Longrightarrow> ccitt_cong (a XOR c) (b XOR c)"
  unfolding ccitt_cong_def by (metis xor.assoc)

lemma cong_double: "ccitt_cong a b \<Longrightarrow> ccitt_cong (2 * a) (2 * b)"
  unfolding ccitt_cong_def by (metis clmul_double double_xor)

lemma cong_double_pow: "ccitt_cong a b \<Longrightarrow> ccitt_cong (2 ^ n * a) (2 ^ n * b)"
  by (induction n) (simp_all add: mult.assoc cong_double)

lemma bit_generator: "bit CCITT_GENERATOR n \<longleftrightarrow> n = 16 \<or> (n < 16 \<and> bit (0x1021 :: u16) n)"
proof -
  have g: "CCITT_GENERATOR = push_bit 16 1 XOR push_bit 12 1 XOR push_bit 5 1 XOR 1"
    by (simp add: CCITT_GENERATOR_def)
  have w: "(0x1021 :: u16) = push_bit 12 1 XOR push_bit 5 1 XOR 1" by simp
  show ?thesis
    unfolding g w by (auto simp only: bit_xor_iff bit_push_bit_iff Bit_Operations.bit_push_bit_iff bit_1_iff possible_bit_def) simp_all
qed

text \<open>One turn of the program's loop multiplies by \<open>x\<close> and reduces.\<close>

lemma crc_step_cong: "ccitt_cong (2 * unat v) (unat (crc_step v))"
proof -
  have "push_bit 1 (unat v) = (if bit v 15 then CCITT_GENERATOR else 0) XOR unat (crc_step v)"
  proof (rule bit_eqI)
    fix n
    have "bit (push_bit 1 (unat v)) n \<longleftrightarrow> 0 < n \<and> bit v (n - 1)"
      by (auto simp only: bit_push_bit_iff bit_unsigned_iff possible_bit_def) simp_all
    moreover have "bit (unat (crc_step v)) n \<longleftrightarrow> bit (crc_step v) n"
      by (simp add: bit_unsigned_iff)
    moreover have "bit (crc_step v) n \<longleftrightarrow> n < 16 \<and> ((0 < n \<and> bit v (n - 1)) \<noteq> (bit v 15 \<and> bit (0x1021 :: u16) n))"
      by (auto simp: crc_step_alt bit_simps simp del: push_bit_Suc bit_numeral_simps dest: bit_imp_le_length)
    moreover have "bit CCITT_GENERATOR n \<longleftrightarrow> n = 16 \<or> (n < 16 \<and> bit (0x1021 :: u16) n)"
      by (rule bit_generator)
    ultimately show "bit (push_bit 1 (unat v)) n \<longleftrightarrow>
      bit ((if bit v 15 then CCITT_GENERATOR else 0) XOR unat (crc_step v)) n"
      by (cases "n \<le> 16") (auto simp: bit_xor_iff le_less dest: bit_imp_le_length)
  qed
  then have "2 * unat v = clmul (if bit v 15 then 1 else 0) CCITT_GENERATOR XOR unat (crc_step v)"
    by (simp add: push_bit_eq_mult mult.commute)
  then show ?thesis unfolding ccitt_cong_def by blast
qed

lemma crc_steps_cong: "ccitt_cong (2 ^ n * unat v) (unat ((crc_step ^^ n) v))"
proof (induction n)
  case (Suc n)
  have "ccitt_cong (2 * (2 ^ n * unat v)) (2 * unat ((crc_step ^^ n) v))"
    by (rule cong_double [OF Suc])
  also have "ccitt_cong \<dots> (unat (crc_step ((crc_step ^^ n) v)))"
    by (rule crc_step_cong)
  finally show ?case by (simp add: mult.assoc)
qed simp

lemma crc_next_cong: "ccitt_cong (256 * (unat crc XOR 256 * unat b)) (unat (crc_next crc b))"
proof -
  have "unat (push_bit 8 (ucast b) :: u16) = 256 * unat b"
    using unsigned_less [of b] by (simp add: push_bit_eq_mult unat_word_ariths mult.commute)
  then have "unat (crc XOR push_bit 8 (ucast b)) = unat crc XOR 256 * unat b"
    by (simp add: unsigned_xor_eq)
  then show ?thesis
    using crc_steps_cong [of 8 "crc XOR push_bit 8 (ucast b)"]
    by (simp add: crc_next_bitwise crc_bitwise_def)
qed

lemma message_poly_snoc: "message_poly (bs @ [b]) = 256 * message_poly bs XOR unat b"
proof -
  have "256 * m + unat b = 256 * m XOR unat b" for m :: nat
  proof -
    have "(push_bit 8 m) AND unat b = 0"
      by (rule bit_eqI) (auto simp: bit_simps dest: bit_imp_le_length)
    then have "push_bit 8 m + unat b = push_bit 8 m XOR unat b"
      by (rule disjunctive_add_eq_xor)
    then show ?thesis by (simp add: push_bit_eq_mult mult.commute)
  qed
  then show ?thesis by (simp add: message_poly_def)
qed

lemma crc_of_cong:
  "ccitt_cong (0xFFFF * 2 ^ (8 * length bs) XOR message_poly bs * 2 ^ 16) (unat (crc_of bs))"
proof (induction bs rule: rev_induct)
  case Nil
  show ?case by (simp add: message_poly_def crc_of_def)
next
  case (snoc b bs)
  let ?s = "0xFFFF * 2 ^ (8 * length bs) XOR message_poly bs * 2 ^ 16"
  have "0xFFFF * 2 ^ (8 * length (bs @ [b])) XOR message_poly (bs @ [b]) * 2 ^ 16 =
    256 * ?s XOR 65536 * unat b"
  proof -
    have "(256 * m XOR k) * 2 ^ 16 = 256 * (m * 2 ^ 16) XOR 65536 * k" for m k :: nat
      by (simp only: mult_pow_xor) (simp add: mult.commute)
    then show ?thesis
      by (simp only: message_poly_snoc mult_256_xor) (simp add: power_add ac_simps)
  qed
  also have "ccitt_cong \<dots> (256 * unat (crc_of bs) XOR 65536 * unat b)"
    using cong_double_pow [OF snoc, of 8] by (intro cong_xor) simp
  also have "256 * unat (crc_of bs) XOR 65536 * unat b = 256 * (unat (crc_of bs) XOR 256 * unat b)"
    by (simp add: mult_256_xor)
  also have "ccitt_cong \<dots> (unat (crc_next (crc_of bs) b))"
    by (rule crc_next_cong)
  finally show ?case by (simp add: crc_of_def)
qed

section \<open>Properties\<close>

text \<open>
  C7: a frame that \<open>frame_encode\<close> has built decodes, wherever it stands at the front of a
  buffer and whatever the state of the two CRC tables, to the header fields it was given and
  to its payload.
\<close>

theorem frame_roundtrip:
  assumes "crc_ok c" "crc_ok c'" "length pl \<le> 512" "length out = FRAME_MAX_SIZE"
    and enc: "frame_encode cmd sq fl st pl (length pl) out c = (n, buf, c1)"
    and "take n buf = take n buf'" "n \<le> len" "len \<le> length buf'"
  shows "fst (frame_decode buf' len c') =
    Inr (\<lparr>version = 1, flags = fl, seq = sq, command = cmd, status = st, payload_len = length pl\<rparr>,
         10, length pl) \<and> take (length pl) (drop 10 buf') = pl"
proof -
  from frame_encode_spec [OF assms(1), of "length pl" pl out cmd sq fl st] assms(3,4) enc
  have n: "n = 12 + length pl" and buf: "take n buf = frame_wire cmd sq fl st pl" by auto
  have split: "buf' = frame_wire cmd sq fl st pl @ drop n buf'"
    using assms(6) buf by (metis append_take_drop_id)
  have "take (length pl) (drop 10 (frame_wire cmd sq fl st pl @ drop n buf')) = pl"
    by (simp add: frame_wire_def frame_body_def)
  moreover have "frame_at buf' (length pl)" "hdr_at buf' =
      \<lparr>version = 1, flags = fl, seq = sq, command = cmd, status = st, payload_len = length pl\<rparr>"
    using frame_at_wire [OF assms(3), of cmd sq fl st "drop n buf'"] split by simp_all
  ultimately show ?thesis
    using assms(7,8) n split by (metis assms(2) frame_decode_accepts)
qed

theorem frame_roundtrip_witness:
  "\<exists>n buf c1. frame_encode CMD_PING 7 0 0 [1, 2] 2 (replicate 524 0) crc_image = (n, buf, c1) \<and>
     fst (frame_decode buf n crc_image) =
       Inr (\<lparr>version = 1, flags = 0, seq = 7, command = 1, status = 0, payload_len = 2\<rparr>, 10, 2) \<and>
     take 2 (drop 10 buf) = [1, 2]"
proof -
  obtain n buf c1 where e: "frame_encode CMD_PING 7 0 0 [1, 2] (length [1 :: byte, 2]) (replicate 524 0) crc_image = (n, buf, c1)"
    by (metis prod_cases3)
  have two: "length [1 :: byte, 2] = 2" by simp
  have n: "n \<le> length buf"
    using e [unfolded two] frame_encode_spec [of crc_image 2 "[1, 2]" "replicate 524 0" CMD_PING 7 0 0] by auto
  from frame_roundtrip [OF crc_image_ok crc_image_ok _ _ e refl order.refl n, unfolded two]
  show ?thesis using e [unfolded two] by auto
qed

text \<open>
  C20: the checksums are CRC-16/CCITT-FALSE. \<open>crc16_block\<close> returns the remainder, of degree less
  than 16, of the message times \<open>x^16\<close> with the initial value \<open>0xFFFF\<close> added to its first 16
  coefficients, divided by \<open>x^16 + x^12 + x^5 + 1\<close>; \<open>crc16_update\<close> continues a division by one
  byte. This holds for every buffer, initialised table or not.
\<close>

theorem crc16_ccitt:
  assumes "crc_ok c" "n \<le> length buf"
  shows "(\<exists>q. 0xFFFF * 2 ^ (8 * n) XOR message_poly (take n buf) * 2 ^ 16 =
      clmul q CCITT_GENERATOR XOR unat (fst (crc16_block buf n c))) \<and>
    (\<exists>q. 2 ^ 8 * unat crc XOR 2 ^ 16 * unat b =
      clmul q CCITT_GENERATOR XOR unat (fst (crc16_update crc b c)))"
proof
  show "\<exists>q. 0xFFFF * 2 ^ (8 * n) XOR message_poly (take n buf) * 2 ^ 16 =
      clmul q CCITT_GENERATOR XOR unat (fst (crc16_block buf n c))"
    using crc_of_cong [of "take n buf"] assms by (simp add: ccitt_cong_def crc16_block_fst)
  show "\<exists>q. 2 ^ 8 * unat crc XOR 2 ^ 16 * unat b =
      clmul q CCITT_GENERATOR XOR unat (fst (crc16_update crc b c))"
    using crc_next_cong [of crc b] assms
    by (simp add: ccitt_cong_def crc16_update_eq mult_256_xor)
qed

theorem crc16_ccitt_witness:
  "\<exists>q. 0xFFFF * 2 ^ (8 * 2) XOR message_poly [0x31, 0x32] * 2 ^ 16 =
     clmul q CCITT_GENERATOR XOR unat (fst (crc16_block [0x31, 0x32] 2 crc_image))"
  using crc16_ccitt [OF crc_image_ok, of 2 "[0x31, 0x32]" 0 0] by simp

text \<open>
  C8: damage to one or two adjacent bytes of a frame, at any place, is always rejected by
  \<open>frame_decode\<close>, if it stays within the first eight header bytes, within the payload or
  within the checksum. (Two places are not covered. Damage of the length field moves the place
  where the checksum is looked for. And a pair of damaged bytes that ends the payload and begins
  the checksum can be accepted, because the checksum is sent low byte first:
  \<open>payload_end_undetected\<close>.)
\<close>

theorem frame_burst_detected:
  assumes c: "crc_ok c" "length pl \<le> 512"
    and w: "w = frame_wire cmd sq fl st pl"
    and ds: "length ds = 1 \<or> length ds = 2"
    and i: "i + length ds \<le> 8 \<or> (10 \<le> i \<and> i + length ds \<le> 10 + length pl) \<or>
      (10 + length pl \<le> i \<and> i + length ds \<le> 12 + length pl)"
    and diff: "take i w @ ds @ drop (i + length ds) w \<noteq> w"
  shows "\<exists>e. fst (frame_decode (take i w @ ds @ drop (i + length ds) w @ rest)
    (12 + length pl + length rest) c) = Inl e"
proof (rule ccontr)
  let ?n = "length pl"
  define w' where "w' = take i w @ ds @ drop (i + length ds) w"
  assume "\<not> ?thesis"
  then obtain h off n where d: "fst (frame_decode (w' @ rest) (12 + ?n + length rest) c) = Inr (h, off, n)"
    unfolding w'_def by (metis append.assoc sum.exhaust prod.exhaust)
  have lw: "length w = 12 + ?n" "length w' = 12 + ?n" using i w by (auto simp: w'_def)
  have fa: "frame_at (w' @ rest) n"
    using d frame_decode_accepts [OF c(1), of "12 + ?n + length rest" "w' @ rest" h off n] lw by simp
  have fw: "frame_at w ?n" using frame_at_wire(1) [OF c(2), of cmd sq fl st "[]"] w by simp
  have same: "w' ! k = w ! k" if "k < 12 + ?n" "k < i \<or> i + length ds \<le> k" for k
    using that lw(1) i by (auto simp: w'_def nth_append)
  have n: "n = ?n"
    using fa fw same [of 8] same [of 9] i lw by (auto simp: frame_at_def nth_append)
  have crc: "get_le16 (w' ! (10 + ?n)) (w' ! (11 + ?n)) = crc_of (take (10 + ?n) w')"
    "get_le16 (w ! (10 + ?n)) (w ! (11 + ?n)) = crc_of (take (10 + ?n) w)"
    using fa fw n lw by (simp_all add: frame_at_def nth_append)
  have "take (length ds) (drop i w) = ds"
  proof (cases "10 + ?n \<le> i")
    case True
    then have tk: "take (10 + ?n) w' = take (10 + ?n) w" using lw by (simp add: w'_def min_def)
    with crc have "w' ! (10 + ?n) = w ! (10 + ?n)" "w' ! (11 + ?n) = w ! (11 + ?n)"
      unfolding tk by (metis get_le16_inject)+
    moreover have "w' ! k = w ! k" if "k < 10 + ?n" for k
      using that tk by (metis nth_take)
    moreover have "k < 10 + ?n \<or> k = 10 + ?n \<or> k = 11 + ?n" if "k < 12 + ?n" for k
      using that by linarith
    ultimately have "w' = w" using lw by (intro nth_equalityI) auto
    with diff show ?thesis by (simp add: w'_def)
  next
    case False
    with i have i': "i + length ds \<le> 10 + ?n" by auto
    then have "crc_of (take (10 + ?n) w') = crc_of (take (10 + ?n) w)"
      using crc same [of "10 + ?n"] same [of "11 + ?n"] by simp
    moreover have "take (10 + ?n) w' = take i (take (10 + ?n) w) @ ds @ drop (i + length ds) (take (10 + ?n) w)"
      using i' lw ds by (auto simp: w'_def take_drop min_def)
    ultimately have "take (length ds) (drop i (take (10 + ?n) w)) = ds"
      using crc_of_overwrite [OF ds, of i "take (10 + ?n) w"] i' lw by simp
    then show ?thesis using i' by (auto simp: drop_take min_def split: if_splits)
  qed
  then have "w' = w" unfolding w'_def by (metis append_take_drop_id drop_drop add.commute)
  with diff show False by (simp add: w'_def)
qed

theorem frame_burst_detected_witness:
  "\<exists>e. fst (frame_decode (take 10 (frame_wire CMD_CLOSE 1 0 0 [5]) @ [9] @
     drop (10 + length [9 :: byte]) (frame_wire CMD_CLOSE 1 0 0 [5]) @ [])
     (12 + length [5 :: byte] + length ([] :: byte list)) crc_image) = Inl e"
proof (rule frame_burst_detected [OF crc_image_ok _ refl])
  show "take 10 (frame_wire CMD_CLOSE 1 0 0 [5]) @ [9] @ drop (10 + length [9 :: byte]) (frame_wire CMD_CLOSE 1 0 0 [5])
     \<noteq> frame_wire CMD_CLOSE 1 0 0 [5]"
    by (simp add: frame_wire_def frame_body_def le16_def)
qed simp_all

text \<open>
  The place \<open>frame_burst_detected\<close> leaves out is a real one: with the last payload byte and the
  first checksum byte changed, the CLOSE request for handle 5 is the well-formed CLOSE request for
  handle \<open>0x8C\<close>.
\<close>

lemma payload_end_undetected:
  "frame_wire CMD_CLOSE 1 0 0 [5] = hd10 @ [5, x, y] \<Longrightarrow> length hd10 = 10 \<Longrightarrow>
   frame_wire CMD_CLOSE 1 0 0 [0x8C] = hd10 @ [0x8C, x XOR 0xA1, y]"
proof -
  define c where "c = crc_of [0x53, 0x44, 1, 0, 1, CMD_CLOSE, 0, 0, 1, 0]"
  have w: "frame_wire CMD_CLOSE 1 0 0 [b] = [0x53, 0x44, 1, 0, 1, CMD_CLOSE, 0, 0, 1, 0, b] @ le16 (crc_next c b)" for b
    by (simp add: frame_wire_def frame_body_def c_def crc_of_def le16_def)
  have "crc_next c 0x8C = crc_next c 5 XOR (crc_step ^^ 8) (push_bit 8 0x89)"
    by (simp add: crc_next_bitwise crc_bitwise_def crc_steps_xor ac_simps flip: crc_steps_xor)
  also have "(crc_step ^^ 8) (push_bit 8 0x89) = 0xA1"
    by (simp add: funpow_8 crc_step_def)
  finally have eq: "crc_next c 0x8C = crc_next c 5 XOR 0xA1" .
  have "le16 (crc_next c 0x8C) = [ucast (crc_next c 5) XOR 0xA1, ucast (drop_bit 8 (crc_next c 5))]"
  proof -
    have "ucast (v XOR w) = (ucast v XOR ucast w :: byte)" for v w :: u16
      by (rule bit_word_eqI) (auto simp: bit_simps)
    then have "ucast (v XOR 0xA1 :: u16) = (ucast v XOR 0xA1 :: byte)" for v
      by simp
    then show ?thesis by (simp add: eq le16_def drop_bit_xor)
  qed
  then show "frame_wire CMD_CLOSE 1 0 0 [5] = hd10 @ [5, x, y] \<Longrightarrow> length hd10 = 10 \<Longrightarrow>
    frame_wire CMD_CLOSE 1 0 0 [0x8C] = hd10 @ [0x8C, x XOR 0xA1, y]"
    by (auto simp: w le16_def append_eq_append_conv)
qed


text \<open>
  \<open>frame_decode\<close> accepts exactly the buffers whose front is a well-formed frame, and then
  returns the header bytes as they stand and the place of the payload.
\<close>

theorem frame_decode_exact:
  assumes "crc_ok c" "len \<le> length buf"
  shows "fst (frame_decode buf len c) = Inr (h, off, n) \<longleftrightarrow>
    frame_at buf n \<and> 12 + n \<le> len \<and> h = hdr_at buf \<and> off = 10"
  using assms by (rule frame_decode_accepts)

theorem frame_decode_exact_witness:
  "fst (frame_decode (replicate 12 0) 12 crc_image) = Inr (hdr_at (replicate 12 0), 10, 0) \<longleftrightarrow> False"
  using frame_decode_exact [OF crc_image_ok, of 12 "replicate 12 0" "hdr_at (replicate 12 0)" 10 0]
  by (simp add: frame_at_def frame_consts)

text \<open>
  The wire format is prefix-free and injective: two valid frames whose byte strings agree
  up to what follows them are the same frame, so a stream of frames is read in one way only.
\<close>

theorem frame_prefix_free:
  assumes "frame_valid x" "frame_valid y" "frame_put x @ r = frame_put y @ s"
  shows "x = y \<and> r = s"
  using assms by (rule wire.prefix_free)

theorem frame_prefix_free_witness:
  "let x = (\<lparr>version = 1, flags = 0, seq = 1, command = 1, status = 0, payload_len = 1\<rparr>, [9])
   in frame_valid x \<and> x = x \<and> ([1 :: byte] = [1])"
  using frame_prefix_free [of "(\<lparr>version = 1, flags = 0, seq = 1, command = 1, status = 0, payload_len = 1\<rparr>, [9])"
      "(\<lparr>version = 1, flags = 0, seq = 1, command = 1, status = 0, payload_len = 1\<rparr>, [9])" "[1]" "[1]"]
  by (simp add: frame_valid_def)

text \<open>
  The encoder reproduces the first golden vector of the repository, the PING request with
  sequence number 1: \<open>53 44 01 00 01 01 00 00 00 00 6e dd\<close>.
\<close>

theorem frame_golden_ping:
  "frame_put (\<lparr>version = 1, flags = 0, seq = 1, command = CMD_PING, status = 0, payload_len = 0\<rparr>, []) =
     [0x53, 0x44, 0x01, 0x00, 0x01, 0x01, 0x00, 0x00, 0x00, 0x00, 0x6E, 0xDD]"
  by (simp add: frame_put_wire frame_wire_def frame_body_def frame_consts le16_def crc_of_def
      crc_next_bitwise crc_bitwise_def funpow_8 crc_step_def)

end
