(* ===== verification/Sdf_Names.thy ===== *)
theory Sdf_Names
  imports Sdf_DosMem Sdf_Frame
begin

text \<open>
  The resident helpers of \<open>dos/src/serdfs.c\<close> on file names, attributes, paths and status
  codes: wildcard tests, the conversion between 8.3 names and FCB names, template matching,
  the directory part of a path, and the DOS error code of a server status.
\<close>

section \<open>Characters\<close>

abbreviation (input) ch_space :: byte where "ch_space \<equiv> 0x20"
abbreviation (input) ch_star :: byte where "ch_star \<equiv> 0x2A"
abbreviation (input) ch_dot :: byte where "ch_dot \<equiv> 0x2E"
abbreviation (input) ch_quest :: byte where "ch_quest \<equiv> 0x3F"
abbreviation (input) ch_backslash :: byte where "ch_backslash \<equiv> 0x5C"

section \<open>Wildcards\<close>

partial_function (option) wildcard_loop :: "memory \<Rightarrow> fp \<Rightarrow> int \<Rightarrow> int option" where
  "wildcard_loop m s r =
     (let c = peek8 m s in
      if c = 0 then Some r
      else if c = ch_quest \<or> c = ch_star then Some (-1)
      else wildcard_loop m (fadd s 1) (r + 1))"

definition len_if_no_wildcards :: "memory \<Rightarrow> fp \<Rightarrow> int option" where
  "len_if_no_wildcards m s = wildcard_loop m s 0"

lemma wildcard_loop_cstring:
  "cstring m p bs \<Longrightarrow> n \<le> length bs \<Longrightarrow>
   wildcard_loop m (fadd p (of_nat (length bs - n))) r =
     Some (if ch_quest \<in> set (drop (length bs - n) bs) \<or> ch_star \<in> set (drop (length bs - n) bs)
           then -1 else r + int n)"
proof (induction n arbitrary: r)
  case 0
  then show ?case by (subst wildcard_loop.simps) (simp add: cstring_nth)
next
  case (Suc n)
  let ?i = "length bs - Suc n"
  have i: "Suc ?i = length bs - n" "?i < length bs" using Suc.prems by auto
  then have nxt: "of_nat ?i + 1 = (of_nat (length bs - n) :: u16)"
    by (metis of_nat_Suc add.commute)
  have c: "peek8 m (fadd p (of_nat ?i)) = bs ! ?i" "bs ! ?i \<noteq> 0"
    using Suc.prems i by (subst cstring_nth [of m p bs], auto simp: cstring_nz)
  have d: "drop ?i bs = bs ! ?i # drop (length bs - n) bs"
    using i by (metis Cons_nth_drop_Suc)
  show ?case
    using Suc.IH [of "r + 1"] Suc.prems
    by (subst wildcard_loop.simps) (auto simp: Let_def c nxt d simp del: of_nat_diff)
qed

lemma len_if_no_wildcards_cstring:
  "cstring m p bs \<Longrightarrow> len_if_no_wildcards m p =
     Some (if ch_quest \<in> set bs \<or> ch_star \<in> set bs then -1 else int (length bs))"
  using wildcard_loop_cstring [of m p bs "length bs" 0] by (simp add: len_if_no_wildcards_def)

section \<open>8.3 names and FCB names\<close>

text \<open>\<open>name83_to_fcb\<close>: the two loops with their indices; the FCB starts as eleven spaces.\<close>

function fcb_base_loop :: "byte list \<Rightarrow> nat \<Rightarrow> nat \<Rightarrow> byte list \<Rightarrow> nat \<times> byte list" where
  "fcb_base_loop name i j fcb =
     (if i < 12 \<and> name ! i \<noteq> 0 \<and> name ! i \<noteq> ch_dot
      then (if j < 8 then fcb_base_loop name (i + 1) (j + 1) (fcb[j := name ! i])
            else fcb_base_loop name (i + 1) j fcb)
      else (i, fcb))"
  by pat_completeness auto
termination by (relation "measure (\<lambda>(name, i, j, fcb). 12 - i)") auto

function fcb_ext_loop :: "byte list \<Rightarrow> nat \<Rightarrow> nat \<Rightarrow> byte list \<Rightarrow> byte list" where
  "fcb_ext_loop name i j fcb =
     (if i < 12 \<and> name ! i \<noteq> 0
      then (if j < 11 then fcb_ext_loop name (i + 1) (j + 1) (fcb[j := name ! i])
            else fcb_ext_loop name (i + 1) j fcb)
      else fcb)"
  by pat_completeness auto
termination by (relation "measure (\<lambda>(name, i, j, fcb). 12 - i)") auto

declare fcb_base_loop.simps [simp del] fcb_ext_loop.simps [simp del]

definition name83_to_fcb :: "byte list \<Rightarrow> byte list" where
  "name83_to_fcb name =
     (let fcb = replicate 11 ch_space;
          (i, fcb) = fcb_base_loop name 0 0 fcb
      in if i < 12 \<and> name ! i = ch_dot then fcb_ext_loop name (i + 1) 8 fcb else fcb)"

text \<open>
  The FCB name by its parts: what precedes the first dot, cut and padded to eight characters,
  and what follows it up to the NUL, cut and padded to three.
\<close>

definition pad :: "nat \<Rightarrow> byte list \<Rightarrow> byte list" where
  "pad n bs = take n (bs @ replicate n ch_space)"

definition name_base :: "byte list \<Rightarrow> byte list" where
  "name_base bs = takeWhile (\<lambda>c. c \<noteq> 0 \<and> c \<noteq> ch_dot) bs"

definition name_ext :: "byte list \<Rightarrow> byte list" where
  "name_ext bs = (case dropWhile (\<lambda>c. c \<noteq> 0 \<and> c \<noteq> ch_dot) bs of
     [] \<Rightarrow> [] | c # cs \<Rightarrow> if c = ch_dot then takeWhile (\<lambda>c. c \<noteq> 0) cs else [])"

definition fcb_of :: "byte list \<Rightarrow> byte list" where
  "fcb_of bs = pad 8 (name_base bs) @ pad 3 (name_ext bs)"

lemma length_pad [simp]: "length (pad n bs) = n"
  by (simp add: pad_def)

lemma length_fcb_of [simp]: "length (fcb_of bs) = 11"
  by (simp add: fcb_of_def)

text \<open>\<open>fill fcb j k bs\<close>: \<open>bs\<close> written into \<open>fcb\<close> from \<open>j\<close>, as far as \<open>k\<close>.\<close>

definition fill :: "byte list \<Rightarrow> nat \<Rightarrow> nat \<Rightarrow> byte list \<Rightarrow> byte list" where
  "fill fcb j k bs = take j fcb @ take (k - j) bs @ drop (j + min (k - j) (length bs)) fcb"

lemma fill_Nil [simp]: "fill fcb j k [] = fcb"
  by (simp add: fill_def)

lemma fill_full: "k \<le> j \<Longrightarrow> fill fcb j k bs = fcb"
  by (simp add: fill_def)

lemma fill_Cons:
  assumes "j < k" "k \<le> length fcb"
  shows "fill fcb j k (b # bs) = fill (fcb[j := b]) (Suc j) k bs"
proof -
  have "k - j = Suc (k - Suc j)" using assms by simp
  moreover have "take (Suc j) (fcb[j := b]) = take j fcb @ [b]"
    using assms by (simp add: take_Suc_conv_app_nth)
  ultimately show ?thesis by (simp add: fill_def)
qed

lemma length_fill: "k \<le> length fcb \<Longrightarrow> length (fill fcb j k bs) = length fcb"
  by (auto simp: fill_def min_def)

lemma name_base_Cons: "name_base (c # cs) = (if c \<noteq> 0 \<and> c \<noteq> ch_dot then c # name_base cs else [])"
  by (simp add: name_base_def)

lemma name_base_Nil [simp]: "name_base [] = []"
  by (simp add: name_base_def)

lemma fcb_base_loop_eq:
  "length name = 12 \<Longrightarrow> i \<le> 12 \<Longrightarrow> j \<le> 8 \<Longrightarrow> length fcb = 11 \<Longrightarrow>
   fcb_base_loop name i j fcb =
     (i + length (name_base (drop i name)), fill fcb j 8 (name_base (drop i name)))"
proof (induction name i j fcb rule: fcb_base_loop.induct)
  case (1 name i j fcb)
  show ?case
  proof (cases "i < 12")
    case True
    then have d: "drop i name = name ! i # drop (i + 1) name"
      using 1(3) by (simp add: Cons_nth_drop_Suc)
    show ?thesis
      using 1 True
      by (subst fcb_base_loop.simps) (auto simp: d name_base_Cons fill_Cons fill_full)
  next
    case False
    then show ?thesis using 1 by (subst fcb_base_loop.simps) simp
  qed
qed

lemma fcb_ext_loop_eq:
  "length name = 12 \<Longrightarrow> i \<le> 12 \<Longrightarrow> j \<le> 11 \<Longrightarrow> length fcb = 11 \<Longrightarrow>
   fcb_ext_loop name i j fcb = fill fcb j 11 (takeWhile (\<lambda>c. c \<noteq> 0) (drop i name))"
proof (induction name i j fcb rule: fcb_ext_loop.induct)
  case (1 name i j fcb)
  show ?case
  proof (cases "i < 12")
    case True
    then have d: "drop i name = name ! i # drop (i + 1) name"
      using 1(3) by (simp add: Cons_nth_drop_Suc)
    show ?thesis
      using 1 True by (subst fcb_ext_loop.simps) (auto simp: d fill_Cons fill_full)
  next
    case False
    then show ?thesis using 1 by (subst fcb_ext_loop.simps) simp
  qed
qed

lemma pad_alt: "pad n bs = take n bs @ replicate (n - length bs) ch_space"
  by (simp add: pad_def)

lemma fill_base: "fill (replicate 11 ch_space) 0 8 bs = pad 8 bs @ replicate 3 ch_space"
  by (auto simp: fill_def pad_alt replicate_add [symmetric] min_def)

lemma fill_ext: "length p = 8 \<Longrightarrow> fill (p @ replicate 3 ch_space) 8 11 bs = p @ pad 3 bs"
  by (auto simp: fill_def pad_alt min_def)

lemma name_base_drop: "drop (length (name_base bs)) bs = dropWhile (\<lambda>c. c \<noteq> 0 \<and> c \<noteq> ch_dot) bs"
  by (simp add: name_base_def dropWhile_eq_drop)

lemma name_ext_at:
  assumes "i = length (name_base bs)"
  shows "name_ext bs = (if i < length bs \<and> bs ! i = ch_dot
     then takeWhile (\<lambda>c. c \<noteq> 0) (drop (Suc i) bs) else [])"
proof -
  have d: "dropWhile (\<lambda>c. c \<noteq> 0 \<and> c \<noteq> ch_dot) bs = drop i bs"
    using assms by (simp add: name_base_drop)
  show ?thesis
  proof (cases "i < length bs")
    case True
    then have "drop i bs = bs ! i # drop (Suc i) bs" by (simp add: Cons_nth_drop_Suc)
    with d True show ?thesis by (simp add: name_ext_def)
  qed (simp add: name_ext_def d)
qed

lemma pad_Nil: "pad 3 [] = replicate 3 ch_space"
  by (simp add: pad_def)

lemma name83_to_fcb_eq:
  assumes "length name = 12"
  shows "name83_to_fcb name = fcb_of name"
proof -
  define i where "i = length (name_base name)"
  define p where "p = pad 8 (name_base name)"
  have i: "i \<le> 12" using assms length_takeWhile_le [of _ name] by (simp add: i_def name_base_def)
  have p: "length p = 8" by (simp add: p_def)
  have base: "fcb_base_loop name 0 0 (replicate 11 ch_space) = (i, p @ replicate 3 ch_space)"
    using assms fcb_base_loop_eq [of name 0 0 "replicate 11 ch_space"]
    by (simp add: fill_base i_def p_def)
  have ext: "i < 12 \<Longrightarrow> fcb_ext_loop name (i + 1) 8 (p @ replicate 3 ch_space) =
      p @ pad 3 (takeWhile (\<lambda>c. c \<noteq> 0) (drop (Suc i) name))"
    using assms p fcb_ext_loop_eq [of name "i + 1" 8 "p @ replicate 3 ch_space"]
    by (simp add: fill_ext)
  have n: "name83_to_fcb name =
      (if i < 12 \<and> name ! i = ch_dot then fcb_ext_loop name (i + 1) 8 (p @ replicate 3 ch_space)
       else p @ replicate 3 ch_space)"
    unfolding name83_to_fcb_def Let_def base prod.case by (rule refl)
  show ?thesis
    unfolding n fcb_of_def name_ext_at [OF i_def] p_def [symmetric] assms
    using ext by (cases "i < 12 \<and> name ! i = ch_dot") (auto simp: pad_Nil)
qed

section \<open>Matching\<close>

text \<open>\<open>fcb_match\<close>: the loop from index \<open>11 - n\<close> on.\<close>

primrec fcb_match_loop :: "memory \<Rightarrow> fp \<Rightarrow> byte list \<Rightarrow> nat \<Rightarrow> bool" where
  "fcb_match_loop m tmpl name 0 = True"
| "fcb_match_loop m tmpl name (Suc n) =
     (let t = peek8 m (fadd tmpl (of_nat (11 - Suc n))) in
      if t \<noteq> ch_quest \<and> t \<noteq> name ! (11 - Suc n) then False
      else fcb_match_loop m tmpl name n)"

definition fcb_match :: "memory \<Rightarrow> fp \<Rightarrow> byte list \<Rightarrow> bool" where
  "fcb_match m tmpl name = fcb_match_loop m tmpl name 11"

definition attr_match :: "byte \<Rightarrow> byte \<Rightarrow> bool" where
  "attr_match entry_attr srch_attr =
     (entry_attr AND NOT srch_attr AND (0x02 OR 0x04 OR 0x10 OR 0x08) = 0)"

text \<open>A template position accepts a character.\<close>

definition tmpl_ok :: "byte \<Rightarrow> byte \<Rightarrow> bool" where
  "tmpl_ok t c \<longleftrightarrow> t = ch_quest \<or> t = c"

lemma fcb_match_loop_eq:
  "n \<le> 11 \<Longrightarrow> fcb_match_loop m tmpl name n \<longleftrightarrow>
     (\<forall>i\<in>{11 - n..<11}. tmpl_ok (peek8 m (fadd tmpl (of_nat i))) (name ! i))"
proof (induction n)
  case (Suc n)
  then have "{11 - Suc n..<11} = insert (11 - Suc n) {11 - n..<11}" by auto
  with Suc show ?case by (auto simp: Let_def tmpl_ok_def simp del: of_nat_diff)
qed simp

lemma fcb_match_iff:
  "length name = 11 \<Longrightarrow> fcb_match m tmpl name \<longleftrightarrow> list_all2 tmpl_ok (peek_bytes m tmpl 11) name"
  by (auto simp: fcb_match_def fcb_match_loop_eq list_all2_conv_all_nth peek_bytes_def)

lemma special_bits: "bit (0x1E :: byte) n \<longleftrightarrow> n \<in> {1, 2, 3, 4}"
proof (cases "n < 8")
  case True
  then have "n \<in> {0, 1, 2, 3, 4, 5, 6, 7}" by auto
  then show ?thesis by (elim insertE emptyE) simp_all
next
  case False
  then show ?thesis using bit_imp_le_length [of "0x1E :: byte" n] by auto
qed

lemma attr_match_iff: "attr_match e s \<longleftrightarrow> (\<forall>n\<in>{1, 2, 3, 4}. bit e n \<longrightarrow> bit s n)"
proof -
  have m: "0x02 OR 0x04 OR 0x10 OR (0x08 :: byte) = 0x1E" by simp
  have "attr_match e s \<longleftrightarrow> (\<forall>n<8. \<not> bit (e AND NOT s AND 0x1E) n)"
    unfolding attr_match_def m by (auto intro: bit_word_eqI)
  also have "\<dots> \<longleftrightarrow> (\<forall>n<8. \<not> (bit e n \<and> \<not> bit s n \<and> n \<in> {1, 2, 3, 4}))"
    by (simp only: bit_and_iff bit_not_iff special_bits) auto
  also have "\<dots> \<longleftrightarrow> (\<forall>n\<in>{1, 2, 3, 4}. n < 8 \<longrightarrow> bit e n \<longrightarrow> bit s n)" by blast
  finally show ?thesis by simp
qed

section \<open>DOS error codes\<close>

definition dos_err_from_status :: "byte \<Rightarrow> byte" where
  "dos_err_from_status st =
     (if st = STATUS_OK then 0
      else if st = ERR_NOT_FOUND then 2
      else if st = ERR_ACCESS then 5
      else if st = ERR_BAD_HANDLE then 6
      else if st = ERR_EXISTS then 80
      else if st = ERR_IO then 29
      else if st = ERR_CRC then 23
      else if st = ERR_TIMEOUT then 21
      else if st = ERR_UNSUPPORTED then 1
      else if st = ERR_BAD_PATH then 3
      else 2)"

lemma dos_err_zero_iff: "dos_err_from_status st = 0 \<longleftrightarrow> st = STATUS_OK"
  by (simp add: dos_err_from_status_def)

section \<open>Paths\<close>

text \<open>
  \<open>copy_fn1_path\<close>: the loop stops at the NUL or when the buffer is full up to index 508; the
  result is the number of bytes written.
\<close>

function copy_path_loop :: "memory \<Rightarrow> fp \<Rightarrow> nat \<Rightarrow> nat \<Rightarrow> byte list \<Rightarrow> nat \<times> byte list" where
  "copy_path_loop m fn1 off i buf =
     (let c = peek8 m (fadd fn1 (of_nat (i + 2))) in
      if c \<noteq> 0 \<and> off + i < 509 then copy_path_loop m fn1 off (i + 1) (buf[off + i := c])
      else (i, buf))"
  by pat_completeness auto
termination by (relation "measure (\<lambda>(m, fn1, off, i, buf). 509 - (off + i))") auto

declare copy_path_loop.simps [simp del]

definition copy_fn1_path :: "byte list \<Rightarrow> nat \<Rightarrow> memory \<Rightarrow> fp \<Rightarrow> nat \<times> byte list" where
  "copy_fn1_path buf off m fn1 =
     (let (i, buf) = copy_path_loop m fn1 off 0 buf in (i + 1, buf[off + i := 0]))"

lemma copy_path_loop_bounds:
  "copy_path_loop m fn1 off i buf = (n, buf') \<Longrightarrow>
   length buf' = length buf \<and> i \<le> n \<and> (n = i \<or> off + n \<le> 509) \<and> (\<forall>k<off. buf' ! k = buf ! k)"
proof (induction m fn1 off i buf rule: copy_path_loop.induct)
  case (1 m fn1 off i buf)
  let ?c = "peek8 m (fadd fn1 (of_nat (i + 2)))"
  show ?case
  proof (cases "?c \<noteq> 0 \<and> off + i < 509")
    case True
    with 1(2) have "copy_path_loop m fn1 off (i + 1) (buf[off + i := ?c]) = (n, buf')"
      by (subst (asm) copy_path_loop.simps) (simp add: Let_def)
    from 1(1) [OF refl True this] True show ?thesis by auto
  next
    case False
    with 1(2) show ?thesis by (subst (asm) copy_path_loop.simps) (auto simp: Let_def)
  qed
qed

lemma copy_fn1_path_bounds:
  assumes "copy_fn1_path buf off m fn1 = (n, buf')" "off \<le> 510"
  shows "length buf' = length buf \<and> 0 < n \<and> off + n \<le> 511 \<and> (off < 510 \<longrightarrow> off + n \<le> 510) \<and>
    (\<forall>k<off. buf' ! k = buf ! k)"
proof -
  obtain i b where l: "copy_path_loop m fn1 off 0 buf = (i, b)" by fastforce
  with assms copy_path_loop_bounds [OF l] show ?thesis
    by (auto simp: copy_fn1_path_def)
qed

lemma copy_path_loop_cstring:
  assumes "cstring m fn1 bs" "2 \<le> length bs" "off + (length bs - 2) \<le> 509" "i \<le> length bs - 2"
  shows "copy_path_loop m fn1 off i (copy_at buf off (drop 2 bs) i) =
    (length bs - 2, copy_at buf off (drop 2 bs) (length bs - 2))"
  using assms(4)
proof (induction "length bs - 2 - i" arbitrary: i)
  case 0
  then have "i + 2 = length bs" "i = length bs - 2" using assms(2) by auto
  then show ?case
    using cstring_nth [OF assms(1), of "i + 2"] by (subst copy_path_loop.simps) simp
next
  case (Suc x)
  then have i: "i + 2 < length bs" "off + i < 509" using assms by auto
  have c: "peek8 m (fadd fn1 (of_nat (i + 2))) = bs ! (i + 2)"
    using cstring_nth [OF assms(1), of "i + 2"] i by simp
  have step: "(copy_at buf off (drop 2 bs) i)[off + i := bs ! (i + 2)] = copy_at buf off (drop 2 bs) (Suc i)"
    using i by (simp add: add.commute)
  show ?case
    using Suc(1) [of "Suc i"] Suc(2) i cstring_nz [OF assms(1) i(1)]
    by (subst copy_path_loop.simps) (simp only: c Let_def step, simp)
qed

lemma copy_fn1_path_cstring:
  assumes "cstring m fn1 bs" "2 \<le> length bs" "off + (length bs - 2) \<le> 509" "length buf = 512"
  shows "copy_fn1_path buf off m fn1 =
    (length bs - 1, take off buf @ drop 2 bs @ 0 # drop (off + (length bs - 1)) buf)"
proof -
  let ?n = "length bs - 2"
  have "copy_path_loop m fn1 off 0 buf = (?n, copy_at buf off (drop 2 bs) ?n)"
    using copy_path_loop_cstring [OF assms(1-3), of 0 buf] by simp
  moreover have "copy_at buf off (drop 2 bs) ?n = take off buf @ drop 2 bs @ drop (off + ?n) buf"
    using assms by (simp add: copy_at_eq)
  moreover have "drop (off + ?n) buf = buf ! (off + ?n) # drop (Suc (off + ?n)) buf"
    using assms by (simp add: Cons_nth_drop_Suc)
  moreover have "Suc (off + ?n) = off + (length bs - 1)" "Suc ?n = length bs - 1" using assms(2) by auto
  moreover have "off + ?n = length (take off buf @ drop 2 bs)" using assms by auto
  then have "(take off buf @ drop 2 bs @ x # r)[off + ?n := 0] = take off buf @ drop 2 bs @ 0 # r" for x r
    by (metis append_assoc list_update_length)
  ultimately show ?thesis
    by (simp add: copy_fn1_path_def)
qed

text \<open>
  A store into a C array; outside of it the program has no defined behaviour, which is \<open>None\<close>.
\<close>

definition store :: "'a list \<Rightarrow> nat \<Rightarrow> 'a \<Rightarrow> 'a list option" where
  "store xs i v = (if i < length xs then Some (xs[i := v]) else None)"

partial_function (option) last_slash_loop :: "memory \<Rightarrow> fp \<Rightarrow> u16 \<Rightarrow> u16 \<Rightarrow> u16 option" where
  "last_slash_loop m fn1 i last_slash =
     (let c = peek8 m (fadd fn1 i) in
      if c = 0 then Some last_slash
      else last_slash_loop m fn1 (i + 1) (if c = ch_backslash then i else last_slash))"

primrec dir_copy_loop :: "memory \<Rightarrow> fp \<Rightarrow> byte list \<Rightarrow> nat \<Rightarrow> byte list option" where
  "dir_copy_loop m fn1 dir_path 0 = Some dir_path"
| "dir_copy_loop m fn1 dir_path (Suc i) =
     do { dir_path \<leftarrow> dir_copy_loop m fn1 dir_path i;
          store dir_path i (peek8 m (fadd fn1 (of_nat (i + 2)))) }"

definition get_dir_path :: "byte list \<Rightarrow> memory \<Rightarrow> fp \<Rightarrow> byte list option" where
  "get_dir_path dir_path m fn1 =
     do { last_slash \<leftarrow> last_slash_loop m fn1 2 2;
          let n = unat (last_slash - 1);
          dir_path \<leftarrow> dir_copy_loop m fn1 dir_path n;
          store dir_path n 0 }"

lemma last_slash_loop_cstring:
  assumes "cstring m fn1 (pre @ ch_backslash # base)" "ch_backslash \<notin> set base"
    and "i \<le> length (pre @ ch_backslash # base)" "length pre < i \<Longrightarrow> ls = of_nat (length pre)"
  shows "last_slash_loop m fn1 (of_nat i) ls = Some (of_nat (length pre))"
  using assms(3,4)
proof (induction "length (pre @ ch_backslash # base) - i" arbitrary: i ls)
  case 0
  then have "i = length (pre @ ch_backslash # base)" by simp
  then show ?case
    using cstring_nth [OF assms(1), of i] 0 by (subst last_slash_loop.simps) simp
next
  case (Suc x)
  let ?bs = "pre @ ch_backslash # base"
  have i: "i < length ?bs" using Suc(2) by simp
  have c: "peek8 m (fadd fn1 (of_nat i)) = ?bs ! i" "?bs ! i \<noteq> 0"
    using cstring_nth [OF assms(1), of i] cstring_nz [OF assms(1) i] i by auto
  have after: "?bs ! i \<noteq> ch_backslash" if "length pre < i"
  proof -
    have "?bs ! i = base ! (i - length pre - 1)" using that by (simp add: nth_append)
    moreover have "base ! (i - length pre - 1) \<in> set base"
      by (rule nth_mem) (use that i in auto)
    ultimately show ?thesis using assms(2) by auto
  qed
  have "last_slash_loop m fn1 (of_nat (Suc i)) (if ?bs ! i = ch_backslash then of_nat i else ls) =
      Some (of_nat (length pre))"
  proof (rule Suc(1))
    show "x = length ?bs - Suc i" using Suc(2) by simp
    show "Suc i \<le> length ?bs" using i by simp
    show "(if ?bs ! i = ch_backslash then of_nat i else ls) = (of_nat (length pre) :: u16)"
      if "length pre < Suc i"
    proof (cases "i = length pre")
      case True then show ?thesis by simp
    next
      case False
      with that have "length pre < i" by simp
      then show ?thesis using after Suc(4) by simp
    qed
  qed
  then show ?case by (subst last_slash_loop.simps) (simp add: Let_def c add.commute)
qed

lemma dir_copy_loop_eq:
  "dir_copy_loop m fn1 dp n =
     (if n \<le> length dp then Some (copy_at dp 0 (map (\<lambda>i. peek8 m (fadd fn1 (of_nat (i + 2)))) [0..<n]) n)
      else None)"
proof (induction n)
  case (Suc n)
  then show ?case by (simp add: store_def nth_append copy_at_append)
qed simp

lemma get_dir_path_cstring:
  assumes "cstring m fn1 (d # colon # dir @ ch_backslash # base)" "ch_backslash \<notin> set base"
  shows "get_dir_path dp m fn1 =
    (if length dir + 2 \<le> length dp
     then Some (dir @ [ch_backslash, 0] @ drop (length dir + 2) dp) else None)"
proof -
  let ?bs = "(d # colon # dir) @ ch_backslash # base"
  have cs: "cstring m fn1 ?bs" using assms(1) by simp
  have len: "length dir + 3 < 65536" using cs by (simp add: cstring_def)
  have ls: "last_slash_loop m fn1 2 2 = Some (of_nat (length dir + 2))"
  proof -
    have "last_slash_loop m fn1 (of_nat 2) 2 = Some (of_nat (length (d # colon # dir)))"
      by (rule last_slash_loop_cstring [OF cs assms(2)]) simp_all
    then show ?thesis by (simp add: add.commute)
  qed
  have "(of_nat (length dir + 2) :: u16) - 1 = of_nat (length dir + 1)" by simp
  then have n: "unat ((of_nat (length dir + 2) :: u16) - 1) = length dir + 1"
    using len by (simp only: unat_of_nat) (simp add: take_bit_nat_eq_self_iff)
  let ?src = "map (\<lambda>i. peek8 m (fadd fn1 (of_nat (i + 2)))) [0..<length dir + 1]"
  have src: "?src = dir @ [ch_backslash]"
  proof (rule nth_equalityI)
    fix i assume "i < length ?src"
    then have i: "i < length dir + 1" by simp
    then have "peek8 m (fadd fn1 (of_nat (i + 2))) = ?bs ! (i + 2)"
      using cstring_nth [OF cs, of "i + 2"] by simp
    also have "\<dots> = (dir @ [ch_backslash]) ! i" using i by (auto simp: nth_append less_Suc_eq)
    finally show "?src ! i = (dir @ [ch_backslash]) ! i" using i by (simp del: upt_Suc)
  qed simp
  have "get_dir_path dp m fn1 =
      (if length dir + 1 \<le> length dp
       then store (copy_at dp 0 (dir @ [ch_backslash]) (length dir + 1)) (length dir + 1) 0 else None)"
    unfolding get_dir_path_def ls Let_def bind.bind_lunit n dir_copy_loop_eq src by simp
  moreover have "copy_at dp 0 (dir @ [ch_backslash]) (length dir + 1) = dir @ ch_backslash # drop (length dir + 1) dp"
    if "length dir + 1 \<le> length dp" by (subst copy_at_eq) (use that in auto)
  moreover have "drop (length dir + 1) dp = dp ! (length dir + 1) # drop (length dir + 2) dp"
    if "length dir + 2 \<le> length dp"
    using that Cons_nth_drop_Suc [of "length dir + 1" dp] by (simp add: numeral_2_eq_2)
  ultimately show ?thesis
    by (auto simp: store_def list_update_append)
qed

section \<open>Properties\<close>

text \<open>
  The FCB name of a directory entry. \<open>name83_to_fcb\<close> puts what precedes the first dot, cut
  and padded to eight characters, before what follows it up to the NUL, cut and padded to three.
\<close>

theorem name83_to_fcb_spec:
  assumes "length name = 12"
  shows "name83_to_fcb name = pad 8 (name_base name) @ pad 3 (name_ext name)"
  using name83_to_fcb_eq [OF assms] by (simp add: fcb_of_def)

theorem name83_to_fcb_spec_witness:
  "name83_to_fcb [0x41, 0x2E, 0x42, 0, 0, 0, 0, 0, 0, 0, 0, 0] =
     [0x41, 0x20, 0x20, 0x20, 0x20, 0x20, 0x20, 0x20, 0x42, 0x20, 0x20]"
proof -
  have "replicate 8 (0x20 :: byte) = [0x20, 0x20, 0x20, 0x20, 0x20, 0x20, 0x20, 0x20]"
    "replicate 3 (0x20 :: byte) = [0x20, 0x20, 0x20]" by (simp_all add: numeral_eq_Suc)
  then show ?thesis
    using name83_to_fcb_spec [of "[0x41, 0x2E, 0x42, 0, 0, 0, 0, 0, 0, 0, 0, 0]"]
    by (simp add: pad_def name_base_def name_ext_def)
qed

text \<open>
  Template and attribute tests. A name matches when every position of the template is
  \<open>?\<close> or the same character; an entry passes the attribute test when each of its hidden,
  system, volume and directory bits is among the search attributes.
\<close>

theorem match_tests:
  assumes "length name = 11"
  shows "(fcb_match m tmpl name \<longleftrightarrow>
       (\<forall>i \<in> {0..<11}. peek8 m (fadd tmpl (of_nat i)) = 0x3F \<or> peek8 m (fadd tmpl (of_nat i)) = name ! i)) \<and>
     (attr_match e sa \<longleftrightarrow> (\<forall>n \<in> {1, 2, 3, 4}. bit e n \<longrightarrow> bit sa n))"
  using fcb_match_loop_eq [of 11 m tmpl name] attr_match_iff [of e sa]
  by (simp add: fcb_match_def tmpl_ok_def)

theorem match_tests_witness:
  "fcb_match (\<lambda>_. 0x3F) (0, 0) (replicate 11 0x41) \<and> \<not> attr_match 0x10 0x06"
  using match_tests [of "replicate 11 0x41" "\<lambda>_. 0x3F" "(0, 0)" "0x10" "0x06"]
  by (simp add: peek8_def)

text \<open>
  \<open>copy_fn1_path\<close> never writes past the payload buffer: it writes at least one byte, ends
  at index 511 at the latest and leaves what precedes the offset alone.
\<close>

theorem copy_fn1_path_in_bounds:
  assumes "copy_fn1_path buf off m fn1 = (n, buf')" "off \<le> 510"
  shows "length buf' = length buf \<and> 0 < n \<and> off + n \<le> 511 \<and> (\<forall>k < off. buf' ! k = buf ! k)"
  using copy_fn1_path_bounds [OF assms] by blast

theorem copy_fn1_path_in_bounds_witness:
  "\<exists>n buf'. copy_fn1_path (replicate 512 0) 1 (\<lambda>_. 0x41) (0, 0) = (n, buf') \<and> 1 + n \<le> 511 \<and> buf' ! 0 = 0"
proof -
  obtain n buf' where c: "copy_fn1_path (replicate 512 0) 1 (\<lambda>_. 0x41) (0, 0) = (n, buf')" by fastforce
  from copy_fn1_path_in_bounds [OF c] c show ?thesis by auto
qed

text \<open>
  C24: the directory part of a path. For a path \<open>X:dir\base\<close> whose last component is \<open>base\<close>,
  \<open>get_dir_path\<close> leaves \<open>dir\\<close> and a NUL in the caller's array when they fit; when they do not,
  it stores outside the array. FINDFIRST passes an array of 65 bytes, and a current directory
  of the 66 characters DOS allows is one byte too long for it.
\<close>

theorem get_dir_path_spec:
  assumes "cstring m fn1 (d # colon # dir @ ch_backslash # base)" "ch_backslash \<notin> set base"
  shows "get_dir_path dp m fn1 =
    (if length dir + 2 \<le> length dp
     then Some (dir @ [ch_backslash, 0] @ drop (length dir + 2) dp) else None)"
  using assms by (rule get_dir_path_cstring)

definition root_path_mem :: memory where
  "root_path_mem a = (if a = 0 then 0x43 else if a = 1 then 0x3A else if a = 2 then 0x5C
     else if a = 3 then 0x41 else 0)"

theorem get_dir_path_spec_witness:
  "get_dir_path [7, 7, 7] root_path_mem (0, 0) = Some [0x5C, 0, 7] \<and>
   get_dir_path [7] root_path_mem (0, 0) = None"
proof -
  have "cstring root_path_mem (0, 0) (0x43 # 0x3A # [] @ 0x5C # [0x41])"
    by (simp add: cstring_def peek_bytes_def peek8_def lin_def fadd_def root_path_mem_def upt_rec_numeral)
  from get_dir_path_spec [OF this, of "[7, 7, 7]"] get_dir_path_spec [OF this, of "[7]"]
  show ?thesis by simp
qed

text \<open>
  The DOS error code of a server status is 0 only for the status OK, so a failed request
  whose status the server has sent is never reported as error 0.
\<close>

theorem dos_err_from_status_nonzero: "dos_err_from_status st = 0 \<longleftrightarrow> st = STATUS_OK"
  by (rule dos_err_zero_iff)

end
