(* ===== verification/Sdf_Uart.thy ===== *)
theory Sdf_Uart
  imports Sdf_Prelude
begin

text \<open>
  The polling UART driver, \<open>dos/src/seruart.c\<close>. The port space and the BIOS tick counter
  are hardware, a parameter of every operation: \<open>uart_ops\<close> over a hardware state \<open>'h\<close>. The
  polling loops run until a status bit is set or the tick deadline passes; they are
  \<open>partial_function (option)\<close>, \<open>None\<close> meaning that the loop never ends, and
  \<open>timer_live\<close> is the property of the tick counter that rules that out.
\<close>

section \<open>Hardware interface and registers\<close>

record 'h uart_ops =
  hw_inp :: "u16 \<Rightarrow> 'h \<Rightarrow> byte \<times> 'h"
  hw_outp :: "u16 \<Rightarrow> byte \<Rightarrow> 'h \<Rightarrow> 'h"
  hw_ticks :: "'h \<Rightarrow> u32 \<times> 'h"

definition com_base :: "u16 \<Rightarrow> u16" where
  "com_base port = [0, 0x3F8, 0x2F8] ! unat port"

abbreviation (input) UART_RBR :: u16 where "UART_RBR \<equiv> 0"
abbreviation (input) UART_THR :: u16 where "UART_THR \<equiv> 0"
abbreviation (input) UART_IER :: u16 where "UART_IER \<equiv> 1"
abbreviation (input) UART_IIR :: u16 where "UART_IIR \<equiv> 2"
abbreviation (input) UART_FCR :: u16 where "UART_FCR \<equiv> 2"
abbreviation (input) UART_LCR :: u16 where "UART_LCR \<equiv> 3"
abbreviation (input) UART_MCR :: u16 where "UART_MCR \<equiv> 4"
abbreviation (input) UART_LSR :: u16 where "UART_LSR \<equiv> 5"
abbreviation (input) UART_DLL :: u16 where "UART_DLL \<equiv> 0"
abbreviation (input) UART_DLH :: u16 where "UART_DLH \<equiv> 1"

abbreviation (input) LSR_DR :: byte where "LSR_DR \<equiv> 0x01"
abbreviation (input) LSR_THRE :: byte where "LSR_THRE \<equiv> 0x20"
abbreviation (input) MCR_DTR :: byte where "MCR_DTR \<equiv> 0x01"
abbreviation (input) MCR_RTS :: byte where "MCR_RTS \<equiv> 0x02"
abbreviation (input) MCR_OUT2 :: byte where "MCR_OUT2 \<equiv> 0x08"
abbreviation (input) LCR_DLAB :: byte where "LCR_DLAB \<equiv> 0x80"
abbreviation (input) LCR_8N1 :: byte where "LCR_8N1 \<equiv> 0x03"
abbreviation (input) FCR_FIFO_CLR :: byte where "FCR_FIFO_CLR \<equiv> 0xC7"
abbreviation (input) IIR_FIFO_OK :: byte where "IIR_FIFO_OK \<equiv> 0xC0"

abbreviation (input) SERUART_COM1 :: u16 where "SERUART_COM1 \<equiv> 1"
abbreviation (input) SERUART_COM2 :: u16 where "SERUART_COM2 \<equiv> 2"

section \<open>Operations\<close>

definition seruart_ticks :: "'h uart_ops \<Rightarrow> 'h \<Rightarrow> u32 \<times> 'h" where
  "seruart_ticks ops h = hw_ticks ops h"

definition seruart_baud_to_div :: "int \<Rightarrow> u16" where
  "seruart_baud_to_div baud =
     (if baud = 9600 then 12 else if baud = 19200 then 6 else if baud = 38400 then 3
      else if baud = 57600 then 2 else if baud = 115200 then 1 else 0)"

definition seruart_init :: "'h uart_ops \<Rightarrow> u16 \<Rightarrow> u16 \<Rightarrow> 'h \<Rightarrow> 'h" where
  "seruart_init ops port divisor h =
     (let base = com_base port;
          h = hw_outp ops (base + UART_IER) 0 h;
          h = hw_outp ops (base + UART_LCR) LCR_DLAB h;
          h = hw_outp ops (base + UART_DLL) (ucast (divisor AND 0xFF)) h;
          h = hw_outp ops (base + UART_DLH) (ucast (drop_bit 8 divisor AND 0xFF)) h;
          h = hw_outp ops (base + UART_LCR) LCR_8N1 h;
          h = hw_outp ops (base + UART_FCR) FCR_FIFO_CLR h;
          (iir, h) = hw_inp ops (base + UART_IIR) h;
          h = (if iir AND IIR_FIFO_OK \<noteq> IIR_FIFO_OK then hw_outp ops (base + UART_FCR) 0 h else h)
      in hw_outp ops (base + UART_MCR) (MCR_DTR OR MCR_RTS OR MCR_OUT2) h)"

text \<open>
  The loop \<open>while (!(inp(base + UART_LSR) & mask)) if (seruart_ticks() - start >= limit) return\<close>
  that \<open>seruart_putchar\<close>, \<open>seruart_getchar_timeout\<close> and \<open>seruart_recv_block_timeout\<close> share:
  the Boolean says whether the bit came on before the deadline.
\<close>

partial_function (option) poll_lsr ::
  "'h uart_ops \<Rightarrow> u16 \<Rightarrow> byte \<Rightarrow> u32 \<Rightarrow> u32 \<Rightarrow> 'h \<Rightarrow> (bool \<times> 'h) option" where
  "poll_lsr ops base msk start limit h =
     (let (l, h) = hw_inp ops (base + UART_LSR) h in
      if l AND msk \<noteq> 0 then Some (True, h)
      else let (t, h) = seruart_ticks ops h in
        if t - start \<ge> limit then Some (False, h)
        else poll_lsr ops base msk start limit h)"

definition seruart_putchar :: "'h uart_ops \<Rightarrow> u16 \<Rightarrow> byte \<Rightarrow> 'h \<Rightarrow> 'h option" where
  "seruart_putchar ops port c h =
     (let base = com_base port; (t0, h) = seruart_ticks ops h in
      do { (ready, h) \<leftarrow> poll_lsr ops base LSR_THRE t0 36 h;
           Some (if ready then hw_outp ops (base + UART_THR) c h else h) })"

primrec send_loop :: "'h uart_ops \<Rightarrow> u16 \<Rightarrow> byte list \<Rightarrow> nat \<Rightarrow> 'h \<Rightarrow> 'h option" where
  "send_loop ops port buf 0 h = Some h"
| "send_loop ops port buf (Suc i) h =
     do { h \<leftarrow> send_loop ops port buf i h; seruart_putchar ops port (buf ! i) h }"

definition seruart_send_block :: "'h uart_ops \<Rightarrow> u16 \<Rightarrow> byte list \<Rightarrow> nat \<Rightarrow> 'h \<Rightarrow> 'h option" where
  "seruart_send_block ops port buf len h = send_loop ops port buf len h"

definition seruart_getchar_timeout ::
  "'h uart_ops \<Rightarrow> u16 \<Rightarrow> u16 \<Rightarrow> 'h \<Rightarrow> (byte option \<times> 'h) option" where
  "seruart_getchar_timeout ops port ticks h =
     (let base = com_base port; (start, h) = seruart_ticks ops h in
      do { (ready, h) \<leftarrow> poll_lsr ops base LSR_DR start (ucast ticks) h;
           Some (if ready then let (c, h) = hw_inp ops (base + UART_RBR) h in (Some c, h)
                 else (None, h)) })"

text \<open>
  \<open>recv_loop n i\<close> reads \<open>n\<close> more bytes into \<open>buf[off + i]\<close> onwards; the result is the number
  of bytes read in all.
\<close>

primrec recv_loop ::
  "'h uart_ops \<Rightarrow> u16 \<Rightarrow> u32 \<Rightarrow> u32 \<Rightarrow> nat \<Rightarrow> nat \<Rightarrow> nat \<Rightarrow> byte list \<Rightarrow> 'h \<Rightarrow>
   (nat \<times> byte list \<times> 'h) option" where
  "recv_loop ops base start limit off 0 i buf h = Some (i, buf, h)"
| "recv_loop ops base start limit off (Suc n) i buf h =
     do { (ready, h) \<leftarrow> poll_lsr ops base LSR_DR start limit h;
          if ready then
            let (c, h) = hw_inp ops (base + UART_RBR) h in
            recv_loop ops base start limit off n (Suc i) (buf[off + i := c]) h
          else Some (i, buf, h) }"

definition seruart_recv_block_timeout ::
  "'h uart_ops \<Rightarrow> u16 \<Rightarrow> byte list \<Rightarrow> nat \<Rightarrow> nat \<Rightarrow> u16 \<Rightarrow> 'h \<Rightarrow> (nat \<times> byte list \<times> 'h) option" where
  "seruart_recv_block_timeout ops port buf off len ticks h =
     (let base = com_base port; (start, h) = seruart_ticks ops h in
      recv_loop ops base start (ucast ticks) off len 0 buf h)"

primrec drain_loop :: "'h uart_ops \<Rightarrow> u16 \<Rightarrow> nat \<Rightarrow> 'h \<Rightarrow> 'h" where
  "drain_loop ops base 0 h = h"
| "drain_loop ops base (Suc n) h =
     (let (l, h) = hw_inp ops (base + UART_LSR) h in
      if l AND LSR_DR \<noteq> 0 then drain_loop ops base n (snd (hw_inp ops (base + UART_RBR) h)) else h)"

definition seruart_drain :: "'h uart_ops \<Rightarrow> u16 \<Rightarrow> 'h \<Rightarrow> 'h" where
  "seruart_drain ops port h = drain_loop ops (com_base port) 64 h"

section \<open>Termination\<close>

text \<open>
  One unsuccessful turn of the polling loop reads the line status and the tick counter.
  \<open>timer_live\<close>: however often that is repeated from a state, some reading of the counter is
  past any 16-bit deadline. The BIOS increments the counter 18.2 times a second whatever
  the program does, so this holds of a running PC.
\<close>

definition poll_turn :: "'h uart_ops \<Rightarrow> u16 \<Rightarrow> 'h \<Rightarrow> 'h" where
  "poll_turn ops base h = snd (seruart_ticks ops (snd (hw_inp ops (base + UART_LSR) h)))"

definition poll_time :: "'h uart_ops \<Rightarrow> u16 \<Rightarrow> 'h \<Rightarrow> u32" where
  "poll_time ops base h = fst (seruart_ticks ops (snd (hw_inp ops (base + UART_LSR) h)))"

definition timer_live :: "'h uart_ops \<Rightarrow> bool" where
  "timer_live ops \<longleftrightarrow> (\<forall>base h start (lim :: u16).
     \<exists>n. poll_time ops base ((poll_turn ops base ^^ n) h) - start \<ge> ucast lim)"

lemma poll_lsr_returns_aux:
  assumes "poll_time ops base ((poll_turn ops base ^^ n) h) - start \<ge> limit"
  shows "\<exists>r. poll_lsr ops base msk start limit h = Some r"
  using assms
proof (induction n arbitrary: h)
  case 0
  then show ?case
    by (subst poll_lsr.simps) (auto simp: poll_time_def split: prod.splits)
next
  case (Suc n)
  then have "poll_time ops base ((poll_turn ops base ^^ n) (poll_turn ops base h)) - start \<ge> limit"
    by (simp add: funpow_swap1)
  then have "\<exists>r. poll_lsr ops base msk start limit (poll_turn ops base h) = Some r"
    by (rule Suc.IH)
  then show ?case
    by (subst poll_lsr.simps) (auto simp: poll_turn_def split: prod.splits)
qed

lemma poll_lsr_returns:
  "timer_live ops \<Longrightarrow> \<exists>r. poll_lsr ops base msk start (ucast (lim :: u16)) h = Some r"
  by (metis timer_live_def poll_lsr_returns_aux)

lemma putchar_returns:
  assumes "timer_live ops"
  shows "\<exists>h'. seruart_putchar ops port c h = Some h'"
proof -
  obtain t0 h0 where t: "seruart_ticks ops h = (t0, h0)" by fastforce
  obtain ready h1 where "poll_lsr ops (com_base port) LSR_THRE t0 36 h0 = Some (ready, h1)"
    using poll_lsr_returns [OF assms, of "com_base port" LSR_THRE t0 36 h0] by auto
  then show ?thesis by (simp add: seruart_putchar_def t)
qed

lemma send_loop_returns: "timer_live ops \<Longrightarrow> \<exists>h'. send_loop ops port buf len h = Some h'"
proof (induction len)
  case (Suc len)
  then obtain h1 where "send_loop ops port buf len h = Some h1" by blast
  with putchar_returns [OF Suc.prems] show ?case by simp
qed simp

lemma send_block_returns: "timer_live ops \<Longrightarrow> \<exists>h'. seruart_send_block ops port buf len h = Some h'"
  unfolding seruart_send_block_def by (rule send_loop_returns)

lemma recv_loop_returns:
  "timer_live ops \<Longrightarrow> \<exists>r. recv_loop ops base start (ucast (lim :: u16)) off n i buf h = Some r"
proof (induction n arbitrary: i buf h)
  case (Suc n)
  obtain ready h1 where "poll_lsr ops base LSR_DR start (ucast lim) h = Some (ready, h1)"
    using poll_lsr_returns [OF Suc.prems] by fastforce
  then show ?case using Suc by (auto split: prod.splits)
qed simp

lemma recv_block_returns:
  "timer_live ops \<Longrightarrow> \<exists>r. seruart_recv_block_timeout ops port buf off len ticks h = Some r"
  unfolding seruart_recv_block_timeout_def Let_def
  by (cases "seruart_ticks ops h") (simp only: prod.case recv_loop_returns)

section \<open>What a block receive writes\<close>

lemma recv_loop_bounds:
  assumes "recv_loop ops base start limit off n i buf h = Some (k, buf', h')"
  shows "i \<le> k \<and> k \<le> i + n \<and> length buf' = length buf \<and>
    (\<forall>j. j < off + i \<or> off + k \<le> j \<longrightarrow> buf' ! j = buf ! j)"
  using assms
proof (induction n arbitrary: i buf h)
  case (Suc n)
  then obtain ready h1 where poll: "poll_lsr ops base LSR_DR start limit h = Some (ready, h1)"
    by (auto split: bind_splits)
  show ?case
  proof (cases ready)
    case True
    obtain c h2 where c: "hw_inp ops (base + UART_RBR) h1 = (c, h2)" by fastforce
    have "recv_loop ops base start limit off n (Suc i) (buf[off + i := c]) h2 = Some (k, buf', h')"
      using Suc.prems poll True c by simp
    from Suc.IH [OF this] show ?thesis by (auto simp: nth_list_update_neq)
  qed (use Suc.prems poll in auto)
qed simp

lemma recv_block_bounds:
  assumes "seruart_recv_block_timeout ops port buf off len ticks h = Some (k, buf', h')"
  shows "k \<le> len \<and> length buf' = length buf \<and>
    (\<forall>j. j < off \<or> off + k \<le> j \<longrightarrow> buf' ! j = buf ! j)"
  using assms
  by (auto simp: seruart_recv_block_timeout_def Let_def split: prod.splits dest!: recv_loop_bounds)

section \<open>Properties\<close>

text \<open>
  A recording UART: every register write is appended to the log, and the interrupt
  identification register reads as \<open>iir\<close>.
\<close>

definition log_ops :: "byte \<Rightarrow> (u16 \<times> byte) list uart_ops" where
  "log_ops iir = \<lparr>hw_inp = (\<lambda>p h. (iir, h)), hw_outp = (\<lambda>p b h. h @ [(p, b)]), hw_ticks = (\<lambda>h. (0, h))\<rparr>"

text \<open>
  \<open>seruart_init\<close> programs the line in this order: interrupts off, divisor latch on, the two
  divisor bytes, 8N1 with the latch off, FIFO on, FIFO off again when the chip has none, and
  last DTR, RTS and OUT2.
\<close>

theorem seruart_init_sequence:
  "seruart_init (log_ops iir) port divisor [] =
     (let base = com_base port in
      [(base + UART_IER, 0), (base + UART_LCR, 0x80), (base + UART_DLL, ucast (divisor AND 0xFF)),
       (base + UART_DLH, ucast (drop_bit 8 divisor AND 0xFF)), (base + UART_LCR, 0x03),
       (base + UART_FCR, 0xC7)] @
      (if iir AND 0xC0 = 0xC0 then [] else [(base + UART_FCR, 0)]) @
      [(base + UART_MCR, 0x0B)])"
  by (simp add: seruart_init_def log_ops_def Let_def)

text \<open>
  A divisor is the exact quotient of the UART clock 115200 and the requested rate, and 0
  marks a rate the program does not support.
\<close>

theorem seruart_baud_exact:
  "seruart_baud_to_div baud = 0 \<or> int (unat (seruart_baud_to_div baud)) * baud = 115200"
  by (simp add: seruart_baud_to_div_def)

text \<open>
  C23: a block receive never writes outside the bytes it was asked for, whatever the hardware
  delivers: it reports at most \<open>len\<close> bytes, and the rest of the buffer is unchanged.
\<close>

theorem recv_block_in_bounds:
  assumes "seruart_recv_block_timeout ops port buf off len ticks h = Some (k, buf', h')"
  shows "k \<le> len \<and> length buf' = length buf \<and>
    (\<forall>j. j < off \<or> off + k \<le> j \<longrightarrow> buf' ! j = buf ! j)"
  using assms by (rule recv_block_bounds)

theorem recv_block_in_bounds_witness:
  "seruart_recv_block_timeout (log_ops 1) 1 [7, 8, 9] 1 1 90 [] = Some (1, [7, 1, 9], []) \<and>
   [7, 1, 9 :: byte] ! 0 = [7, 8, 9] ! 0"
proof -
  have r: "seruart_recv_block_timeout (log_ops 1) 1 [7, 8, 9] 1 1 90 [] = Some (1, [7, 1, 9], [])"
    by (simp add: seruart_recv_block_timeout_def seruart_ticks_def log_ops_def poll_lsr.simps One_nat_def)
  from recv_block_in_bounds [OF r] have "[7, 1, 9 :: byte] ! 0 = [7, 8, 9] ! 0" by blast
  with r show ?thesis by simp
qed

end
