(* ===== verification/Sdf_Rpc.thy ===== *)
theory Sdf_Rpc
  imports Sdf_Frame Sdf_Uart
begin

text \<open>
  The remote procedure call, \<open>dos/src/serrpc.c\<close>: one request frame, sent up to ten times,
  until a well-formed reply with the same sequence number arrives. The state is the file's
  statics together with the hardware and the counters the resident build keeps in
  \<open>glob_data\<close> (the transient tools compile the counters out).
\<close>

section \<open>State\<close>

record rpc_stats =
  stat_tx_bytes :: u32
  stat_rx_bytes :: u32
  stat_crc_errs :: u16
  stat_timeouts :: u16
  stat_retries :: u16

record 'h rpc_state =
  hw :: 'h
  serrpc_seq :: byte
  serrpc_txbuf :: "byte list"
  serrpc_rxbuf :: "byte list"
  crc_st :: crc_static
  rstats :: rpc_stats

text \<open>
  The return code with the output parameters it comes with: \<open>reply_status\<close> and the reply
  bytes are written only on success.
\<close>

datatype rpc_result = SERRPC_OK byte "byte list" | SERRPC_ERR_TIMEOUT | SERRPC_ERR_PAYLOAD

datatype attempt_result = Retry | Reply byte "byte list"

abbreviation (input) SERRPC_RETRIES :: nat where "SERRPC_RETRIES \<equiv> 10"
abbreviation (input) SERRPC_TICK_TIMEOUT :: u16 where "SERRPC_TICK_TIMEOUT \<equiv> 90"

definition count_retry :: "rpc_stats \<Rightarrow> rpc_stats" where
  "count_retry r = r\<lparr>stat_retries := stat_retries r + 1\<rparr>"

definition count_timeout :: "rpc_stats \<Rightarrow> rpc_stats" where
  "count_timeout r = r\<lparr>stat_timeouts := stat_timeouts r + 1\<rparr>"

definition count_crc_err :: "rpc_stats \<Rightarrow> rpc_stats" where
  "count_crc_err r = r\<lparr>stat_crc_errs := stat_crc_errs r + 1\<rparr>"

definition count_tx :: "nat \<Rightarrow> rpc_stats \<Rightarrow> rpc_stats" where
  "count_tx n r = r\<lparr>stat_tx_bytes := stat_tx_bytes r + of_nat n\<rparr>"

definition count_rx :: "nat \<Rightarrow> rpc_stats \<Rightarrow> rpc_stats" where
  "count_rx n r = r\<lparr>stat_rx_bytes := stat_rx_bytes r + of_nat n\<rparr>"

section \<open>The call\<close>

text \<open>One turn of the retry loop: \<open>Retry\<close> is \<open>continue\<close>.\<close>

definition rpc_send ::
  "'h uart_ops \<Rightarrow> u16 \<Rightarrow> nat \<Rightarrow> nat \<Rightarrow> 'h rpc_state \<Rightarrow> 'h rpc_state option" where
  "rpc_send ops port txlen attempt s =
     (let s = (if attempt > 0 then s\<lparr>rstats := count_retry (rstats s)\<rparr> else s);
          s = s\<lparr>hw := seruart_drain ops port (hw s)\<rparr> in
      do { h \<leftarrow> seruart_send_block ops port (serrpc_txbuf s) txlen (hw s);
           Some (s\<lparr>hw := h, rstats := count_tx txlen (rstats s)\<rparr>) })"

definition rpc_receive_body ::
  "'h uart_ops \<Rightarrow> u16 \<Rightarrow> nat \<Rightarrow> 'h rpc_state \<Rightarrow> (attempt_result \<times> 'h rpc_state) option" where
  "rpc_receive_body ops port bodylen s =
     do { (got, rx, h) \<leftarrow> seruart_recv_block_timeout ops port (serrpc_rxbuf s) FRAME_HDR_SIZE
            (bodylen + FRAME_CRC_SIZE) SERRPC_TICK_TIMEOUT (hw s);
          let s = s\<lparr>hw := h, serrpc_rxbuf := rx\<rparr>;
          if got < bodylen + FRAME_CRC_SIZE
          then Some (Retry, s\<lparr>rstats := count_timeout (rstats s)\<rparr>)
          else let
            (rc, c) = frame_decode rx (FRAME_HDR_SIZE + bodylen + FRAME_CRC_SIZE) (crc_st s);
            s = s\<lparr>crc_st := c\<rparr>
          in (case rc of
                Inl _ \<Rightarrow> Some (Retry, s\<lparr>rstats := count_crc_err (rstats s)\<rparr>)
              | Inr (hdr, rp, rplen) \<Rightarrow>
                  if seq hdr \<noteq> serrpc_seq s then Some (Retry, s)
                  else Some (Reply (status hdr) (take rplen (drop rp rx)),
                    s\<lparr>rstats := count_rx (FRAME_HDR_SIZE + bodylen + FRAME_CRC_SIZE) (rstats s)\<rparr>)) }"

definition rpc_receive ::
  "'h uart_ops \<Rightarrow> u16 \<Rightarrow> 'h rpc_state \<Rightarrow> (attempt_result \<times> 'h rpc_state) option" where
  "rpc_receive ops port s =
     do { (rxlen, rx, h) \<leftarrow> seruart_recv_block_timeout ops port (serrpc_rxbuf s) 0 FRAME_HDR_SIZE
            SERRPC_TICK_TIMEOUT (hw s);
          let s = s\<lparr>hw := h, serrpc_rxbuf := rx\<rparr>;
          if rxlen < FRAME_HDR_SIZE then Some (Retry, s\<lparr>rstats := count_timeout (rstats s)\<rparr>)
          else if rx ! 0 \<noteq> FRAME_MAGIC_0 \<or> rx ! 1 \<noteq> FRAME_MAGIC_1 then Some (Retry, s)
          else let bodylen = unat (get_le16 (rx ! 8) (rx ! 9)) in
            if bodylen > FRAME_MAX_PAYLOAD then Some (Retry, s)
            else rpc_receive_body ops port bodylen s }"

definition rpc_attempt ::
  "'h uart_ops \<Rightarrow> u16 \<Rightarrow> nat \<Rightarrow> nat \<Rightarrow> 'h rpc_state \<Rightarrow> (attempt_result \<times> 'h rpc_state) option" where
  "rpc_attempt ops port txlen attempt s =
     do { s \<leftarrow> rpc_send ops port txlen attempt s; rpc_receive ops port s }"

text \<open>\<open>rpc_loop n attempt\<close>: the loop from \<open>attempt\<close> on, with \<open>n\<close> attempts left.\<close>

primrec rpc_loop ::
  "'h uart_ops \<Rightarrow> u16 \<Rightarrow> nat \<Rightarrow> nat \<Rightarrow> nat \<Rightarrow> 'h rpc_state \<Rightarrow> (rpc_result \<times> 'h rpc_state) option" where
  "rpc_loop ops port txlen 0 attempt s = Some (SERRPC_ERR_TIMEOUT, s)"
| "rpc_loop ops port txlen (Suc n) attempt s =
     do { (r, s) \<leftarrow> rpc_attempt ops port txlen attempt s;
          case r of Reply st rp \<Rightarrow> Some (SERRPC_OK st rp, s)
                  | Retry \<Rightarrow> rpc_loop ops port txlen n (Suc attempt) s }"

definition next_seq :: "byte \<Rightarrow> byte" where
  "next_seq q = (if q + 1 = 0 then 1 else q + 1)"

definition serial_rpc ::
  "'h uart_ops \<Rightarrow> u16 \<Rightarrow> byte \<Rightarrow> byte list \<Rightarrow> nat \<Rightarrow> 'h rpc_state \<Rightarrow>
   (rpc_result \<times> 'h rpc_state) option" where
  "serial_rpc ops port cmd payload plen s =
     (let sq = next_seq (serrpc_seq s);
          (txlen, tx, c) = frame_encode cmd sq FLAG_NONE STATUS_OK payload plen (serrpc_txbuf s) (crc_st s);
          s = s\<lparr>serrpc_seq := sq, serrpc_txbuf := tx, crc_st := c\<rparr>
      in if txlen = 0 then Some (SERRPC_ERR_PAYLOAD, s)
         else rpc_loop ops port txlen SERRPC_RETRIES 0 s)"

section \<open>Invariant of the statics\<close>

definition rpc_ok :: "'h rpc_state \<Rightarrow> bool" where
  "rpc_ok s \<longleftrightarrow> length (serrpc_txbuf s) = FRAME_MAX_SIZE \<and> length (serrpc_rxbuf s) = FRAME_MAX_SIZE \<and>
     crc_ok (crc_st s)"

definition genuine :: "'h rpc_state \<Rightarrow> byte \<Rightarrow> byte list \<Rightarrow> bool" where
  "genuine s st rp \<longleftrightarrow> (\<exists>n. frame_at (serrpc_rxbuf s) n \<and> seq (hdr_at (serrpc_rxbuf s)) = serrpc_seq s \<and>
     st = status (hdr_at (serrpc_rxbuf s)) \<and> rp = take n (drop 10 (serrpc_rxbuf s)) \<and> length rp = n)"

lemma rpc_send_frame:
  assumes "rpc_send ops port txlen attempt s = Some s'"
  shows "\<exists>h. s' = s\<lparr>hw := h, rstats := count_tx txlen
      (if attempt > 0 then count_retry (rstats s) else rstats s)\<rparr>"
  using assms by (auto simp: rpc_send_def Let_def split: bind_splits)

text \<open>What one receive may change of the state, and what a returned reply is.\<close>

definition receive_post :: "'h rpc_state \<Rightarrow> attempt_result \<Rightarrow> 'h rpc_state \<Rightarrow> bool" where
  "receive_post s r s' \<longleftrightarrow>
     rpc_ok s' \<and> serrpc_seq s' = serrpc_seq s \<and> serrpc_txbuf s' = serrpc_txbuf s \<and>
     (case r of
        Retry \<Rightarrow> rstats s' \<in> {rstats s, count_timeout (rstats s), count_crc_err (rstats s)}
      | Reply st rp \<Rightarrow> rstats s' = count_rx (12 + length rp) (rstats s) \<and> genuine s' st rp)"

lemma rpc_receive_body_post:
  assumes "rpc_receive_body ops port b s = Some (r, s')" "rpc_ok s"
    and "b = unat (get_le16 (serrpc_rxbuf s ! 8) (serrpc_rxbuf s ! 9))"
  shows "receive_post s r s'"
proof -
  from assms(1) obtain got rx h where
    rcv: "seruart_recv_block_timeout ops port (serrpc_rxbuf s) 10 (b + 2) 90 (hw s) = Some (got, rx, h)"
    by (auto simp: rpc_receive_body_def split: bind_splits)
  have len: "length rx = 524" and same: "\<forall>j<10. rx ! j = serrpc_rxbuf s ! j"
    using recv_block_bounds [OF rcv] assms(2) by (auto simp: rpc_ok_def)
  obtain rc c where d: "frame_decode rx (12 + b) (crc_st s) = (rc, c)" by fastforce
  have c: "crc_ok c" using frame_decode_crc_ok [of "crc_st s" rx "12 + b"] assms(2) d
    by (simp add: rpc_ok_def)
  have acc: "frame_at rx b \<and> hdr = hdr_at rx \<and> off = 10 \<and> n = b \<and> b \<le> 512"
    if rc: "rc = Inr (hdr, off, n)" and "\<not> got < b + 2" for hdr off n
  proof -
    have "b \<le> 512" using rc d assms(3) same by (auto simp: frame_decode_def Let_def split: if_splits)
    then show ?thesis
      using frame_decode_accepts [of "crc_st s" "12 + b" rx hdr off n] rc d assms(2,3) len same
      by (auto simp: rpc_ok_def frame_at_def)
  qed
  consider (short) "got < b + 2" | (bad) e where "\<not> got < b + 2" "rc = Inl e"
    | (ok) hdr off n where "\<not> got < b + 2" "rc = Inr (hdr, off, n)"
    by (cases rc) (auto)
  then show ?thesis
  proof cases
    case short
    then show ?thesis using assms(1,2) len
      by (auto simp: rpc_receive_body_def rcv receive_post_def rpc_ok_def)
  next
    case bad
    then show ?thesis using assms(1,2) len c
      by (auto simp: rpc_receive_body_def rcv receive_post_def rpc_ok_def d)
  next
    case ok
    from ok acc have a: "frame_at rx b" "hdr = hdr_at rx" "off = 10" "n = b" "b \<le> 512" by auto
    show ?thesis
      using assms(1,2) len c ok a
      by (auto simp: rpc_receive_body_def rcv receive_post_def rpc_ok_def d genuine_def Let_def
          split: if_splits intro!: exI [of _ b])
  qed
qed

lemma rpc_receive_post:
  assumes "rpc_receive ops port s = Some (r, s')" "rpc_ok s"
  shows "receive_post s r s'"
proof -
  from assms(1) obtain rxlen rx h where
    rcv: "seruart_recv_block_timeout ops port (serrpc_rxbuf s) 0 10 90 (hw s) = Some (rxlen, rx, h)"
    by (auto simp: rpc_receive_def split: bind_splits)
  let ?s = "s\<lparr>hw := h, serrpc_rxbuf := rx\<rparr>"
  have ok: "rpc_ok ?s" using recv_block_bounds [OF rcv] assms(2) by (simp add: rpc_ok_def)
  have post: "receive_post s r s'" if "receive_post ?s r s'"
    using that by (cases r) (simp_all add: receive_post_def)
  show ?thesis
    using assms(1) ok post rpc_receive_body_post [of ops port _ ?s r s']
    by (auto simp: rpc_receive_def rcv Let_def receive_post_def rpc_ok_def split: if_splits)
qed


lemmas count_defs = count_retry_def count_timeout_def count_crc_err_def count_tx_def count_rx_def

text \<open>
  The retry loop: every attempt sends the same frame, an attempt that is not the first counts
  as a retry, an attempt adds at most one error, and only a genuine reply ends the loop early.
\<close>

definition loop_post :: "nat \<Rightarrow> nat \<Rightarrow> nat \<Rightarrow> 'h rpc_state \<Rightarrow> rpc_result \<Rightarrow> 'h rpc_state \<Rightarrow> nat \<Rightarrow> bool" where
  "loop_post txlen n a s r s' k \<longleftrightarrow>
     k \<le> n \<and>
     stat_tx_bytes (rstats s') = stat_tx_bytes (rstats s) + of_nat (k * txlen) \<and>
     stat_retries (rstats s') = stat_retries (rstats s) + of_nat (if a = 0 then k - 1 else k) \<and>
     (\<exists>m \<le> k. stat_timeouts (rstats s') + stat_crc_errs (rstats s') =
        stat_timeouts (rstats s) + stat_crc_errs (rstats s) + of_nat m) \<and>
     (case r of
        SERRPC_OK st rp \<Rightarrow> 0 < k \<and> genuine s' st rp \<and>
          stat_rx_bytes (rstats s') = stat_rx_bytes (rstats s) + of_nat (12 + length rp)
      | SERRPC_ERR_TIMEOUT \<Rightarrow> k = n \<and> stat_rx_bytes (rstats s') = stat_rx_bytes (rstats s)
      | SERRPC_ERR_PAYLOAD \<Rightarrow> False)"

definition same_frame :: "'h rpc_state \<Rightarrow> 'h rpc_state \<Rightarrow> bool" where
  "same_frame s s' \<longleftrightarrow> rpc_ok s' \<and> serrpc_seq s' = serrpc_seq s \<and> serrpc_txbuf s' = serrpc_txbuf s"

lemma rpc_attempt_post:
  assumes "rpc_attempt ops port txlen a s = Some (r, s')" "rpc_ok s"
  shows "\<exists>s1. rpc_ok s1 \<and> serrpc_seq s1 = serrpc_seq s \<and> serrpc_txbuf s1 = serrpc_txbuf s \<and>
    rstats s1 = count_tx txlen (if a > 0 then count_retry (rstats s) else rstats s) \<and>
    receive_post s1 r s'"
proof -
  from assms(1) obtain s1 where send: "rpc_send ops port txlen a s = Some s1"
    and rcv: "rpc_receive ops port s1 = Some (r, s')"
    by (auto simp: rpc_attempt_def split: bind_splits)
  from rpc_send_frame [OF send] assms(2) have "rpc_ok s1" "serrpc_seq s1 = serrpc_seq s"
    "serrpc_txbuf s1 = serrpc_txbuf s"
    "rstats s1 = count_tx txlen (if a > 0 then count_retry (rstats s) else rstats s)"
    by (auto simp: rpc_ok_def)
  with rpc_receive_post [OF rcv] show ?thesis by blast
qed

lemma rpc_loop_post:
  assumes "rpc_loop ops port txlen n a s = Some (r, s')" "rpc_ok s"
  shows "same_frame s s' \<and> (\<exists>k. loop_post txlen n a s r s' k)"
  using assms
proof (induction n arbitrary: a s)
  case 0
  then show ?case by (auto simp: same_frame_def loop_post_def intro!: exI [of _ 0])
next
  case (Suc n)
  then obtain ar s2 where att: "rpc_attempt ops port txlen a s = Some (ar, s2)"
    by (auto split: bind_splits)
  obtain s1 where s1: "rpc_ok s1" "serrpc_seq s1 = serrpc_seq s" "serrpc_txbuf s1 = serrpc_txbuf s"
    "rstats s1 = count_tx txlen (if a > 0 then count_retry (rstats s) else rstats s)"
    and post: "receive_post s1 ar s2"
    using rpc_attempt_post [OF att Suc.prems(2)] by blast
  show ?case
  proof (cases ar)
    case (Reply st rp)
    with Suc.prems(1) att have r: "r = SERRPC_OK st rp" "s' = s2" by simp_all
    from post Reply s1 have "loop_post txlen (Suc n) a s r s' 1"
      unfolding loop_post_def r
      by (auto simp: receive_post_def count_defs intro!: exI [of _ 0])
    with post s1 r show ?thesis by (auto simp: receive_post_def same_frame_def)
  next
    case Retry
    from post Retry s1 obtain m where m: "m \<le> 1"
      "stat_timeouts (rstats s2) + stat_crc_errs (rstats s2) =
        stat_timeouts (rstats s) + stat_crc_errs (rstats s) + of_nat m"
      by (auto simp: receive_post_def count_defs intro: that [of 0] that [of 1] split: if_splits)
    have s2: "same_frame s s2" "rpc_ok s2"
      "stat_tx_bytes (rstats s2) = stat_tx_bytes (rstats s) + of_nat txlen"
      "stat_retries (rstats s2) = stat_retries (rstats s) + of_nat (if a = 0 then 0 else 1)"
      "stat_rx_bytes (rstats s2) = stat_rx_bytes (rstats s)"
      using post Retry s1 by (auto simp: receive_post_def same_frame_def count_defs split: if_splits)
    from Suc.prems(1) att Retry have "rpc_loop ops port txlen n (Suc a) s2 = Some (r, s')" by simp
    from Suc.IH [OF this s2(2)] obtain k where
      sf: "same_frame s2 s'" and k: "loop_post txlen n (Suc a) s2 r s' k" by blast
    from k obtain m' where m': "m' \<le> k" "stat_timeouts (rstats s') + stat_crc_errs (rstats s') =
        stat_timeouts (rstats s2) + stat_crc_errs (rstats s2) + of_nat m'"
      by (auto simp: loop_post_def)
    have "loop_post txlen (Suc n) a s r s' (Suc k)"
      unfolding loop_post_def
    proof (intro conjI)
      show "\<exists>m\<le>Suc k. stat_timeouts (rstats s') + stat_crc_errs (rstats s') =
        stat_timeouts (rstats s) + stat_crc_errs (rstats s) + word_of_nat m"
        using m m' by (intro exI [of _ "m + m'"]) (auto simp: ac_simps)
    qed (use k s2 in \<open>auto simp: loop_post_def algebra_simps split: rpc_result.splits\<close>)
    with sf s2 show ?thesis by (auto simp: same_frame_def)
  qed
qed

text \<open>The call as a whole.\<close>

definition sent_frame :: "byte \<Rightarrow> byte list \<Rightarrow> nat \<Rightarrow> 'h rpc_state \<Rightarrow> byte list" where
  "sent_frame cmd payload plen s =
     frame_wire cmd (next_seq (serrpc_seq s)) FLAG_NONE STATUS_OK (take plen payload)"

lemma serial_rpc_post:
  assumes "serial_rpc ops port cmd payload plen s = Some (r, s')" "rpc_ok s"
    and "plen \<le> 512" "plen \<le> length payload"
  shows "rpc_ok s' \<and> serrpc_seq s' = next_seq (serrpc_seq s) \<and>
    take (12 + plen) (serrpc_txbuf s') = sent_frame cmd payload plen s \<and>
    (\<exists>k. loop_post (12 + plen) SERRPC_RETRIES 0 s r s' k)"
proof -
  obtain c where c: "crc_ok c" and enc:
    "frame_encode cmd (next_seq (serrpc_seq s)) 0 0 payload plen (serrpc_txbuf s) (crc_st s) =
     (12 + plen, sent_frame cmd payload plen s @ drop (12 + plen) (serrpc_txbuf s), c)"
    using frame_encode_spec [of "crc_st s" plen payload "serrpc_txbuf s" cmd "next_seq (serrpc_seq s)" 0 0]
      assms(2-4) by (auto simp: rpc_ok_def sent_frame_def)
  let ?tx = "sent_frame cmd payload plen s @ drop (12 + plen) (serrpc_txbuf s)"
  let ?s = "s\<lparr>serrpc_seq := next_seq (serrpc_seq s), serrpc_txbuf := ?tx, crc_st := c\<rparr>"
  have len: "length (sent_frame cmd payload plen s) = 12 + plen"
    using assms(4) by (simp add: sent_frame_def)
  have loop: "rpc_loop ops port (12 + plen) 10 0 ?s = Some (r, s')"
    using assms(1) by (simp add: serial_rpc_def enc)
  have "rpc_ok ?s" using assms(2,3) c len by (simp add: rpc_ok_def)
  from rpc_loop_post [OF loop this] obtain k where
    "same_frame ?s s'" "loop_post (12 + plen) 10 0 ?s r s' k" by blast
  moreover from this(2) have "loop_post (12 + plen) 10 0 s r s' k"
    by (cases r) (auto simp: loop_post_def)
  ultimately show ?thesis using len by (auto simp: same_frame_def)
qed

lemma serial_rpc_too_long:
  "plen > 512 \<Longrightarrow> serial_rpc ops port cmd payload plen s =
     Some (SERRPC_ERR_PAYLOAD, s\<lparr>serrpc_seq := next_seq (serrpc_seq s)\<rparr>)"
  by (simp add: serial_rpc_def frame_encode_too_long)

section \<open>Termination\<close>

lemma rpc_receive_returns:
  assumes "timer_live ops"
  shows "\<exists>r. rpc_receive ops port s = Some r"
proof -
  have body: "\<exists>r. rpc_receive_body ops port b t = Some r" for b t
    using recv_block_returns [OF assms, of port "serrpc_rxbuf t" 10 "b + 2" 90 "hw t"]
    by (auto simp: rpc_receive_body_def Let_def split: prod.splits sum.splits)
  show ?thesis
    using recv_block_returns [OF assms, of port "serrpc_rxbuf s" 0 10 90 "hw s"] body
    by (auto simp: rpc_receive_def Let_def)
qed

lemma rpc_attempt_returns:
  assumes "timer_live ops"
  shows "\<exists>r. rpc_attempt ops port txlen a s = Some r"
proof -
  have "\<exists>s1. rpc_send ops port txlen a s = Some s1"
    unfolding rpc_send_def Let_def
    using send_block_returns [OF assms, of port _ txlen] by (metis bind.bind_lunit)
  then obtain s1 where "rpc_send ops port txlen a s = Some s1" ..
  with rpc_receive_returns [OF assms] show ?thesis by (simp add: rpc_attempt_def)
qed

lemma rpc_loop_returns: "timer_live ops \<Longrightarrow> \<exists>r. rpc_loop ops port txlen n a s = Some r"
proof (induction n arbitrary: a s)
  case (Suc n)
  obtain ar s1 where "rpc_attempt ops port txlen a s = Some (ar, s1)"
    using rpc_attempt_returns [OF Suc.prems] by fastforce
  then show ?case using Suc by (cases ar) auto
qed simp

lemma serial_rpc_total:
  "timer_live ops \<Longrightarrow> \<exists>r. serial_rpc ops port cmd payload plen s = Some r"
  unfolding serial_rpc_def Let_def
  by (simp add: rpc_loop_returns del: split_paired_Ex split: prod.split)

section \<open>The service the redirector relies on\<close>

text \<open>
  What a client of \<open>serial_rpc\<close> may assume of a call that returns: the statics stay well
  formed, a payload that fits the frame is never refused, and a reply fits the caller's
  512-byte buffer.
\<close>

locale rpc_service =
  fixes rpc :: "u16 \<Rightarrow> byte \<Rightarrow> byte list \<Rightarrow> nat \<Rightarrow> 'l \<Rightarrow> (rpc_result \<times> 'l) option"
    and link_ok :: "'l \<Rightarrow> bool"
  assumes rpc_keeps: "rpc port cmd payload plen l = Some (r, l') \<Longrightarrow> link_ok l \<Longrightarrow>
      plen \<le> 512 \<Longrightarrow> plen \<le> length payload \<Longrightarrow> link_ok l'"
    and rpc_fits: "rpc port cmd payload plen l = Some (r, l') \<Longrightarrow> link_ok l \<Longrightarrow>
      plen \<le> 512 \<Longrightarrow> plen \<le> length payload \<Longrightarrow> r \<noteq> SERRPC_ERR_PAYLOAD"
    and rpc_reply: "rpc port cmd payload plen l = Some (SERRPC_OK st rp, l') \<Longrightarrow> link_ok l \<Longrightarrow>
      plen \<le> 512 \<Longrightarrow> plen \<le> length payload \<Longrightarrow> length rp \<le> 512"

interpretation serial: rpc_service "serial_rpc ops" rpc_ok for ops :: "'h uart_ops"
proof
  fix port cmd payload plen r and l l' :: "'h rpc_state"
  assume a: "serial_rpc ops port cmd payload plen l = Some (r, l')" "rpc_ok l"
    "plen \<le> 512" "plen \<le> length payload"
  from serial_rpc_post [OF a] show "rpc_ok l'" "r \<noteq> SERRPC_ERR_PAYLOAD"
    by (auto simp: loop_post_def)
next
  fix port cmd payload plen st rp and l l' :: "'h rpc_state"
  assume a: "serial_rpc ops port cmd payload plen l = Some (SERRPC_OK st rp, l')" "rpc_ok l"
    "plen \<le> 512" "plen \<le> length payload"
  from serial_rpc_post [OF a] show "length rp \<le> 512"
    by (auto simp: loop_post_def genuine_def frame_at_def)
qed

end
