(* ===== verification/Sdf_State.thy ===== *)
theory Sdf_State
  imports Sdf_Names Sdf_Rpc
begin

text \<open>
  The resident state of the redirector, \<open>dos/src/globals.h\<close>, and the primitives every handler
  of \<open>process2f\<close> is written with: the register snapshot, the success and failure flags, the
  payload buffers and one remote call. The serial link is a component of the state, and the
  remote call is an argument \<open>rpc\<close> of the handlers; the program's is \<open>serial_rpc\<close>.
\<close>

section \<open>State\<close>

text \<open>The registers of \<open>union INTPACK\<close> that the program touches.\<close>

record intpack =
  ax :: u16
  bx :: u16
  cx :: u16
  dx :: u16
  di :: u16
  es :: u16
  flags :: u16

definition reg_al :: "intpack \<Rightarrow> byte" where
  "reg_al r = ucast (ax r)"

definition reg_ah :: "intpack \<Rightarrow> byte" where
  "reg_ah r = ucast (drop_bit 8 (ax r))"

record tsrshareddata =
  prev_2f_handler :: fp
  pspseg :: u16
  comport :: u16
  baudcode :: u16
  indos :: fp
  ldrv :: "byte list"
  prev_int28h :: fp
  prev_int1ch :: fp

text \<open>
  The other statics. The transfer counters of \<open>tsrshareddata\<close> are part of the link state,
  which \<open>serial_rpc\<close> updates.
\<close>

record 'l tsr =
  link :: 'l
  mem :: memory
  glob_intregs :: intpack
  glob_data :: tsrshareddata
  glob_req_payload :: "byte list"
  glob_rep_payload :: "byte list"
  dir_batch :: "byte list"
  dir_batch_count :: byte
  dir_batch_idx :: byte
  dir_batch_more :: byte
  dir_hid :: byte
  stat_dirty :: bool
  stat_enabled :: bool
  glob_reqdrv :: byte
  glob_reqstkword :: u16
  glob_sdaptr :: fp
  glob_multiplexid :: byte

type_synonym 'l rpc_fun = "u16 \<Rightarrow> byte \<Rightarrow> byte list \<Rightarrow> nat \<Rightarrow> 'l \<Rightarrow> (rpc_result \<times> 'l) option"

abbreviation (input) PAYLOAD_SIZE :: nat where "PAYLOAD_SIZE \<equiv> 512"
abbreviation (input) DIR_ENTRY_SIZE :: nat where "DIR_ENTRY_SIZE \<equiv> 23"
abbreviation (input) DIR_BATCH_MAX :: nat where "DIR_BATCH_MAX \<equiv> 22"
abbreviation (input) INTR_CF :: u16 where "INTR_CF \<equiv> 1"

text \<open>The invariant of the statics: array sizes and the batch cursor.\<close>

definition tsr_ok :: "('l \<Rightarrow> bool) \<Rightarrow> 'l tsr \<Rightarrow> bool" where
  "tsr_ok link_ok s \<longleftrightarrow> link_ok (link s) \<and>
     length (glob_req_payload s) = PAYLOAD_SIZE \<and> length (glob_rep_payload s) = PAYLOAD_SIZE \<and>
     length (dir_batch s) = DIR_BATCH_MAX * DIR_ENTRY_SIZE \<and>
     unat (dir_batch_count s) \<le> DIR_BATCH_MAX \<and> length (ldrv (glob_data s)) = 26"

section \<open>Primitives\<close>

abbreviation sda :: "'l tsr \<Rightarrow> u16 \<Rightarrow> fp" where
  "sda s k \<equiv> fadd (glob_sdaptr s) k"

abbreviation set_regs :: "(intpack \<Rightarrow> intpack) \<Rightarrow> 'l tsr \<Rightarrow> 'l tsr" where
  "set_regs f s \<equiv> s\<lparr>glob_intregs := f (glob_intregs s)\<rparr>"

abbreviation set_mem :: "(memory \<Rightarrow> memory) \<Rightarrow> 'l tsr \<Rightarrow> 'l tsr" where
  "set_mem f s \<equiv> s\<lparr>mem := f (mem s)\<rparr>"

abbreviation set_req :: "(byte list \<Rightarrow> byte list) \<Rightarrow> 'l tsr \<Rightarrow> 'l tsr" where
  "set_req f s \<equiv> s\<lparr>glob_req_payload := f (glob_req_payload s)\<rparr>"

definition SUCCESSFLAG :: "'l tsr \<Rightarrow> 'l tsr" where
  "SUCCESSFLAG s = set_regs (\<lambda>r. r\<lparr>ax := 0, flags := flags r AND NOT INTR_CF\<rparr>) s"

definition FAILFLAG :: "byte \<Rightarrow> 'l tsr \<Rightarrow> 'l tsr" where
  "FAILFLAG x s = set_regs (\<lambda>r. r\<lparr>ax := ucast x, flags := flags r OR INTR_CF\<rparr>) s"

definition put16 :: "byte list \<Rightarrow> nat \<Rightarrow> u16 \<Rightarrow> byte list" where
  "put16 buf i w = copy_at buf i (le16 w) 2"

definition put32 :: "byte list \<Rightarrow> nat \<Rightarrow> u32 \<Rightarrow> byte list" where
  "put32 buf i w = copy_at buf i (le32 w) 4"

definition get16 :: "byte list \<Rightarrow> nat \<Rightarrow> u16" where
  "get16 buf i = get_le16 (buf ! i) (buf ! (i + 1))"

definition get32 :: "byte list \<Rightarrow> nat \<Rightarrow> u32" where
  "get32 buf i = get_le32 (buf ! i) (buf ! (i + 1)) (buf ! (i + 2)) (buf ! (i + 3))"

text \<open>
  One call of \<open>serial_rpc\<close> as the handlers make it: the reply goes to \<open>glob_rep_payload\<close>, the
  status to the local variable \<open>rst\<close> and the length to another, all three on success only; the
  Boolean is \<open>serial_rpc(...) == SERRPC_OK\<close>.
\<close>

definition call_rpc ::
  "'l rpc_fun \<Rightarrow> byte \<Rightarrow> byte list \<Rightarrow> nat \<Rightarrow> byte \<Rightarrow> 'l tsr \<Rightarrow> (bool \<times> byte \<times> nat \<times> 'l tsr) option" where
  "call_rpc rpc cmd buf plen rst s =
     do { (r, l) \<leftarrow> rpc (comport (glob_data s)) cmd buf plen (link s);
          Some (case r of
              SERRPC_OK st rp \<Rightarrow>
                (True, st, length rp,
                 s\<lparr>link := l, glob_rep_payload := copy_at (glob_rep_payload s) 0 rp (length rp)\<rparr>)
            | _ \<Rightarrow> (False, rst, 0, s\<lparr>link := l\<rparr>)) }"

abbreviation call_req ::
  "'l rpc_fun \<Rightarrow> byte \<Rightarrow> nat \<Rightarrow> byte \<Rightarrow> 'l tsr \<Rightarrow> (bool \<times> byte \<times> nat \<times> 'l tsr) option" where
  "call_req rpc cmd plen rst s \<equiv> call_rpc rpc cmd (glob_req_payload s) plen rst s"

text \<open>
  The request most handlers send: a first byte, then the path without its drive letter,
  \<open>glob_req_payload[0] = b; plen = 1 + copy_fn1_path(glob_req_payload, 1, fn1)\<close>.
\<close>

definition path_request :: "byte \<Rightarrow> 'l tsr \<Rightarrow> nat \<times> 'l tsr" where
  "path_request b s =
     (let (n, buf) = copy_fn1_path ((glob_req_payload s)[0 := b]) 1 (mem s) (sda s SDA_FN1)
      in (1 + n, s\<lparr>glob_req_payload := buf\<rparr>))"

end
