(* ===== verification/Sdf_Redirector.thy ===== *)
theory Sdf_Redirector
  imports Sdf_State
begin

text \<open>
  The INT 2Fh redirector functions, \<open>process2f\<close> in \<open>dos/src/serdfs.c\<close>: one definition per arm
  of its switch, in the order of the source, then the dispatcher. \<open>None\<close> means that the arm
  has no defined outcome: a loop over memory that meets no NUL, a store outside a C array, or a
  remote call that does not return. \<open>rst\<close> is the local \<open>rstatus\<close>, which the function does not
  initialise: a handler receives its indeterminate value as an argument.
\<close>

section \<open>Path commands\<close>

text \<open>
  RMDIR, MKDIR and DELETE are the same code but for the command and the error code of a path
  that is too short.
\<close>

definition path_command ::
  "'l rpc_fun \<Rightarrow> byte \<Rightarrow> byte \<Rightarrow> byte \<Rightarrow> 'l tsr \<Rightarrow> 'l tsr option" where
  "path_command rpc cmd short_err rst s =
     do { n \<leftarrow> mystrlen (mem s) (sda s SDA_FN1);
          if n < 2 then Some (FAILFLAG short_err s)
          else let (plen, s) = path_request 0 s in
            do { (ok, rst, _, s) \<leftarrow> call_req rpc cmd plen rst s;
                 Some (if \<not> ok \<or> rst \<noteq> STATUS_OK then FAILFLAG (dos_err_from_status rst) s else s) } }"

definition al_rmdir :: "'l rpc_fun \<Rightarrow> byte \<Rightarrow> 'l tsr \<Rightarrow> 'l tsr option" where
  "al_rmdir rpc rst s = path_command rpc CMD_RMDIR 3 rst s"

definition al_mkdir :: "'l rpc_fun \<Rightarrow> byte \<Rightarrow> 'l tsr \<Rightarrow> 'l tsr option" where
  "al_mkdir rpc rst s = path_command rpc CMD_MKDIR 3 rst s"

definition al_chdir :: "'l rpc_fun \<Rightarrow> byte \<Rightarrow> 'l tsr \<Rightarrow> 'l tsr option" where
  "al_chdir rpc rst s =
     do { n \<leftarrow> mystrlen (mem s) (sda s SDA_FN1);
          if n < 2 then Some (FAILFLAG 3 s)
          else let (plen, s) = path_request 0 s in
            do { (ok, rst, replylen, s) \<leftarrow> call_req rpc CMD_GET_ATTR plen rst s;
                 Some (if \<not> ok \<or> rst \<noteq> STATUS_OK \<or> replylen < 1 then FAILFLAG 3 s
                       else if glob_rep_payload s ! 0 AND 0x10 = 0 then FAILFLAG 3 s
                       else s) } }"

section \<open>Close and commit\<close>

definition al_clsfil :: "'l rpc_fun \<Rightarrow> byte \<Rightarrow> 'l tsr \<Rightarrow> 'l tsr option" where
  "al_clsfil rpc rst s =
     (let sft = (es (glob_intregs s), di (glob_intregs s));
          hc = peek16 (mem s) (fadd sft SFT_HANDLE_COUNT);
          s = (if hc > 0 then set_mem (\<lambda>m. poke16 m (fadd sft SFT_HANDLE_COUNT) (hc - 1)) s else s);
          s = set_req (\<lambda>b. b[0 := ucast (peek16 (mem s) (fadd sft SFT_START_SECTOR))]) s;
          ft = peek32 (mem s) (fadd sft SFT_FILE_TIME);
          (cplen, s) =
            (if peek16 (mem s) (fadd sft SFT_OPEN_MODE) AND 1 \<noteq> 0
             then (5, set_req (\<lambda>b. put16 (put16 b 1 (ucast (drop_bit 16 ft))) 3 (ucast (ft AND 0xFFFF))) s)
             else (1, s))
      in do { (_, _, _, s) \<leftarrow> call_req rpc CMD_CLOSE cplen rst s; Some s })"

definition al_cmmtfil :: "'l rpc_fun \<Rightarrow> byte \<Rightarrow> 'l tsr \<Rightarrow> 'l tsr option" where
  "al_cmmtfil rpc rst s =
     (let sft = (es (glob_intregs s), di (glob_intregs s));
          s = set_req (\<lambda>b. b[0 := ucast (peek16 (mem s) (fadd sft SFT_START_SECTOR))]) s
      in do { (ok, rst, _, s) \<leftarrow> call_req rpc CMD_FLUSH 1 rst s;
              Some (if \<not> ok \<or> rst \<noteq> STATUS_OK then FAILFLAG (dos_err_from_status rst) s else s) })"

section \<open>Read and write\<close>

text \<open>One turn of the read loop fills the request; \<open>sft\<close> fields are read anew every turn.\<close>

definition read_chunk :: "u16 \<Rightarrow> 'l tsr \<Rightarrow> u16" where
  "read_chunk totread s =
     (let chunk = cx (glob_intregs s) - totread in if chunk > 512 then 512 else chunk)"

definition read_request :: "fp \<Rightarrow> u16 \<Rightarrow> 'l tsr \<Rightarrow> 'l tsr" where
  "read_request sft totread s =
     set_req (\<lambda>b. put32 (put16 (b[0 := ucast (peek16 (mem s) (fadd sft SFT_START_SECTOR))]) 1
         (read_chunk totread s)) 3 (peek32 (mem s) (fadd sft SFT_FILE_POS) + ucast totread)) s"

definition read_store :: "u16 \<Rightarrow> u16 \<Rightarrow> 'l tsr \<Rightarrow> 'l tsr" where
  "read_store totread got s =
     set_mem (\<lambda>m. poke_bytes m (fadd (peek_fp m (sda s SDA_CURR_DTA)) totread)
       (take (unat got) (glob_rep_payload s))) s"

definition read_finish :: "fp \<Rightarrow> u16 \<Rightarrow> 'l tsr \<Rightarrow> 'l tsr" where
  "read_finish sft totread s =
     set_regs (\<lambda>r. r\<lparr>cx := totread\<rparr>)
       (set_mem (\<lambda>m. poke32 m (fadd sft SFT_FILE_POS)
          (peek32 m (fadd sft SFT_FILE_POS) + ucast totread)) s)"

partial_function (option) read_loop ::
  "'l rpc_fun \<Rightarrow> fp \<Rightarrow> byte \<Rightarrow> u16 \<Rightarrow> 'l tsr \<Rightarrow> 'l tsr option" where
  "read_loop rpc sft rst totread s =
     (let chunk = read_chunk totread s; s = read_request sft totread s in
      do { (ok, rst, replylen, s) \<leftarrow> call_req rpc CMD_READ 7 rst s;
           if \<not> ok then Some (FAILFLAG 2 s)
           else if rst \<noteq> STATUS_OK \<and> replylen = 0 then Some (FAILFLAG (dos_err_from_status rst) s)
           else let got = of_nat replylen;
                    s = read_store totread got s;
                    totread = totread + got
                in if got < chunk \<or> totread \<ge> cx (glob_intregs s)
                   then Some (read_finish sft totread s)
                   else read_loop rpc sft rst totread s })"

definition al_readfil :: "'l rpc_fun \<Rightarrow> byte \<Rightarrow> 'l tsr \<Rightarrow> 'l tsr option" where
  "al_readfil rpc rst s =
     (let sft = (es (glob_intregs s), di (glob_intregs s)) in
      if peek16 (mem s) (fadd sft SFT_OPEN_MODE) AND 1 \<noteq> 0 then Some (FAILFLAG 5 s)
      else if cx (glob_intregs s) = 0 then Some s
      else read_loop rpc sft rst 0 s)"

definition write_chunk :: "u16 \<Rightarrow> u16 \<Rightarrow> u16" where
  "write_chunk towrite written =
     (let chunk = towrite - written in if chunk > 511 then 511 else chunk)"

definition write_request :: "fp \<Rightarrow> u16 \<Rightarrow> u16 \<Rightarrow> 'l tsr \<Rightarrow> 'l tsr" where
  "write_request sft written chunk s =
     set_req (\<lambda>b. copy_at (b[0 := ucast (peek16 (mem s) (fadd sft SFT_START_SECTOR))]) 1
       (peek_bytes (mem s) (fadd (peek_fp (mem s) (sda s SDA_CURR_DTA)) written) (unat chunk))
       (unat chunk)) s"

definition write_advance :: "fp \<Rightarrow> u16 \<Rightarrow> 'l tsr \<Rightarrow> 'l tsr" where
  "write_advance sft chunk s =
     (let s = set_mem (\<lambda>m. poke32 m (fadd sft SFT_FILE_POS)
            (peek32 m (fadd sft SFT_FILE_POS) + ucast chunk)) s;
          pos = peek32 (mem s) (fadd sft SFT_FILE_POS)
      in if pos > peek32 (mem s) (fadd sft SFT_FILE_SIZE)
         then set_mem (\<lambda>m. poke32 m (fadd sft SFT_FILE_SIZE) pos) s else s)"

partial_function (option) write_loop ::
  "'l rpc_fun \<Rightarrow> fp \<Rightarrow> u16 \<Rightarrow> byte \<Rightarrow> u16 \<Rightarrow> 'l tsr \<Rightarrow> (u16 \<times> 'l tsr) option" where
  "write_loop rpc sft towrite rst written s =
     (if written < towrite then
        (let chunk = write_chunk towrite written; s = write_request sft written chunk s in
         do { (ok, rst, _, s) \<leftarrow> call_req rpc CMD_WRITE (1 + unat chunk) rst s;
              if \<not> ok \<or> rst \<noteq> STATUS_OK
              then Some (written, FAILFLAG (dos_err_from_status rst) s)
              else write_loop rpc sft towrite rst (written + chunk) (write_advance sft chunk s) })
      else Some (written, s))"

definition al_writefil :: "'l rpc_fun \<Rightarrow> byte \<Rightarrow> 'l tsr \<Rightarrow> 'l tsr option" where
  "al_writefil rpc rst s =
     (let sft = (es (glob_intregs s), di (glob_intregs s)); towrite = cx (glob_intregs s) in
      if peek16 (mem s) (fadd sft SFT_OPEN_MODE) AND 1 = 0 then Some (FAILFLAG 5 s)
      else if towrite = 0 then Some s
      else do { (written, s) \<leftarrow> write_loop rpc sft towrite rst 0 s;
                Some (set_regs (\<lambda>r. r\<lparr>cx := written\<rparr>) s) })"

section \<open>Locks and disk space\<close>

definition al_lockfil :: "'l tsr \<Rightarrow> 'l tsr option" where
  "al_lockfil s = Some s"

definition al_diskspace :: "'l tsr \<Rightarrow> 'l tsr option" where
  "al_diskspace s = Some (set_regs (\<lambda>r. r\<lparr>ax := 4, cx := 512, bx := 32767, dx := 16383\<rparr>) s)"

section \<open>Attributes, rename, delete\<close>

definition al_getattr :: "'l rpc_fun \<Rightarrow> byte \<Rightarrow> 'l tsr \<Rightarrow> 'l tsr option" where
  "al_getattr rpc rst s =
     do { n \<leftarrow> mystrlen (mem s) (sda s SDA_FN1);
          if n < 2 then Some (FAILFLAG 2 s)
          else let (plen, s) = path_request 0 s in
            do { (ok, rst, replylen, s) \<leftarrow> call_req rpc CMD_GET_ATTR plen rst s;
                 Some (if \<not> ok \<or> rst \<noteq> STATUS_OK \<or> replylen < 9
                       then FAILFLAG (if rst = STATUS_OK then 2 else dos_err_from_status rst) s
                       else set_regs (\<lambda>r. r\<lparr>ax := ucast (glob_rep_payload s ! 0),
                              di := get16 (glob_rep_payload s) 1, bx := get16 (glob_rep_payload s) 3,
                              dx := get16 (glob_rep_payload s) 5, cx := get16 (glob_rep_payload s) 7\<rparr>) s) } }"

definition al_setattr :: "'l rpc_fun \<Rightarrow> byte \<Rightarrow> 'l tsr \<Rightarrow> 'l tsr option" where
  "al_setattr rpc rst s =
     (let newattr = ucast (glob_reqstkword s AND 0xFF) in
      do { n \<leftarrow> mystrlen (mem s) (sda s SDA_FN1);
           if n < 2 then Some (FAILFLAG 2 s)
           else let (plen, s) = path_request 0 s;
                    s = set_req (\<lambda>b. b[plen := newattr]) s;
                    plen = plen + 1 in
             do { (ok, rst, _, s) \<leftarrow> call_req rpc CMD_SET_ATTR plen rst s;
                  Some (if \<not> ok \<or> rst \<noteq> STATUS_OK then FAILFLAG (dos_err_from_status rst) s else s) } })"

definition al_rename :: "'l rpc_fun \<Rightarrow> byte \<Rightarrow> 'l tsr \<Rightarrow> 'l tsr option" where
  "al_rename rpc rst s =
     do { n1 \<leftarrow> mystrlen (mem s) (sda s SDA_FN1);
          short \<leftarrow> (if n1 < 2 then Some True
                    else do { n2 \<leftarrow> mystrlen (mem s) (sda s SDA_FN2); Some (n2 < 2) });
          if short then Some (FAILFLAG 3 s)
          else let (fn1len, buf) = copy_fn1_path (glob_req_payload s) 0 (mem s) (sda s SDA_FN1);
                   (fn2len, buf) = copy_fn1_path buf fn1len (mem s) (sda s SDA_FN2);
                   plen = fn1len + fn2len;
                   s = s\<lparr>glob_req_payload := buf\<rparr> in
            do { (ok, rst, _, s) \<leftarrow> call_req rpc CMD_RENAME plen rst s;
                 Some (if \<not> ok \<or> rst \<noteq> STATUS_OK then FAILFLAG (dos_err_from_status rst) s else s) } }"

definition al_delete :: "'l rpc_fun \<Rightarrow> byte \<Rightarrow> 'l tsr \<Rightarrow> 'l tsr option" where
  "al_delete rpc rst s = path_command rpc CMD_DELETE 2 rst s"

section \<open>Open and create\<close>

text \<open>
  The file table entry filled from a GET_ATTR reply, attr(1) size(4) date(2) time(2); the three
  opening functions contain the same statements.
\<close>

definition sft_fill :: "fp \<Rightarrow> byte \<Rightarrow> byte \<Rightarrow> 'l tsr \<Rightarrow> 'l tsr" where
  "sft_fill sft hid open_mode_byte s =
     (let rep = glob_rep_payload s in
      set_mem (\<lambda>m.
        let m = poke8 m (fadd sft SFT_FILE_ATTR) (rep ! 0);
            m = poke16 m (fadd sft SFT_DEV_INFO) (0x8040 OR ucast (glob_reqdrv s));
            m = poke_fp m (fadd sft SFT_DEV_DRVR) NULL;
            m = poke16 m (fadd sft SFT_START_SECTOR) (ucast hid);
            m = poke32 m (fadd sft SFT_FILE_SIZE) (get32 rep 1);
            m = poke32 m (fadd sft SFT_FILE_TIME) (push_bit 16 (ucast (get16 rep 5)) OR ucast (get16 rep 7));
            m = poke32 m (fadd sft SFT_FILE_POS) 0;
            m = poke16 m (fadd sft SFT_OPEN_MODE) (peek16 m (fadd sft SFT_OPEN_MODE) AND 0xFF00);
            m = poke16 m (fadd sft SFT_OPEN_MODE) (peek16 m (fadd sft SFT_OPEN_MODE) OR ucast open_mode_byte);
            m = poke16 m (fadd sft SFT_REL_SECTOR) 0xFFFF;
            m = poke16 m (fadd sft SFT_ABS_SECTOR) 0xFFFF;
            m = poke16 m (fadd sft SFT_DIR_SECTOR) 0;
            m = poke8 m (fadd sft SFT_DIR_ENTRY_NO) 0xFF
        in copybytes m (fadd sft SFT_FILE_NAME) (sda s SDA_FCB_FN1) 11) s)"

text \<open>
  The GET_ATTR call that precedes it; when it fails the server handle is closed again and the
  result of that is ignored.
\<close>

definition attr_and_fill :: "'l rpc_fun \<Rightarrow> fp \<Rightarrow> byte \<Rightarrow> byte \<Rightarrow> byte \<Rightarrow> 'l tsr \<Rightarrow> 'l tsr option" where
  "attr_and_fill rpc sft hid open_mode_byte rst s =
     (let (plen, s) = path_request 0 s in
      do { (ok, rst, replylen, s) \<leftarrow> call_req rpc CMD_GET_ATTR plen rst s;
           if \<not> ok \<or> rst \<noteq> STATUS_OK \<or> replylen < 9
           then do { (_, _, _, s) \<leftarrow> call_rpc rpc CMD_CLOSE [hid] 1 rst s; Some (FAILFLAG 2 s) }
           else Some (sft_fill sft hid open_mode_byte s) })"

definition al_open :: "'l rpc_fun \<Rightarrow> byte \<Rightarrow> 'l tsr \<Rightarrow> 'l tsr option" where
  "al_open rpc rst s =
     (let sft = (es (glob_intregs s), di (glob_intregs s)) in
      do { n \<leftarrow> len_if_no_wildcards (mem s) (sda s SDA_FN1);
           if n < 2 then Some (FAILFLAG 3 s)
           else let open_mode_byte = ucast (peek16 (mem s) (fadd sft SFT_OPEN_MODE) AND 3);
                    (plen, s) = path_request open_mode_byte s in
             do { (ok, rst, replylen, s) \<leftarrow> call_req rpc CMD_OPEN plen rst s;
                  if \<not> ok \<or> rst \<noteq> STATUS_OK \<or> replylen < 1
                  then Some (FAILFLAG (dos_err_from_status rst) s)
                  else attr_and_fill rpc sft (glob_rep_payload s ! 0) open_mode_byte rst s } })"

definition al_create :: "'l rpc_fun \<Rightarrow> byte \<Rightarrow> 'l tsr \<Rightarrow> 'l tsr option" where
  "al_create rpc rst s =
     (let sft = (es (glob_intregs s), di (glob_intregs s)) in
      do { n \<leftarrow> len_if_no_wildcards (mem s) (sda s SDA_FN1);
           if n < 2 then Some (FAILFLAG 3 s)
           else let (plen, s) = path_request 1 s in
             do { (ok, rst, replylen, s) \<leftarrow> call_req rpc CMD_CREATE plen rst s;
                  if \<not> ok \<or> rst \<noteq> STATUS_OK \<or> replylen < 1
                  then Some (FAILFLAG (dos_err_from_status rst) s)
                  else attr_and_fill rpc sft (glob_rep_payload s ! 0) 1 rst s } })"

text \<open>
  Extended open. The probe's outcome: the handle is returned (\<open>Probe_open\<close>), the function
  fails, or it goes on to the CREATE branch with \<open>file_exists\<close>.
\<close>

datatype probe_result = Probe_open byte | Probe_fail | Probe_create bool

definition spop_probe ::
  "'l rpc_fun \<Rightarrow> byte \<Rightarrow> byte \<Rightarrow> byte \<Rightarrow> 'l tsr \<Rightarrow> (probe_result \<times> byte \<times> 'l tsr) option" where
  "spop_probe rpc open_mode_byte hi_act rst s =
     (let (plen, s) = path_request open_mode_byte s in
      do { (ok, rst, replylen, s) \<leftarrow> call_req rpc CMD_OPEN plen rst s;
           if ok \<and> rst = STATUS_OK \<and> replylen \<ge> 1
           then let hid = glob_rep_payload s ! 0 in
             if hi_act = 2
             then do { (_, _, _, s) \<leftarrow> call_rpc rpc CMD_CLOSE [hid] 1 rst s;
                       Some (Probe_create True, rst, s) }
             else Some (Probe_open hid, rst, set_regs (\<lambda>r. r\<lparr>cx := 1\<rparr>) s)
           else if rst \<noteq> STATUS_OK \<and> rst \<noteq> ERR_NOT_FOUND
           then Some (Probe_fail, rst, FAILFLAG (dos_err_from_status rst) s)
           else Some (Probe_create False, rst, s) })"

definition spop_create ::
  "'l rpc_fun \<Rightarrow> fp \<Rightarrow> byte \<Rightarrow> byte \<Rightarrow> byte \<Rightarrow> bool \<Rightarrow> byte \<Rightarrow> 'l tsr \<Rightarrow> 'l tsr option" where
  "spop_create rpc sft open_mode_byte hi_act lo_act file_exists rst s =
     (if (hi_act = 2 \<and> file_exists) \<or> lo_act = 1
      then let cmode = (if hi_act = 2 then 1 else 0); (plen, s) = path_request cmode s in
        do { (ok, rst, replylen, s) \<leftarrow> call_req rpc CMD_CREATE plen rst s;
             if \<not> ok \<or> rst \<noteq> STATUS_OK \<or> replylen < 1
             then Some (FAILFLAG (dos_err_from_status rst) s)
             else let hid = glob_rep_payload s ! 0;
                      s = set_regs (\<lambda>r. r\<lparr>cx := if hi_act = 2 \<and> file_exists then 3 else 2\<rparr>) s
                  in attr_and_fill rpc sft hid open_mode_byte rst s }
      else Some (FAILFLAG 2 s))"

definition al_spopnfil :: "'l rpc_fun \<Rightarrow> byte \<Rightarrow> 'l tsr \<Rightarrow> 'l tsr option" where
  "al_spopnfil rpc rst s =
     (let sft = (es (glob_intregs s), di (glob_intregs s));
          open_mode_byte = ucast (peek16 (mem s) (fadd sft SFT_OPEN_MODE) AND 3);
          act = peek16 (mem s) (sda s SDA_SPOP_ACT);
          lo_act = ucast (act AND 0x0F);
          hi_act = ucast (drop_bit 4 act AND 0x0F) in
      do { n \<leftarrow> len_if_no_wildcards (mem s) (sda s SDA_FN1);
           if n < 2 then Some (FAILFLAG 3 s)
           else do {
             (p, rst, s) \<leftarrow>
               (if hi_act = 1 \<or> hi_act = 2 \<or> (hi_act = 0 \<and> lo_act = 1)
                then spop_probe rpc open_mode_byte hi_act rst s
                else Some (Probe_create False, rst, s));
             case p of
               Probe_open hid \<Rightarrow> attr_and_fill rpc sft hid open_mode_byte rst s
             | Probe_fail \<Rightarrow> Some s
             | Probe_create file_exists \<Rightarrow>
                 spop_create rpc sft open_mode_byte hi_act lo_act file_exists rst s } })"

section \<open>Directory search\<close>

function scan_loop ::
  "memory \<Rightarrow> fp \<Rightarrow> byte \<Rightarrow> byte list \<Rightarrow> byte \<Rightarrow> byte \<Rightarrow> nat option \<times> byte" where
  "scan_loop m tmpl srch_attr batch count idx =
     (if idx < count then
        (let e = unat idx * DIR_ENTRY_SIZE; idx' = idx + 1 in
         if \<not> attr_match (batch ! (e + 12)) srch_attr then scan_loop m tmpl srch_attr batch count idx'
         else if fcb_match m tmpl (name83_to_fcb (take 12 (drop e batch))) then (Some e, idx')
         else scan_loop m tmpl srch_attr batch count idx')
      else (None, idx))"
  by pat_completeness auto
termination
  by (relation "measure (\<lambda>(m, tmpl, a, b, count, idx). unat count - unat idx)")
    (auto simp: unat_succ_less word_less_nat_alt)

declare scan_loop.simps [simp del]

definition scan_batch :: "fp \<Rightarrow> byte \<Rightarrow> 'l tsr \<Rightarrow> nat option \<times> 'l tsr" where
  "scan_batch tmpl srch_attr s =
     (let (e, idx) = scan_loop (mem s) tmpl srch_attr (dir_batch s) (dir_batch_count s) (dir_batch_idx s)
      in (e, s\<lparr>dir_batch_idx := idx\<rparr>))"

text \<open>\<open>load_batch off len\<close>: the entries of a reply, from its byte \<open>off\<close> on, become the batch.\<close>

definition load_batch :: "nat \<Rightarrow> nat \<Rightarrow> 'l tsr \<Rightarrow> 'l tsr" where
  "load_batch off len s =
     (let n = min (len div DIR_ENTRY_SIZE) DIR_BATCH_MAX;
          b = copy_at (dir_batch s) 0 (drop off (glob_rep_payload s)) (n * DIR_ENTRY_SIZE)
      in s\<lparr>dir_batch := b, dir_batch_count := of_nat n, dir_batch_idx := 0,
           dir_batch_more := (if n > 0 then b ! ((n - 1) * DIR_ENTRY_SIZE + 21) else 0)\<rparr>)"

definition fill_found_file :: "nat \<Rightarrow> 'l tsr \<Rightarrow> 'l tsr" where
  "fill_found_file e s =
     (let d = dir_batch s; ff = sda s SDA_FOUND_FILE in
      set_mem (\<lambda>m.
        let m = poke_bytes m (fadd ff FF_FNAME) (name83_to_fcb (take 12 (drop e d)));
            m = poke8 m (fadd ff FF_FATTR) (d ! (e + 12));
            m = poke16 m (fadd ff FF_TIME) (get16 d (e + 15));
            m = poke16 m (fadd ff FF_DATE) (get16 d (e + 13));
            m = poke16 m (fadd ff FF_START_CLSTR) 0
        in poke32 m (fadd ff FF_FSIZE) (get32 d (e + 17))) s)"

function dir_request_loop :: "byte list \<Rightarrow> nat \<Rightarrow> byte list \<Rightarrow> nat \<times> byte list" where
  "dir_request_loop dir_path i buf =
     (if i < 63 \<and> dir_path ! i \<noteq> 0
      then dir_request_loop dir_path (i + 1) (buf[1 + i := dir_path ! i])
      else (i, buf))"
  by pat_completeness auto
termination by (relation "measure (\<lambda>(dir_path, i, buf). 63 - i)") auto

declare dir_request_loop.simps [simp del]

definition dir_request :: "byte list \<Rightarrow> 'l tsr \<Rightarrow> nat \<times> 'l tsr" where
  "dir_request dir_path s =
     (let (i, buf) = dir_request_loop dir_path 0 ((glob_req_payload s)[0 := 0])
      in (2 + i, s\<lparr>glob_req_payload := buf[1 + i := 0]\<rparr>))"

text \<open>
  What FINDFIRST does before the scan: list the directory and initialise the search record;
  \<open>None\<close> in the result is the failed listing. The local array \<open>dir_path[65]\<close> starts
  indeterminate; \<open>get_dir_path\<close> writes the part of it that is read.
\<close>

definition find_start :: "'l rpc_fun \<Rightarrow> fp \<Rightarrow> byte \<Rightarrow> byte \<Rightarrow> 'l tsr \<Rightarrow> (byte option \<times> 'l tsr) option" where
  "find_start rpc dta srch_attr rst s =
     do { dir_path \<leftarrow> get_dir_path (replicate 65 0) (mem s) (sda s SDA_FN1);
          let (plen, s) = dir_request dir_path s in
          do { (ok, rst, replylen, s) \<leftarrow> call_req rpc CMD_LIST_DIR plen rst s;
               if \<not> ok \<or> rst \<noteq> STATUS_OK \<or> replylen < 1 then Some (None, FAILFLAG 2 s)
               else
                 let s = s\<lparr>dir_hid := glob_rep_payload s ! 0\<rparr>;
                     s = load_batch 1 (replylen - 1) s;
                     s = set_mem (\<lambda>m.
                       let m = poke8 m (fadd dta SDB_DRV_LETT) (glob_reqdrv s OR 0x80);
                           m = copybytes m (fadd dta SDB_SRCH_TMPL) (sda s SDA_FCB_FN1) 11
                       in poke8 m (fadd dta SDB_SRCH_ATTR) srch_attr) s
                 in Some (Some rst, s) } }"

text \<open>The scan, with LIST_DIR_NEXT calls while the server has more; the result is the entry.\<close>

partial_function (option) find_loop ::
  "'l rpc_fun \<Rightarrow> fp \<Rightarrow> byte \<Rightarrow> byte \<Rightarrow> 'l tsr \<Rightarrow> (nat option \<times> 'l tsr) option" where
  "find_loop rpc tmpl srch_attr rst s =
     (let (e, s) = scan_batch tmpl srch_attr s in
      if e \<noteq> None then Some (e, s)
      else if dir_batch_more s = 0 then Some (None, s)
      else let s = set_req (\<lambda>b. b[0 := dir_hid s]) s in
        do { (ok, rst, replylen, s) \<leftarrow> call_req rpc CMD_LIST_DIR_NEXT 1 rst s;
             if \<not> ok \<or> rst \<noteq> STATUS_OK then Some (None, s)
             else if replylen = 0 then Some (None, s\<lparr>dir_batch_more := 0\<rparr>)
             else find_loop rpc tmpl srch_attr rst (load_batch 0 replylen s) })"

definition find_finish :: "fp \<Rightarrow> nat \<Rightarrow> 'l tsr \<Rightarrow> 'l tsr" where
  "find_finish dta e s =
     (let s = fill_found_file e s in
      set_mem (\<lambda>m.
        let m = poke16 m (fadd dta SDB_PAR_CLSTR) (ucast (dir_hid s));
            m = poke16 m (fadd dta SDB_DIR_ENTRY) (ucast (dir_batch_idx s))
        in copybytes m (fadd dta SDB_SIZE) (sda s SDA_FOUND_FILE) FF_SIZE) s)"

definition find_scan ::
  "'l rpc_fun \<Rightarrow> fp \<Rightarrow> fp \<Rightarrow> byte \<Rightarrow> byte \<Rightarrow> byte \<Rightarrow> 'l tsr \<Rightarrow> 'l tsr option" where
  "find_scan rpc dta tmpl srch_attr err rst s =
     do { (e, s) \<leftarrow> find_loop rpc tmpl srch_attr rst s;
          Some (case e of None \<Rightarrow> FAILFLAG err s | Some e \<Rightarrow> find_finish dta e s) }"

definition al_findfirst :: "'l rpc_fun \<Rightarrow> byte \<Rightarrow> 'l tsr \<Rightarrow> 'l tsr option" where
  "al_findfirst rpc rst s =
     (let dta = peek_fp (mem s) (sda s SDA_CURR_DTA);
          srch_attr = peek8 (mem s) (sda s SDA_SRCH_ATTR);
          tmpl = sda s SDA_FCB_FN1 in
      do { (started, s) \<leftarrow> find_start rpc dta srch_attr rst s;
           case started of
             None \<Rightarrow> Some s
           | Some rst \<Rightarrow> find_scan rpc dta tmpl srch_attr 2 rst s })"

definition al_findnext :: "'l rpc_fun \<Rightarrow> byte \<Rightarrow> 'l tsr \<Rightarrow> 'l tsr option" where
  "al_findnext rpc rst s =
     (let dta = (es (glob_intregs s), di (glob_intregs s));
          srch_attr = peek8 (mem s) (fadd dta SDB_SRCH_ATTR);
          tmpl = fadd dta SDB_SRCH_TMPL;
          s = s\<lparr>dir_batch_idx := ucast (peek16 (mem s) (fadd dta SDB_DIR_ENTRY))\<rparr>
      in find_scan rpc dta tmpl srch_attr 18 rst s)"

section \<open>Seek from end\<close>

definition al_skfmend :: "'l rpc_fun \<Rightarrow> byte \<Rightarrow> 'l tsr \<Rightarrow> 'l tsr option" where
  "al_skfmend rpc rst s =
     (let r = glob_intregs s; sft = (es r, di r);
          s = set_req (\<lambda>b. put16 (put16 (b[0 := ucast (peek16 (mem s) (fadd sft SFT_START_SECTOR)), 1 := 2])
                2 (dx r)) 4 (cx r)) s in
      do { (ok, rst, replylen, s) \<leftarrow> call_req rpc CMD_SEEK 6 rst s;
           if \<not> ok \<or> rst \<noteq> STATUS_OK \<or> replylen < 4 then Some (FAILFLAG 2 s)
           else let new_pos = get32 (glob_rep_payload s) 0;
                    s = set_mem (\<lambda>m. poke32 m (fadd sft SFT_FILE_POS) new_pos) s
                in Some (set_regs (\<lambda>r. r\<lparr>ax := ucast (new_pos AND 0xFFFF),
                     dx := ucast (drop_bit 16 new_pos)\<rparr>) s) })"

definition al_unknown_2d :: "'l tsr \<Rightarrow> 'l tsr option" where
  "al_unknown_2d s = Some (set_regs (\<lambda>r. r\<lparr>ax := 2\<rparr>) s)"

section \<open>The dispatcher\<close>

abbreviation (input) AL_INSTALLCHK :: byte where "AL_INSTALLCHK \<equiv> 0x00"
abbreviation (input) AL_RMDIR :: byte where "AL_RMDIR \<equiv> 0x01"
abbreviation (input) AL_MKDIR :: byte where "AL_MKDIR \<equiv> 0x03"
abbreviation (input) AL_CHDIR :: byte where "AL_CHDIR \<equiv> 0x05"
abbreviation (input) AL_CLSFIL :: byte where "AL_CLSFIL \<equiv> 0x06"
abbreviation (input) AL_CMMTFIL :: byte where "AL_CMMTFIL \<equiv> 0x07"
abbreviation (input) AL_READFIL :: byte where "AL_READFIL \<equiv> 0x08"
abbreviation (input) AL_WRITEFIL :: byte where "AL_WRITEFIL \<equiv> 0x09"
abbreviation (input) AL_LOCKFIL :: byte where "AL_LOCKFIL \<equiv> 0x0A"
abbreviation (input) AL_UNLOCKFIL :: byte where "AL_UNLOCKFIL \<equiv> 0x0B"
abbreviation (input) AL_DISKSPACE :: byte where "AL_DISKSPACE \<equiv> 0x0C"
abbreviation (input) AL_SETATTR :: byte where "AL_SETATTR \<equiv> 0x0E"
abbreviation (input) AL_GETATTR :: byte where "AL_GETATTR \<equiv> 0x0F"
abbreviation (input) AL_RENAME :: byte where "AL_RENAME \<equiv> 0x11"
abbreviation (input) AL_DELETE :: byte where "AL_DELETE \<equiv> 0x13"
abbreviation (input) AL_OPEN :: byte where "AL_OPEN \<equiv> 0x16"
abbreviation (input) AL_CREATE :: byte where "AL_CREATE \<equiv> 0x17"
abbreviation (input) AL_FINDFIRST :: byte where "AL_FINDFIRST \<equiv> 0x1B"
abbreviation (input) AL_FINDNEXT :: byte where "AL_FINDNEXT \<equiv> 0x1C"
abbreviation (input) AL_SKFMEND :: byte where "AL_SKFMEND \<equiv> 0x21"
abbreviation (input) AL_UNKNOWN_2D :: byte where "AL_UNKNOWN_2D \<equiv> 0x2D"
abbreviation (input) AL_SPOPNFIL :: byte where "AL_SPOPNFIL \<equiv> 0x2E"
abbreviation (input) AL_UNKNOWN :: byte where "AL_UNKNOWN \<equiv> 0xFF"

definition process2f :: "'l rpc_fun \<Rightarrow> byte \<Rightarrow> 'l tsr \<Rightarrow> 'l tsr option" where
  "process2f rpc rst s =
     (let subfunction = reg_al (glob_intregs s); s = SUCCESSFLAG s in
      if subfunction = AL_RMDIR then al_rmdir rpc rst s
      else if subfunction = AL_MKDIR then al_mkdir rpc rst s
      else if subfunction = AL_CHDIR then al_chdir rpc rst s
      else if subfunction = AL_CLSFIL then al_clsfil rpc rst s
      else if subfunction = AL_CMMTFIL then al_cmmtfil rpc rst s
      else if subfunction = AL_READFIL then al_readfil rpc rst s
      else if subfunction = AL_WRITEFIL then al_writefil rpc rst s
      else if subfunction = AL_LOCKFIL \<or> subfunction = AL_UNLOCKFIL then al_lockfil s
      else if subfunction = AL_DISKSPACE then al_diskspace s
      else if subfunction = AL_GETATTR then al_getattr rpc rst s
      else if subfunction = AL_SETATTR then al_setattr rpc rst s
      else if subfunction = AL_RENAME then al_rename rpc rst s
      else if subfunction = AL_DELETE then al_delete rpc rst s
      else if subfunction = AL_OPEN then al_open rpc rst s
      else if subfunction = AL_CREATE then al_create rpc rst s
      else if subfunction = AL_SPOPNFIL then al_spopnfil rpc rst s
      else if subfunction = AL_FINDFIRST then al_findfirst rpc rst s
      else if subfunction = AL_FINDNEXT then al_findnext rpc rst s
      else if subfunction = AL_SKFMEND then al_skfmend rpc rst s
      else if subfunction = AL_UNKNOWN_2D then al_unknown_2d s
      else Some s)"

section \<open>The invariant of the statics\<close>

lemma length_put [simp]: "length (put16 b i w) = length b" "length (put32 b i v) = length b"
  by (simp_all add: put16_def put32_def)

lemma tsr_ok_updates [simp]:
  "tsr_ok k (s\<lparr>mem := m\<rparr>) = tsr_ok k s"
  "tsr_ok k (s\<lparr>glob_intregs := r\<rparr>) = tsr_ok k s"
  "tsr_ok k (FAILFLAG x s) = tsr_ok k s"
  "tsr_ok k (SUCCESSFLAG s) = tsr_ok k s"
  "tsr_ok k (s\<lparr>dir_batch_idx := i\<rparr>) = tsr_ok k s"
  "tsr_ok k (s\<lparr>dir_batch_more := b\<rparr>) = tsr_ok k s"
  "tsr_ok k (s\<lparr>dir_hid := b\<rparr>) = tsr_ok k s"
  "tsr_ok k (s\<lparr>glob_reqdrv := b\<rparr>) = tsr_ok k s"
  "tsr_ok k (s\<lparr>glob_reqstkword := w\<rparr>) = tsr_ok k s"
  "tsr_ok k s \<Longrightarrow> length buf = 512 \<Longrightarrow> tsr_ok k (s\<lparr>glob_req_payload := buf\<rparr>)"
  by (simp_all add: tsr_ok_def FAILFLAG_def SUCCESSFLAG_def)

lemma tsr_ok_req [simp]: "tsr_ok k s \<Longrightarrow> length (glob_req_payload s) = 512"
  by (simp add: tsr_ok_def)

lemma tsr_ok_helpers [simp]:
  "tsr_ok k (read_store t g s) = tsr_ok k s" "tsr_ok k (read_finish sft t s) = tsr_ok k s"
  "tsr_ok k (write_advance sft c s) = tsr_ok k s" "tsr_ok k (sft_fill sft h om s) = tsr_ok k s"
  "tsr_ok k (find_finish dta e s) = tsr_ok k s"
  "tsr_ok k s \<Longrightarrow> tsr_ok k (read_request sft t s)"
  "tsr_ok k s \<Longrightarrow> tsr_ok k (write_request sft t c s)"
  by (simp_all add: read_store_def read_finish_def write_advance_def sft_fill_def find_finish_def
      fill_found_file_def read_request_def write_request_def Let_def)

lemma length_request [simp]:
  "length (glob_req_payload (read_request sft t s)) = length (glob_req_payload s)"
  "length (glob_req_payload (write_request sft t c s)) = length (glob_req_payload s)"
  by (simp_all add: read_request_def write_request_def)

lemma tsr_ok_path_request:
  assumes "tsr_ok k s" "path_request b s = (n, s')"
  shows "tsr_ok k s' \<and> n \<le> 511"
proof -
  obtain j buf where c: "copy_fn1_path ((glob_req_payload s)[0 := b]) 1 (mem s) (sda s SDA_FN1) = (j, buf)"
    by fastforce
  show ?thesis
    using copy_fn1_path_bounds [OF c] c assms by (auto simp: path_request_def)
qed

lemma tsr_ok_dir_request:
  assumes "tsr_ok k s" "dir_request p s = (n, s')"
  shows "tsr_ok k s' \<and> n \<le> 65"
proof -
  have l: "dir_request_loop p i buf = (n, buf') \<Longrightarrow> i \<le> 63 \<Longrightarrow> n \<le> 63 \<and> length buf' = length buf"
    for i buf n buf'
    by (induction p i buf rule: dir_request_loop.induct)
      (subst (asm) (2) dir_request_loop.simps, auto split: if_splits)
  obtain j buf where c: "dir_request_loop p 0 ((glob_req_payload s)[0 := 0]) = (j, buf)"
    by fastforce
  show ?thesis using l [OF c] c assms by (auto simp: dir_request_def)
qed

lemma tsr_ok_load_batch [simp]: "tsr_ok k s \<Longrightarrow> tsr_ok k (load_batch off len s)"
  by (auto simp: tsr_ok_def load_batch_def Let_def unat_of_nat take_bit_nat_def min_def)

lemma tsr_ok_scan: "scan_batch t a s = (e, s') \<Longrightarrow> tsr_ok k s' = tsr_ok k s"
  by (auto simp: scan_batch_def split: prod.splits)

text \<open>
  The handlers of \<open>process2f\<close> run on an \<open>rpc_service\<close>. None of them writes the data shared with the
  transient program, the flags of the status bar, the pointer to the swap area or the multiplex
  number, which the handlers of the other interrupts and \<open>/U\<close> rely on: \<open>fixed\<close> is their value.
\<close>

definition statics :: "'l tsr \<Rightarrow> tsrshareddata \<times> bool \<times> bool \<times> fp \<times> byte" where
  "statics s = (glob_data s, stat_dirty s, stat_enabled s, glob_sdaptr s, glob_multiplexid s)"

lemma statics_updates [simp]:
  "statics (s\<lparr>mem := m\<rparr>) = statics s" "statics (s\<lparr>glob_intregs := r\<rparr>) = statics s"
  "statics (s\<lparr>link := l\<rparr>) = statics s"
  "statics (s\<lparr>glob_req_payload := b\<rparr>) = statics s" "statics (s\<lparr>glob_rep_payload := b\<rparr>) = statics s"
  "statics (s\<lparr>dir_batch := b\<rparr>) = statics s" "statics (s\<lparr>dir_batch_count := c\<rparr>) = statics s"
  "statics (s\<lparr>dir_batch_idx := c\<rparr>) = statics s" "statics (s\<lparr>dir_batch_more := c\<rparr>) = statics s"
  "statics (s\<lparr>dir_hid := c\<rparr>) = statics s" "statics (s\<lparr>glob_reqdrv := c\<rparr>) = statics s"
  "statics (s\<lparr>glob_reqstkword := w\<rparr>) = statics s"
  by (simp_all add: statics_def)

lemma statics_helpers [simp]:
  "statics (FAILFLAG x s) = statics s" "statics (SUCCESSFLAG s) = statics s"
  "statics (read_store t g s) = statics s" "statics (read_finish sft t s) = statics s"
  "statics (write_advance sft c s) = statics s" "statics (sft_fill sft h om s) = statics s"
  "statics (find_finish dta e s) = statics s" "statics (read_request sft t s) = statics s"
  "statics (write_request sft t c s) = statics s" "statics (load_batch off len s) = statics s"
  by (simp_all add: FAILFLAG_def SUCCESSFLAG_def read_store_def read_finish_def write_advance_def
      sft_fill_def find_finish_def fill_found_file_def read_request_def write_request_def
      load_batch_def Let_def)

lemma statics_requests:
  "path_request b s = (n, s') \<Longrightarrow> statics s' = statics s"
  "dir_request p s = (n, s') \<Longrightarrow> statics s' = statics s"
  "scan_batch t a s = (e, s') \<Longrightarrow> statics s' = statics s"
  "call_rpc rpc cmd buf plen rst s = Some (ok, st, m, s') \<Longrightarrow> statics s' = statics s"
  by (auto simp: path_request_def dir_request_def scan_batch_def call_rpc_def
      split: prod.splits bind_splits rpc_result.splits)

definition resident_ok :: "('l \<Rightarrow> bool) \<Rightarrow> tsrshareddata \<times> bool \<times> bool \<times> fp \<times> byte \<Rightarrow> 'l tsr \<Rightarrow> bool" where
  "resident_ok k x s \<longleftrightarrow> tsr_ok k s \<and> statics s = x"

lemma resident_ok_updates [simp]:
  "resident_ok k x (s\<lparr>mem := m\<rparr>) = resident_ok k x s"
  "resident_ok k x (s\<lparr>glob_intregs := r\<rparr>) = resident_ok k x s"
  "resident_ok k x (FAILFLAG c s) = resident_ok k x s"
  "resident_ok k x (SUCCESSFLAG s) = resident_ok k x s"
  "resident_ok k x (s\<lparr>dir_batch_idx := i\<rparr>) = resident_ok k x s"
  "resident_ok k x (s\<lparr>dir_batch_more := b\<rparr>) = resident_ok k x s"
  "resident_ok k x (s\<lparr>dir_hid := b\<rparr>) = resident_ok k x s"
  "resident_ok k x (s\<lparr>glob_reqdrv := b\<rparr>) = resident_ok k x s"
  "resident_ok k x (s\<lparr>glob_reqstkword := w\<rparr>) = resident_ok k x s"
  "resident_ok k x s \<Longrightarrow> length buf = 512 \<Longrightarrow> resident_ok k x (s\<lparr>glob_req_payload := buf\<rparr>)"
  by (simp_all add: resident_ok_def)

lemma resident_ok_req [simp]: "resident_ok k x s \<Longrightarrow> length (glob_req_payload s) = 512"
  by (simp add: resident_ok_def tsr_ok_def)

lemma resident_ok_helpers [simp]:
  "resident_ok k x (read_store t g s) = resident_ok k x s"
  "resident_ok k x (read_finish sft t s) = resident_ok k x s"
  "resident_ok k x (write_advance sft c s) = resident_ok k x s"
  "resident_ok k x (sft_fill sft h om s) = resident_ok k x s"
  "resident_ok k x (find_finish dta e s) = resident_ok k x s"
  "resident_ok k x s \<Longrightarrow> resident_ok k x (read_request sft t s)"
  "resident_ok k x s \<Longrightarrow> resident_ok k x (write_request sft t c s)"
  "resident_ok k x s \<Longrightarrow> resident_ok k x (load_batch off len s)"
  by (simp_all add: resident_ok_def)

locale handlers = rpc_service rpc link_ok
  for rpc :: "'l rpc_fun" and link_ok :: "'l \<Rightarrow> bool" +
  fixes fixed :: "tsrshareddata \<times> bool \<times> bool \<times> fp \<times> byte"
begin

abbreviation inv :: "'l tsr \<Rightarrow> bool" where "inv \<equiv> resident_ok link_ok fixed"

lemma call_keeps:
  assumes "call_rpc rpc cmd buf plen rst s = Some (ok, st, n, s')" "inv s"
    and "plen \<le> 512" "plen \<le> length buf"
  shows "inv s' \<and> n \<le> 512"
proof -
  from assms(1) obtain r l where r: "rpc (comport (glob_data s)) cmd buf plen (link s) = Some (r, l)"
    by (auto simp: call_rpc_def split: bind_splits)
  have ok: "tsr_ok link_ok s" using assms(2) by (simp add: resident_ok_def)
  then have "link_ok l" using rpc_keeps [OF r] assms(3,4) by (simp add: tsr_ok_def)
  moreover have "r = SERRPC_OK a rp \<Longrightarrow> length rp \<le> 512" for a rp
    using rpc_reply r ok assms(3,4) by (auto simp: tsr_ok_def)
  ultimately have "tsr_ok link_ok s' \<and> n \<le> 512"
    using assms(1) ok r by (cases r) (auto simp: call_rpc_def tsr_ok_def)
  then show ?thesis using statics_requests(4) [OF assms(1)] assms(2) by (simp add: resident_ok_def)
qed

lemma call_rule [ensures_rules]:
  assumes "inv s" "plen \<le> 512" "plen \<le> length buf"
    and "\<And>ok st n s'. inv s' \<Longrightarrow> n \<le> 512 \<Longrightarrow> ensures P (f (ok, st, n, s'))"
  shows "ensures P (call_rpc rpc cmd buf plen rst s \<bind> f)"
  using assms(4) call_keeps [OF _ assms(1-3)] by (auto intro!: ensures_bindI)

lemma path_request_rule [ensures_rules]:
  assumes "inv s" "\<And>n s'. inv s' \<Longrightarrow> n \<le> 511 \<Longrightarrow> ensures P (f n s')"
  shows "ensures P (case path_request b s of (n, s') \<Rightarrow> f n s')"
  using assms tsr_ok_path_request [of link_ok s b] statics_requests(1) [of b s]
  by (cases "path_request b s") (auto simp: resident_ok_def)

lemma dir_request_rule [ensures_rules]:
  assumes "inv s" "\<And>n s'. inv s' \<Longrightarrow> n \<le> 65 \<Longrightarrow> ensures P (f n s')"
  shows "ensures P (case dir_request p s of (n, s') \<Rightarrow> f n s')"
  using assms tsr_ok_dir_request [of link_ok s p] statics_requests(2) [of p s]
  by (cases "dir_request p s") (auto simp: resident_ok_def)

lemma scan_batch_rule [ensures_rules]:
  assumes "inv s" "\<And>e s'. inv s' \<Longrightarrow> ensures P (f e s')"
  shows "ensures P (case scan_batch t a s of (e, s') \<Rightarrow> f e s')"
  using assms tsr_ok_scan [of t a s _ _ link_ok] statics_requests(3) [of t a s]
  by (cases "scan_batch t a s") (auto simp: resident_ok_def)

lemma copy_fn1_path_rule [ensures_rules]:
  assumes "length buf = 512" "off \<le> 510"
    and "\<And>n b. length b = 512 \<Longrightarrow> off + n \<le> 511 \<Longrightarrow> off = 0 \<longrightarrow> n \<le> 510 \<Longrightarrow> ensures P (f n b)"
  shows "ensures P (case copy_fn1_path buf off m p of (n, b) \<Rightarrow> f n b)"
  using assms copy_fn1_path_bounds [of buf off m p] by (cases "copy_fn1_path buf off m p") auto

lemma mem_read_rules [ensures_rules]:
  "(\<And>n. ensures P (f n)) \<Longrightarrow> ensures P (mystrlen m p \<bind> f)"
  "(\<And>n. ensures P (g n)) \<Longrightarrow> ensures P (len_if_no_wildcards m p \<bind> g)"
  "(\<And>d. ensures P (h d)) \<Longrightarrow> ensures P (get_dir_path dp m p \<bind> h)"
  by (auto intro: ensures_bindI)

lemma path_command_inv: "inv s \<Longrightarrow> ensures inv (path_command rpc cmd e rst s)"
  unfolding path_command_def Let_def by (auto intro!: ensures_rules)

lemma al_chdir_inv: "inv s \<Longrightarrow> ensures inv (al_chdir rpc rst s)"
  unfolding al_chdir_def Let_def by (auto intro!: ensures_rules)

lemma al_clsfil_inv: "inv s \<Longrightarrow> ensures inv (al_clsfil rpc rst s)"
  unfolding al_clsfil_def Let_def by (auto intro!: ensures_rules)

lemma al_cmmtfil_inv: "inv s \<Longrightarrow> ensures inv (al_cmmtfil rpc rst s)"
  unfolding al_cmmtfil_def Let_def by (auto intro!: ensures_rules)

lemma al_getattr_inv: "inv s \<Longrightarrow> ensures inv (al_getattr rpc rst s)"
  unfolding al_getattr_def Let_def by (auto intro!: ensures_rules)

lemma al_setattr_inv: "inv s \<Longrightarrow> ensures inv (al_setattr rpc rst s)"
  unfolding al_setattr_def Let_def by (auto intro!: ensures_rules)

lemma al_rename_inv: "inv s \<Longrightarrow> ensures inv (al_rename rpc rst s)"
  unfolding al_rename_def Let_def
  by (rule mem_read_rules, rule ensures_bindI) (auto intro!: ensures_rules)

lemma attr_and_fill_inv: "inv s \<Longrightarrow> ensures inv (attr_and_fill rpc sft h om rst s)"
  unfolding attr_and_fill_def Let_def by (auto intro!: ensures_rules)

lemma al_open_inv: "inv s \<Longrightarrow> ensures inv (al_open rpc rst s)"
  unfolding al_open_def Let_def by (auto intro!: ensures_rules attr_and_fill_inv)

lemma al_create_inv: "inv s \<Longrightarrow> ensures inv (al_create rpc rst s)"
  unfolding al_create_def Let_def by (auto intro!: ensures_rules attr_and_fill_inv)

lemma spop_probe_inv: "inv s \<Longrightarrow> ensures (\<lambda>(p, rst, s). inv s) (spop_probe rpc om hi rst s)"
  unfolding spop_probe_def Let_def by (auto intro!: ensures_rules)

lemma spop_create_inv: "inv s \<Longrightarrow> ensures inv (spop_create rpc sft om hi lo fe rst s)"
  unfolding spop_create_def Let_def by (auto intro!: ensures_rules attr_and_fill_inv)

lemma al_spopnfil_inv: "inv s \<Longrightarrow> ensures inv (al_spopnfil rpc rst s)"
proof -
  assume s: "inv s"
  have probe: "ensures inv (spop_probe rpc om hi rst s \<bind> f)"
    if "\<And>p r s'. inv s' \<Longrightarrow> ensures inv (f (p, r, s'))" for om hi f
    using that spop_probe_inv [OF s, of om hi rst] by (auto simp: ensures_def split: bind_splits)
  show ?thesis
    unfolding al_spopnfil_def Let_def
    by (auto intro!: ensures_rules probe attr_and_fill_inv spop_create_inv s split: probe_result.split)
qed

lemma read_loop_inv: "inv s \<Longrightarrow> ensures inv (read_loop rpc sft rst t s)"
proof -
  have "inv s'" if "read_loop r sft rst t s = Some s'" "r = rpc" "inv s" for r s'
    using that
  proof (induction r sft rst t s s' rule: read_loop.raw_induct [rotated, consumes 1, case_names step])
    case (step f r sft rst t s s')
    have rec: "inv x \<Longrightarrow> ensures inv (f r sft rst' t' x)" for rst' t' x
      using step(1,3) by (auto simp: ensures_def)
    show ?case
      by (rule ensuresD [OF _ step(2)]) (use step(3,4) rec in \<open>auto simp: Let_def intro!: ensures_rules\<close>)
  qed
  then show "inv s \<Longrightarrow> ?thesis" by (auto simp: ensures_def)
qed

lemma write_loop_inv: "inv s \<Longrightarrow> ensures (\<lambda>(w, s). inv s) (write_loop rpc sft n rst t s)"
proof -
  have "inv (snd x)" if "write_loop r sft n rst t s = Some x" "r = rpc" "inv s" for r x
    using that
  proof (induction r sft n rst t s x rule: write_loop.raw_induct [rotated, consumes 1, case_names step])
    case (step f r sft n rst t s x)
    have rec: "inv z \<Longrightarrow> ensures (\<lambda>x. inv (snd x)) (f r sft n rst' t' z)" for rst' t' z
      using step(1,3) by (auto simp: ensures_def)
    have chunk: "unat (write_chunk n t) \<le> 511"
      by (auto simp: write_chunk_def Let_def word_less_nat_alt)
    show ?case
      by (rule ensuresD [OF _ step(2)]) (use step(3,4) rec chunk in \<open>auto simp: Let_def intro!: ensures_rules\<close>)
  qed
  then show "inv s \<Longrightarrow> ?thesis" by (auto simp: ensures_def)
qed

lemma find_loop_inv: "inv s \<Longrightarrow> ensures (\<lambda>(e, s). inv s) (find_loop rpc t a rst s)"
proof -
  have "inv (snd x)" if "find_loop r t a rst s = Some x" "r = rpc" "inv s" for r x
    using that
  proof (induction r t a rst s x rule: find_loop.raw_induct [rotated, consumes 1, case_names step])
    case (step f r t a rst s x)
    have rec: "inv z \<Longrightarrow> ensures (\<lambda>x. inv (snd x)) (f r t a rst' z)" for rst' z
      using step(1,3) by (auto simp: ensures_def)
    show ?case
      by (rule ensuresD [OF _ step(2)])
        (use step(3,4) rec in \<open>auto simp: Let_def intro!: ensures_rules\<close>)
  qed
  then show "inv s \<Longrightarrow> ?thesis" by (auto simp: ensures_def)
qed

lemma al_readfil_inv: "inv s \<Longrightarrow> ensures inv (al_readfil rpc rst s)"
  by (simp add: al_readfil_def Let_def read_loop_inv)

lemma al_writefil_inv: "inv s \<Longrightarrow> ensures inv (al_writefil rpc rst s)"
  unfolding al_writefil_def Let_def
  by (auto intro!: ensures_rules ensures_seq [OF write_loop_inv])

lemma find_scan_inv: "inv s \<Longrightarrow> ensures inv (find_scan rpc dta t a e rst s)"
  unfolding find_scan_def
  by (auto intro!: ensures_seq [OF find_loop_inv] split: option.split)

lemma find_start_inv: "inv s \<Longrightarrow> ensures (\<lambda>(p, s). inv s) (find_start rpc dta a rst s)"
  unfolding find_start_def Let_def by (auto intro!: ensures_rules tsr_ok_load_batch)

lemma al_skfmend_inv: "inv s \<Longrightarrow> ensures inv (al_skfmend rpc rst s)"
  unfolding al_skfmend_def Let_def by (auto intro!: ensures_rules)

lemma al_find_inv: "inv s \<Longrightarrow> ensures inv (al_findfirst rpc rst s)"
  "inv s \<Longrightarrow> ensures inv (al_findnext rpc rst s)"
  unfolding al_findfirst_def al_findnext_def Let_def
  by (auto intro!: ensures_seq [OF find_start_inv] find_scan_inv split: option.split)

lemmas handler_inv = path_command_inv al_chdir_inv al_clsfil_inv al_cmmtfil_inv al_readfil_inv
  al_writefil_inv al_getattr_inv al_setattr_inv al_rename_inv al_open_inv al_create_inv
  al_spopnfil_inv al_find_inv al_skfmend_inv

lemma process2f_inv: "inv s \<Longrightarrow> ensures inv (process2f rpc rst s)"
  unfolding process2f_def Let_def
  by (simp add: handler_inv al_rmdir_def al_mkdir_def al_delete_def al_lockfil_def al_diskspace_def
      al_unknown_2d_def)

end

interpretation resident: handlers "serial_rpc ops" rpc_ok fixed for ops :: "'h uart_ops" and fixed
  by unfold_locales

end
