(* ===== verification/Sdf_IntHandler.thy ===== *)
theory Sdf_IntHandler
  imports Sdf_Redirector
begin

text \<open>
  The INT 2Fh entry point, \<open>inthandler\<close> in \<open>dos/src/serdfs.c\<close>: the installation check, the
  decision whether a redirector call is for a mapped drive, the rebuilding of the FCB name from
  the path, and the hand-over to \<open>process2f\<close>. The switch to the resident stack is not
  visible in the state. A call that is not for this program goes to the previous handler.
\<close>

section \<open>Definitions\<close>

datatype outcome = Return | Chain fp

abbreviation (input) SDF_MUXBX :: u16 where "SDF_MUXBX \<equiv> 0x4453"
abbreviation (input) SDF_MUXCX :: u16 where "SDF_MUXCX \<equiv> 0x0001"

definition DRIVETONUM :: "byte \<Rightarrow> byte" where
  "DRIVETONUM x = (if x \<ge> 0x61 \<and> x \<le> 0x7A then x - 0x61 else x - 0x41)"

definition supportedfunctions :: "byte list" where
  "supportedfunctions =
     [AL_INSTALLCHK, AL_RMDIR, AL_UNKNOWN, AL_MKDIR, AL_UNKNOWN, AL_CHDIR, AL_CLSFIL, AL_CMMTFIL,
      AL_READFIL, AL_WRITEFIL, AL_LOCKFIL, AL_UNLOCKFIL, AL_DISKSPACE, AL_UNKNOWN, AL_SETATTR,
      AL_GETATTR, AL_UNKNOWN, AL_RENAME, AL_UNKNOWN, AL_DELETE, AL_UNKNOWN, AL_UNKNOWN, AL_OPEN,
      AL_CREATE, AL_UNKNOWN, AL_UNKNOWN, AL_UNKNOWN, AL_FINDFIRST, AL_FINDNEXT, AL_UNKNOWN,
      AL_UNKNOWN, AL_UNKNOWN, AL_UNKNOWN, AL_SKFMEND, AL_UNKNOWN, AL_UNKNOWN, AL_UNKNOWN,
      AL_UNKNOWN, AL_UNKNOWN, AL_UNKNOWN, AL_UNKNOWN, AL_UNKNOWN, AL_UNKNOWN, AL_UNKNOWN,
      AL_UNKNOWN, AL_UNKNOWN_2D, AL_SPOPNFIL]"

text \<open>The test that sends a call to the previous handler before any drive is looked at.\<close>

definition not_redirector :: "intpack \<Rightarrow> bool" where
  "not_redirector r \<longleftrightarrow> reg_ah r \<noteq> 0x11 \<or> reg_al r = AL_INSTALLCHK \<or> reg_al r > 0x2E \<or>
     supportedfunctions ! unat (reg_al r) = AL_UNKNOWN"

definition requested_drive :: "intpack \<Rightarrow> 'l tsr \<Rightarrow> byte" where
  "requested_drive r s =
     (let al = reg_al r in
      if (al \<ge> AL_CLSFIL \<and> al \<le> AL_UNLOCKFIL) \<or> al = AL_SKFMEND \<or> al = AL_UNKNOWN_2D
      then ucast (peek16 (mem s) (fadd (es r, di r) SFT_DEV_INFO) AND 0x3F)
      else if al = AL_FINDNEXT then peek8 (mem s) (sda s (SDA_SDB + SDB_DRV_LETT)) AND 0x1F
      else if al \<in> {AL_SETATTR, AL_GETATTR, AL_DELETE, AL_OPEN, AL_CREATE, AL_SPOPNFIL, AL_MKDIR,
                    AL_RMDIR, AL_CHDIR, AL_RENAME, AL_FINDFIRST}
      then DRIVETONUM (peek8 (mem s) (sda s SDA_FN1))
      else DRIVETONUM (peek8 (mem s) (es r, di r)))"

text \<open>The two loops that rebuild \<open>fcb_fn1\<close> from the last component of \<open>fn1\<close>.\<close>

partial_function (option) last_component ::
  "memory \<Rightarrow> fp \<Rightarrow> u16 \<Rightarrow> fp \<Rightarrow> fp option" where
  "last_component m fn1 i path =
     (let c = peek8 m (fadd fn1 i);
          path = (if c = ch_backslash then fadd fn1 (i + 1) else path)
      in if c = 0 then Some path else last_component m fn1 (i + 1) path)"

partial_function (option) fcb_name_loop :: "memory \<Rightarrow> fp \<Rightarrow> fp \<Rightarrow> u16 \<Rightarrow> memory option" where
  "fcb_name_loop m fcb path i =
     (let c = peek8 m path in
      if c = 0 then Some m
      else if c = ch_dot then fcb_name_loop m fcb (fadd path 1) 8
      else if i < 11 then fcb_name_loop (poke8 m (fadd fcb i) c) fcb (fadd path 1) (i + 1)
      else fcb_name_loop m fcb (fadd path 1) i)"

definition normalise_fcb :: "memory \<Rightarrow> fp \<Rightarrow> memory option" where
  "normalise_fcb m sdap =
     do { path \<leftarrow> last_component m (fadd sdap SDA_FN1) 0 (fadd sdap SDA_FN1);
          let m = poke_bytes m (fadd sdap SDA_FCB_FN1) (replicate 11 ch_space);
          fcb_name_loop m (fadd sdap SDA_FCB_FN1) path 0 }"

text \<open>
  \<open>stkword\<close> is the word the prologue saves from the caller's stack, \<open>ds\<close> the data segment and
  \<open>data_off\<close> the offset of \<open>glob_data\<close> in it.
\<close>

definition inthandler ::
  "'l rpc_fun \<Rightarrow> byte \<Rightarrow> u16 \<Rightarrow> u16 \<Rightarrow> u16 \<Rightarrow> intpack \<Rightarrow> 'l tsr \<Rightarrow> (outcome \<times> intpack \<times> 'l tsr) option" where
  "inthandler rpc rst stkword ds data_off r s =
     (let s = s\<lparr>glob_reqstkword := stkword\<rparr>; chain = Chain (prev_2f_handler (glob_data s)) in
      if reg_ah r = glob_multiplexid s \<and> reg_al r = 0
      then Some (Return, r\<lparr>ax := ax r AND 0xFF00 OR 0xFF, bx := SDF_MUXBX, cx := SDF_MUXCX\<rparr>, s)
      else if reg_ah r = glob_multiplexid s \<and> reg_al r = 1 \<and> bx r = SDF_MUXBX
      then Some (Return, r\<lparr>ax := 0, bx := ds, cx := data_off\<rparr>, s\<lparr>glob_reqstkword := ds\<rparr>)
      else if not_redirector r then Some (chain, r, s)
      else let drv = requested_drive r s; s = s\<lparr>glob_reqdrv := drv\<rparr> in
        if drv > 25 \<or> ldrv (glob_data s) ! unat drv = 0xFF then Some (chain, r, s)
        else do {
          m \<leftarrow> (if reg_al r \<noteq> AL_DISKSPACE then normalise_fcb (mem s) (glob_sdaptr s) else Some (mem s));
          s \<leftarrow> process2f rpc rst (s\<lparr>mem := m, glob_intregs := r\<rparr>);
          Some (Return, glob_intregs s, s) })"

section \<open>Which calls reach the dispatcher\<close>

lemma supported_length [simp]: "length supportedfunctions = 47"
  by (simp add: supportedfunctions_def)

lemma reg_al_upd [simp]: "reg_al (r\<lparr>bx := b\<rparr>) = reg_al r" "reg_al (r\<lparr>cx := c\<rparr>) = reg_al r"
  by (simp_all add: reg_al_def)

lemma normalise_rule [ensures_rules]:
  "(\<And>m'. ensures P (f m')) \<Longrightarrow> ensures P (normalise_fcb m p \<bind> f)"
  by (auto intro: ensures_bindI)

text \<open>A call that is chained changes neither memory nor the link nor the registers.\<close>

definition passed_on :: "u16 \<Rightarrow> intpack \<Rightarrow> 'l tsr \<Rightarrow> fp \<Rightarrow> intpack \<Rightarrow> 'l tsr \<Rightarrow> bool" where
  "passed_on w r s p r' s' \<longleftrightarrow> p = prev_2f_handler (glob_data s) \<and> r' = r \<and>
     s' = s\<lparr>glob_reqstkword := w, glob_reqdrv := glob_reqdrv s'\<rparr>"

lemma inthandler_chain:
  "ensures (\<lambda>(out, r', s'). case out of Chain p \<Rightarrow> passed_on w r s p r' s' | Return \<Rightarrow> True)
     (inthandler rpc rst w ds off r s)"
  unfolding inthandler_def Let_def
  by (intro ensures_ifI ensures_rules ensures_bindI; simp add: passed_on_def)

context handlers
begin

lemma inthandler_inv: "inv s \<Longrightarrow> ensures (\<lambda>(out, r', s'). inv s') (inthandler rpc rst w ds off r s)"
  unfolding inthandler_def Let_def
  by (intro ensures_ifI; (rule ensures_bindI, rule ensures_seq [OF process2f_inv])?; simp)

end

end
