(* ===== verification/Sdf_FileOps.thy ===== *)
theory Sdf_FileOps
  imports Sdf_IntHandler
begin

text \<open>
  What the handlers of \<open>process2f\<close> do with the answers of the server: path commands, file
  input and output, opening. The server is code outside \<open>src/dos\<close>; each lemma states what it
  answers to the requests at hand as a hypothesis on \<open>rpc\<close>.
\<close>

section \<open>The server's answer\<close>

text \<open>
  \<open>answers rpc port cmd req l res\<close>: the call depends on the bytes of the request only, and on
  the link state \<open>l\<close> its result is \<open>res\<close>.
\<close>

definition answers ::
  "'l rpc_fun \<Rightarrow> u16 \<Rightarrow> byte \<Rightarrow> byte list \<Rightarrow> 'l \<Rightarrow> rpc_result \<times> 'l \<Rightarrow> bool" where
  "answers rpc port cmd req l res \<longleftrightarrow>
     (\<forall>buf. length req \<le> length buf \<longrightarrow> take (length req) buf = req \<longrightarrow>
        rpc port cmd buf (length req) l = Some res)"

text \<open>The reply buffer after a reply.\<close>

definition rep_after :: "byte list \<Rightarrow> 'l tsr \<Rightarrow> byte list" where
  "rep_after rp s = copy_at (glob_rep_payload s) 0 rp (length rp)"

lemma rep_after_eq:
  "length (glob_rep_payload s) = 512 \<Longrightarrow> length rp \<le> 512 \<Longrightarrow>
   rep_after rp s = rp @ drop (length rp) (glob_rep_payload s)"
  by (simp add: rep_after_def copy_at_eq)

lemma call_rpc_ok:
  assumes "answers rpc (comport (glob_data s)) cmd req (link s) (SERRPC_OK st rp, l')"
    and "take (length req) buf = req" "n = length req" "n \<le> length buf"
  shows "call_rpc rpc cmd buf n rst s =
    Some (True, st, length rp, s\<lparr>link := l', glob_rep_payload := rep_after rp s\<rparr>)"
  using assms by (simp add: call_rpc_def answers_def rep_after_def)

lemma call_rpc_lost:
  assumes "answers rpc (comport (glob_data s)) cmd req (link s) (SERRPC_ERR_TIMEOUT, l')"
    and "take (length req) buf = req" "n = length req" "n \<le> length buf"
  shows "call_rpc rpc cmd buf n rst s = Some (False, rst, 0, s\<lparr>link := l'\<rparr>)"
  using assms by (simp add: call_rpc_def answers_def)

section \<open>Path commands\<close>

text \<open>\<open>path_at s bs\<close>: the file name buffer of the SDA holds the path \<open>bs\<close>.\<close>

definition path_at :: "'l tsr \<Rightarrow> byte list \<Rightarrow> bool" where
  "path_at s bs \<longleftrightarrow> cstring (mem s) (sda s SDA_FN1) bs \<and> 2 \<le> length bs \<and> length bs \<le> 127 \<and>
     length (glob_req_payload s) = 512 \<and> length (glob_rep_payload s) = 512"

definition path_req :: "byte \<Rightarrow> byte list \<Rightarrow> byte list" where
  "path_req b bs = b # drop 2 bs @ [0]"

lemma length_path_req [simp]: "2 \<le> length bs \<Longrightarrow> length (path_req b bs) = length bs"
  by (simp add: path_req_def)

lemma path_request_at:
  assumes "path_at s bs"
  shows "path_request b s =
    (length bs, s\<lparr>glob_req_payload := path_req b bs @ drop (length bs) (glob_req_payload s)\<rparr>)"
proof -
  have len: "length (glob_req_payload s) = 512" "2 \<le> length bs" "Suc (length bs - Suc 0) = length bs" "bs \<noteq> []"
    using assms by (auto simp: path_at_def)
  have "copy_fn1_path ((glob_req_payload s)[0 := b]) 1 (mem s) (sda s SDA_FN1) =
      (length bs - 1, take 1 ((glob_req_payload s)[0 := b]) @ drop 2 bs @
         0 # drop (1 + (length bs - 1)) ((glob_req_payload s)[0 := b]))"
    by (rule copy_fn1_path_cstring) (use assms in \<open>auto simp: path_at_def\<close>)
  moreover have "take 1 ((glob_req_payload s)[0 := b]) = [b]"
    using len by (cases "glob_req_payload s") auto
  ultimately show ?thesis
    using len by (simp add: path_request_def path_req_def drop_update_cancel)
qed

lemma path_at_strlen: "path_at s bs \<Longrightarrow> \<exists>n. mystrlen (mem s) (sda s SDA_FN1) = Some n \<and> \<not> n < 2"
  using mystrlen_cstring [of "mem s" "sda s SDA_FN1" bs]
  by (auto simp: path_at_def word_less_nat_alt unat_of_nat take_bit_nat_eq_self_iff)

lemma path_at_link [simp]: "path_at (s\<lparr>link := l\<rparr>) bs = path_at s bs"
  by (simp add: path_at_def)

text \<open>A request that starts with the path, sent and answered.\<close>

lemma path_call:
  assumes "path_at s bs" "answers rpc (comport (glob_data s)) cmd (path_req b bs) (link s) (SERRPC_OK st rp, l')"
  shows "(case path_request b s of (plen, s) \<Rightarrow> call_req rpc cmd plen rst s \<bind> f) =
    f (True, st, length rp, s\<lparr>glob_req_payload := path_req b bs @ drop (length bs) (glob_req_payload s),
        link := l', glob_rep_payload := rep_after rp s\<rparr>)"
proof -
  let ?s = "s\<lparr>glob_req_payload := path_req b bs @ drop (length bs) (glob_req_payload s)\<rparr>"
  have len: "length (path_req b bs) = length bs" "length bs \<le> 512"
    using assms(1) by (auto simp: path_at_def)
  then have "call_req rpc cmd (length bs) rst ?s =
      Some (True, st, length rp, ?s\<lparr>link := l', glob_rep_payload := rep_after rp ?s\<rparr>)"
    using assms by (intro call_rpc_ok [where req = "path_req b bs"]) (auto simp: path_at_def)
  moreover have "rep_after rp ?s = rep_after rp s" by (simp add: rep_after_def)
  ultimately show ?thesis
    by (simp add: path_request_at [OF assms(1)])
qed

lemma path_call_lost:
  assumes "path_at s bs" "answers rpc (comport (glob_data s)) cmd (path_req b bs) (link s) (SERRPC_ERR_TIMEOUT, l')"
  shows "(case path_request b s of (plen, s) \<Rightarrow> call_req rpc cmd plen rst s \<bind> f) =
    f (False, rst, 0, s\<lparr>glob_req_payload := path_req b bs @ drop (length bs) (glob_req_payload s),
        link := l'\<rparr>)"
proof -
  let ?s = "s\<lparr>glob_req_payload := path_req b bs @ drop (length bs) (glob_req_payload s)\<rparr>"
  have len: "length (path_req b bs) = length bs" "length bs \<le> 512"
    using assms(1) by (auto simp: path_at_def)
  then have "call_req rpc cmd (length bs) rst ?s = Some (False, rst, 0, ?s\<lparr>link := l'\<rparr>)"
    using assms by (intro call_rpc_lost [where req = "path_req b bs"]) (auto simp: path_at_def)
  then show ?thesis
    by (simp add: path_request_at [OF assms(1)])
qed

text \<open>The outcome DOS sees: the error code in AX, and the carry flag.\<close>

definition reports :: "byte \<Rightarrow> 'l tsr \<Rightarrow> bool" where
  "reports e s \<longleftrightarrow> ax (glob_intregs s) = ucast e \<and> bit (flags (glob_intregs s)) 0"

definition succeeds :: "'l tsr \<Rightarrow> bool" where
  "succeeds s \<longleftrightarrow> ax (glob_intregs s) = 0 \<and> \<not> bit (flags (glob_intregs s)) 0"

lemma reports_FAILFLAG [simp]: "reports e (FAILFLAG e' s) \<longleftrightarrow> e = e'"
  by (auto simp: reports_def FAILFLAG_def bit_simps)

lemma succeeds_SUCCESSFLAG [simp]: "succeeds (SUCCESSFLAG s)"
  by (simp add: succeeds_def SUCCESSFLAG_def bit_simps)

lemma flag_fields [simp]:
  "mem (FAILFLAG e s) = mem s" "link (FAILFLAG e s) = link s" "mem (SUCCESSFLAG s) = mem s"
  "link (SUCCESSFLAG s) = link s" "glob_data (SUCCESSFLAG s) = glob_data s"
  "glob_sdaptr (SUCCESSFLAG s) = glob_sdaptr s"
  "glob_req_payload (SUCCESSFLAG s) = glob_req_payload s"
  "glob_rep_payload (SUCCESSFLAG s) = glob_rep_payload s"
  by (simp_all add: FAILFLAG_def SUCCESSFLAG_def)

lemma process2f_arm:
  "reg_al (glob_intregs s) = AL_READFIL \<Longrightarrow> process2f rpc rst s = al_readfil rpc rst (SUCCESSFLAG s)"
  "reg_al (glob_intregs s) = AL_WRITEFIL \<Longrightarrow> process2f rpc rst s = al_writefil rpc rst (SUCCESSFLAG s)"
  "reg_al (glob_intregs s) = AL_OPEN \<Longrightarrow> process2f rpc rst s = al_open rpc rst (SUCCESSFLAG s)"
  "reg_al (glob_intregs s) = AL_CREATE \<Longrightarrow> process2f rpc rst s = al_create rpc rst (SUCCESSFLAG s)"
  "reg_al (glob_intregs s) = AL_FINDFIRST \<Longrightarrow> process2f rpc rst s = al_findfirst rpc rst (SUCCESSFLAG s)"
  "reg_al (glob_intregs s) = AL_GETATTR \<Longrightarrow> process2f rpc rst s = al_getattr rpc rst (SUCCESSFLAG s)"
  "reg_al (glob_intregs s) = AL_RMDIR \<Longrightarrow> process2f rpc rst s = al_rmdir rpc rst (SUCCESSFLAG s)"
  "reg_al (glob_intregs s) = AL_MKDIR \<Longrightarrow> process2f rpc rst s = al_mkdir rpc rst (SUCCESSFLAG s)"
  "reg_al (glob_intregs s) = AL_DELETE \<Longrightarrow> process2f rpc rst s = al_delete rpc rst (SUCCESSFLAG s)"
  by (simp_all add: process2f_def Let_def)

lemma success_regs [simp]:
  "es (glob_intregs (SUCCESSFLAG s)) = es (glob_intregs s)"
  "di (glob_intregs (SUCCESSFLAG s)) = di (glob_intregs s)"
  "cx (glob_intregs (SUCCESSFLAG s)) = cx (glob_intregs s)"
  "glob_reqdrv (SUCCESSFLAG s) = glob_reqdrv s"
  by (simp_all add: SUCCESSFLAG_def)

lemma succeeds_regs:
  "succeeds s \<Longrightarrow> glob_intregs s' = (glob_intregs s)\<lparr>cx := c\<rparr> \<Longrightarrow> succeeds s'"
  "succeeds s \<Longrightarrow> glob_intregs s' = glob_intregs s \<Longrightarrow> succeeds s'"
  by (simp_all add: succeeds_def)

lemma path_at_success [simp]: "path_at (SUCCESSFLAG s) bs = path_at s bs"
  by (simp add: path_at_def)

lemma path_command_answered:
  assumes "path_at s bs" "succeeds s"
    and "answers rpc (comport (glob_data s)) cmd (path_req 0 bs) (link s) (SERRPC_OK st rp, l')"
  shows "\<exists>s'. path_command rpc cmd e rst s = Some s' \<and> link s' = l' \<and> mem s' = mem s \<and>
    (if st = STATUS_OK then succeeds s' else reports (dos_err_from_status st) s')"
proof -
  obtain n where n: "mystrlen (mem s) (sda s SDA_FN1) = Some n" "\<not> n < 2"
    using path_at_strlen [OF assms(1)] by blast
  show ?thesis
    using assms(2) by (simp add: path_command_def n path_call [OF assms(1,3)] succeeds_def)
qed

lemma path_command_lost:
  assumes "path_at s bs"
    and "answers rpc (comport (glob_data s)) cmd (path_req 0 bs) (link s) (SERRPC_ERR_TIMEOUT, l')"
  shows "\<exists>s'. path_command rpc cmd e rst s = Some s' \<and> link s' = l' \<and> mem s' = mem s \<and>
    reports (dos_err_from_status rst) s'"
proof -
  obtain n where n: "mystrlen (mem s) (sda s SDA_FN1) = Some n" "\<not> n < 2"
    using path_at_strlen [OF assms(1)] by blast
  show ?thesis by (simp add: path_command_def n path_call_lost [OF assms])
qed

section \<open>Reading\<close>

text \<open>
  A server that holds the bytes \<open>F\<close> under the handle \<open>hid\<close> and answers every READ request of
  at most 512 bytes with the part of \<open>F\<close> at the request's offset. \<open>P\<close> is what the link keeps.
\<close>

definition serves_reads ::
  "'l rpc_fun \<Rightarrow> u16 \<Rightarrow> byte \<Rightarrow> byte list \<Rightarrow> ('l \<Rightarrow> bool) \<Rightarrow> bool" where
  "serves_reads rpc port hid F P \<longleftrightarrow>
     (\<forall>l cnt off. P l \<longrightarrow> cnt \<le> 512 \<longrightarrow>
        (\<exists>l'. P l' \<and> answers rpc port CMD_READ (hid # le16 cnt @ le32 off) l
           (SERRPC_OK STATUS_OK (take (unat cnt) (drop (unat off) F)), l')))"

lemma put_eq:
  "i + 2 \<le> length b \<Longrightarrow> put16 b i w = take i b @ le16 w @ drop (i + 2) b"
  "i + 4 \<le> length b \<Longrightarrow> put32 b i v = take i b @ le32 v @ drop (i + 4) b"
  by (simp_all add: put16_def put32_def copy_at_eq)

lemma read_req_bytes:
  "length b = 512 \<Longrightarrow> take 7 (put32 (put16 (b[0 := h]) 1 c) 3 v) = h # le16 c @ le32 v"
  by (cases b) (simp_all add: put_eq)

lemma read_chunk_unat:
  assumes "t \<le> unat (cx (glob_intregs s))"
  shows "unat (read_chunk (of_nat t) s) = min 512 (unat (cx (glob_intregs s)) - t)"
proof -
  have t: "unat (of_nat t :: u16) = t"
    using assms u16_less [of "cx (glob_intregs s)"] by (intro u16_of_nat) linarith
  have "unat (cx (glob_intregs s) - of_nat t) = unat (cx (glob_intregs s)) - t"
    using assms t by (subst unat_sub) (simp_all add: word_le_nat_alt)
  then show ?thesis by (auto simp: read_chunk_def Let_def word_less_nat_alt)
qed

text \<open>Where the transfer area and the file table entry lie.\<close>

definition io_layout :: "memory \<Rightarrow> fp \<Rightarrow> fp \<Rightarrow> fp \<Rightarrow> nat \<Rightarrow> bool" where
  "io_layout m sdap sft dta n \<longleftrightarrow>
     dta = peek_fp m (fadd sdap SDA_CURR_DTA) \<and> fits (fadd sdap SDA_CURR_DTA) 4 \<and>
     fits sft 43 \<and> fits dta n \<and> apart sft 43 dta n \<and> apart (fadd sdap SDA_CURR_DTA) 4 dta n \<and>
     apart sft 43 (fadd sdap SDA_CURR_DTA) 4"

lemma io_layout_stable:
  assumes "io_layout m sdap sft dta n" "length bs \<le> n" "m' = poke_bytes m dta bs"
  shows "peek_fp m' (fadd sdap SDA_CURR_DTA) = dta"
    "unat k + 2 \<le> 43 \<Longrightarrow> peek16 m' (fadd sft k) = peek16 m (fadd sft k)"
    "unat k + 4 \<le> 43 \<Longrightarrow> peek32 m' (fadd sft k) = peek32 m (fadd sft k)"
proof -
  from assms have f: "fits dta (length bs)" "fits sft 43" "apart sft 43 dta (length bs)"
      "apart (fadd sdap SDA_CURR_DTA) 4 dta (length bs)" "fits (fadd sdap SDA_CURR_DTA) 4"
    by (auto simp: io_layout_def intro: apart_mono fits_mono)
  show "peek_fp m' (fadd sdap SDA_CURR_DTA) = dta"
    using assms f by (simp add: io_layout_def peek_fp_poke_apart)
  show "unat k + 2 \<le> 43 \<Longrightarrow> peek16 m' (fadd sft k) = peek16 m (fadd sft k)"
    using assms(3) f apart_fadd [of sft 43 k 2 dta "length bs"] fits_fadd [of sft 43 k 2]
    by (simp add: peek16_poke_apart)
  show "unat k + 4 \<le> 43 \<Longrightarrow> peek32 m' (fadd sft k) = peek32 m (fadd sft k)"
    using assms(3) f apart_fadd [of sft 43 k 4 dta "length bs"] fits_fadd [of sft 43 k 4]
    by (simp add: peek32_poke_apart)
qed

text \<open>One turn of the loop that has moved \<open>t\<close> bytes already.\<close>

lemma read_turn:
  assumes "serves_reads rpc (comport (glob_data s)) hid F P" "P (link s)"
    and "length (glob_req_payload s) = 512" "length (glob_rep_payload s) = 512"
    and "io_layout m (glob_sdaptr s) sft dta n" "n = unat (cx (glob_intregs s))"
    and "ucast (peek16 m (fadd sft SFT_START_SECTOR)) = hid"
    and "unat (peek32 m (fadd sft SFT_FILE_POS)) + n < 2 ^ 32"
    and "data = take n (drop (unat (peek32 m (fadd sft SFT_FILE_POS))) F)"
    and "mem s = poke_bytes m dta (take t data)" "t < n" "t \<le> length data"
    and "rp = take (min 512 (n - t)) (drop t data)"
  shows "\<exists>l' b. P l' \<and> length b = 512 \<and>
    call_req rpc CMD_READ 7 rst (read_request sft (of_nat t) s) =
      Some (True, STATUS_OK, length rp,
        s\<lparr>glob_req_payload := b, link := l', glob_rep_payload := rep_after rp s\<rparr>)"
proof -
  let ?pos = "peek32 m (fadd sft SFT_FILE_POS)"
  let ?c = "read_chunk (of_nat t) s"
  have len: "length (take t data) \<le> n" using assms(9) by simp
  note st = io_layout_stable [OF assms(5) len assms(10)]
  have t16: "t < 65536" using assms(6,11) u16_less [of "cx (glob_intregs s)"] by linarith
  have c: "unat ?c = min 512 (n - t)" using assms(6,11) by (simp add: read_chunk_unat)
  have off: "unat (?pos + ucast (of_nat t :: u16)) = unat ?pos + t"
    using assms(8,11) t16 by (simp add: unat_word_ariths u16_of_nat)
  let ?b = "glob_req_payload (read_request sft (of_nat t) s)"
  let ?off = "?pos + ucast (of_nat t :: u16)"
  have b: "take 7 ?b = hid # le16 ?c @ le32 ?off"
    using st(2) [of SFT_START_SECTOR] st(3) [of SFT_FILE_POS] assms(3,7)
    by (simp add: read_request_def read_req_bytes [unfolded One_nat_def])
  have rp: "rp = take (unat ?c) (drop (unat ?off) F)"
    unfolding c off assms(9,13) by (simp add: drop_take add.commute)
  have "?c \<le> 512" using c by (simp add: word_le_nat_alt)
  with assms(1,2) obtain l' where l': "P l'" "answers rpc (comport (glob_data s)) CMD_READ
      (hid # le16 ?c @ le32 ?off) (link s) (SERRPC_OK STATUS_OK rp, l')"
    unfolding serves_reads_def rp by blast
  then have "call_req rpc CMD_READ 7 rst (read_request sft (of_nat t) s) =
      Some (True, STATUS_OK, length rp, (read_request sft (of_nat t) s)
        \<lparr>link := l', glob_rep_payload := rep_after rp (read_request sft (of_nat t) s)\<rparr>)"
    using b assms(3)
    by (intro call_rpc_ok [where req = "hid # le16 ?c @ le32 ?off"]) (simp_all add: read_request_def)
  moreover have "length ?b = 512" using assms(3) by simp
  ultimately show ?thesis
    using l'(1) by (intro exI [of _ l'] exI [of _ ?b]) (simp add: read_request_def rep_after_def)
qed

lemma read_loop_file:
  assumes "serves_reads rpc (comport (glob_data s)) hid F P" "P (link s)"
    and "length (glob_req_payload s) = 512" "length (glob_rep_payload s) = 512"
    and "io_layout m (glob_sdaptr s) sft dta n" "n = unat (cx (glob_intregs s))"
    and "ucast (peek16 m (fadd sft SFT_START_SECTOR)) = hid"
    and "unat (peek32 m (fadd sft SFT_FILE_POS)) + n < 2 ^ 32"
    and "data = take n (drop (unat (peek32 m (fadd sft SFT_FILE_POS))) F)"
    and "mem s = poke_bytes m dta (take t data)" "t < n" "t \<le> length data"
  shows "\<exists>l' b b'. P l' \<and> length b = 512 \<and> length b' = 512 \<and>
    read_loop rpc sft rst (of_nat t) s = Some (read_finish sft (of_nat (length data))
      (s\<lparr>glob_req_payload := b, link := l', glob_rep_payload := b', mem := poke_bytes m dta data\<rparr>))"
  using assms(1-4,5,6,10-12)
proof (induction "n - t" arbitrary: s t rst rule: less_induct)
  case less
  define rp where "rp = take (min 512 (n - t)) (drop t data)"
  obtain l' b where l': "P l'" "length b = 512"
    and call: "call_req rpc CMD_READ 7 rst (read_request sft (of_nat t) s) =
      Some (True, STATUS_OK, length rp,
        s\<lparr>glob_req_payload := b, link := l', glob_rep_payload := rep_after rp s\<rparr>)"
    using read_turn [OF less(2-7) assms(7,8,9) less(8-10) rp_def] by blast
  let ?s = "s\<lparr>glob_req_payload := b, link := l', glob_rep_payload := rep_after rp s\<rparr>"
  have n: "n < 65536" using less(7) u16_less [of "cx (glob_intregs s)"] by simp
  have dl: "length data \<le> n" using assms(9) by simp
  have rpl: "length rp = min (min 512 (n - t)) (length data - t)" by (simp add: rp_def)
  have got: "unat (of_nat (length rp) :: u16) = length rp" "length rp \<le> 512"
    using rpl by (simp_all add: u16_of_nat)
  have tot: "of_nat t + of_nat (length rp) = (of_nat (t + length rp) :: u16)"
    "unat (of_nat (t + length rp) :: u16) = t + length rp"
    using n dl rpl less(10) by (simp, intro u16_of_nat) linarith
  have tk: "take t data @ rp = take (t + length rp) data"
  proof -
    have "take (t + length rp) data = take t data @ take (length rp) (drop t data)" by (rule take_add)
    moreover have "take (length rp) (drop t data) = rp" by (simp add: rp_def min_def)
    ultimately show ?thesis by simp
  qed
  have "take (length rp) (rep_after rp s) = rp"
    using less(5) got(2) by (simp add: rep_after_eq)
  then have store: "read_store (of_nat t) (of_nat (length rp)) ?s = ?s\<lparr>mem := poke_bytes m dta (take (t + length rp) data)\<rparr>"
  proof -
    have "peek_fp (mem s) (sda s SDA_CURR_DTA) = dta"
      using io_layout_stable(1) [OF less(6) _ less(8)] dl by simp
    moreover have "poke_bytes (mem s) (fadd dta (of_nat t)) rp = poke_bytes m dta (take (t + length rp) data)"
      using less(10) unfolding less(8) tk [symmetric] by (simp add: poke_bytes_append min_def)
    ultimately show ?thesis
      using \<open>take (length rp) (rep_after rp s) = rp\<close> got by (simp add: read_store_def)
  qed
  let ?s' = "?s\<lparr>mem := poke_bytes m dta (take (t + length rp) data)\<rparr>"
  have chunk: "unat (read_chunk (of_nat t) s) = min 512 (n - t)"
    using less(7,9) by (simp add: read_chunk_unat)
  have step: "read_loop rpc sft rst (of_nat t) s =
      (if length rp < min 512 (n - t) \<or> t + length rp \<ge> n
       then Some (read_finish sft (of_nat (t + length rp)) ?s')
       else read_loop rpc sft STATUS_OK (of_nat (t + length rp)) ?s')"
    using less(7) chunk got tot
    by (subst read_loop.simps) (simp add: Let_def call store tot(1) [symmetric] word_less_nat_alt word_le_nat_alt)
  show ?case
  proof (cases "length rp < min 512 (n - t) \<or> t + length rp \<ge> n")
    case True
    then have "t + length rp = length data" using rpl dl less(10) by (auto simp: min_def split: if_splits)
    with True show ?thesis
      using step l' less(5) by (intro exI [of _ l'] exI [of _ b] exI [of _ "rep_after rp s"])
        (simp add: rep_after_def)
  next
    case False
    have "\<exists>l'' b b'. P l'' \<and> length b = 512 \<and> length b' = 512 \<and>
      read_loop rpc sft STATUS_OK (of_nat (t + length rp)) ?s' = Some (read_finish sft (of_nat (length data))
      (?s'\<lparr>glob_req_payload := b, link := l'', glob_rep_payload := b', mem := poke_bytes m dta data\<rparr>))"
      by (rule less(1)) (use False less(2-10) l' rpl in \<open>auto simp: rep_after_def\<close>)
    moreover have "read_loop rpc sft rst (of_nat t) s = read_loop rpc sft STATUS_OK (of_nat (t + length rp)) ?s'"
      using step unfolding if_not_P [OF False] .
    ultimately show ?thesis by simp
  qed
qed

text \<open>
  \<open>transferred\<close>: \<open>data\<close> is in the transfer area, the file position has advanced by its length
  and nothing else in memory has changed.
\<close>

definition transferred :: "fp \<Rightarrow> fp \<Rightarrow> byte list \<Rightarrow> memory \<Rightarrow> memory \<Rightarrow> bool" where
  "transferred sft dta data m m' \<longleftrightarrow> peek_bytes m' dta (length data) = data \<and>
     peek32 m' (fadd sft SFT_FILE_POS) = peek32 m (fadd sft SFT_FILE_POS) + of_nat (length data) \<and>
     same_outside [(dta, length data), (fadd sft SFT_FILE_POS, 4)] m m'"

lemma transferredI:
  assumes "io_layout m sdap sft dta n" "length data \<le> n" "n < 65536"
    and "m' = poke32 (poke_bytes m dta data) (fadd sft SFT_FILE_POS)
      (peek32 m (fadd sft SFT_FILE_POS) + of_nat (length data))"
  shows "transferred sft dta data m m'"
proof -
  let ?p = "fadd sft SFT_FILE_POS"
  have f: "fits dta (length data)" "fits ?p 4" "apart ?p 4 dta (length data)"
    using assms(1,2) fits_fadd [of sft 43 SFT_FILE_POS 4]
      apart_fadd [of sft 43 SFT_FILE_POS 4 dta n]
    by (auto simp: io_layout_def intro: fits_mono apart_mono)
  have "peek_bytes m' dta (length data) = peek_bytes (poke_bytes m dta data) dta (length data)"
    using f assms(2,3) unfolding assms(4) poke32_def
    by (intro peek_poke_bytes_apart) (auto simp: apart_sym)
  also have "\<dots> = data" using f assms(2,3) by (intro peek_poke_bytes_same) auto
  finally have 1: "peek_bytes m' dta (length data) = data" .
  have 2: "peek32 m' ?p = peek32 m ?p + of_nat (length data)"
    unfolding assms(4) by (rule peek32_poke32) (rule f)
  have "same_outside [(dta, length data), (?p, 4)] m (poke_bytes m dta data)"
    by (rule same_outside_poke [OF same_outside_refl f(1)]) auto
  then have 3: "same_outside [(dta, length data), (?p, 4)] m m'"
    unfolding assms(4) poke32_def by (rule same_outside_poke [of _ _ _ _ _ ?p 4]) (use f in auto)
  from 1 2 3 show ?thesis by (simp add: transferred_def)
qed

lemma al_readfil_file:
  assumes "serves_reads rpc (comport (glob_data s)) hid F P" "P (link s)"
    and "length (glob_req_payload s) = 512" "length (glob_rep_payload s) = 512"
    and "sft = (es (glob_intregs s), di (glob_intregs s))"
    and "io_layout (mem s) (glob_sdaptr s) sft dta n" "n = unat (cx (glob_intregs s))"
    and "peek16 (mem s) (fadd sft SFT_OPEN_MODE) AND 1 = 0"
    and "ucast (peek16 (mem s) (fadd sft SFT_START_SECTOR)) = hid"
    and "unat (peek32 (mem s) (fadd sft SFT_FILE_POS)) + n < 2 ^ 32"
    and "data = take n (drop (unat (peek32 (mem s) (fadd sft SFT_FILE_POS))) F)"
  shows "\<exists>s'. al_readfil rpc rst s = Some s' \<and> P (link s') \<and>
    glob_intregs s' = (glob_intregs s)\<lparr>cx := of_nat (length data)\<rparr> \<and>
    transferred sft dta data (mem s) (mem s')"
proof (cases "cx (glob_intregs s) = 0")
  case True
  then have "data = []" using assms(7,11) by simp
  then have "transferred sft dta data (mem s) (mem s)" by (simp add: transferred_def peek_bytes_def)
  with True \<open>data = []\<close> assms(2,5,8) show ?thesis by (simp add: al_readfil_def Let_def)
next
  case False
  then have n: "0 < n" "n < 65536" using assms(7) u16_less [of "cx (glob_intregs s)"]
    by (auto simp: unat_gt_0)
  have dl: "length data \<le> n" using assms(11) by simp
  obtain l' b b' where r: "P l'" "read_loop rpc sft rst (of_nat 0) s =
      Some (read_finish sft (of_nat (length data))
      (s\<lparr>glob_req_payload := b, link := l', glob_rep_payload := b', mem := poke_bytes (mem s) dta data\<rparr>))"
    using read_loop_file [OF assms(1-4,6,7,9-11), where t = 0 and rst = rst] n that by auto
  let ?m' = "poke32 (poke_bytes (mem s) dta data) (fadd sft SFT_FILE_POS)
      (peek32 (mem s) (fadd sft SFT_FILE_POS) + of_nat (length data))"
  have "ucast (of_nat (length data) :: u16) = (of_nat (length data) :: u32)"
    using dl n by (simp add: word_unat_eq_iff u16_of_nat u32_of_nat)
  then have fin: "mem (read_finish sft (of_nat (length data)) (s\<lparr>glob_req_payload := b, link := l',
      glob_rep_payload := b', mem := poke_bytes (mem s) dta data\<rparr>)) = ?m'"
    using io_layout_stable(3) [OF assms(6) dl refl, of SFT_FILE_POS] by (simp add: read_finish_def)
  show ?thesis
    using r False assms(5,8) transferredI [OF assms(6) dl n(2) refl] fin
    by (simp add: al_readfil_def Let_def) (simp add: read_finish_def)
qed

section \<open>Writing\<close>

text \<open>
  A server that appends the data of every WRITE request of at most 511 bytes to what it holds
  under the handle, \<open>content\<close> of the link state.
\<close>

definition serves_writes ::
  "'l rpc_fun \<Rightarrow> u16 \<Rightarrow> byte \<Rightarrow> ('l \<Rightarrow> byte list) \<Rightarrow> ('l \<Rightarrow> bool) \<Rightarrow> bool" where
  "serves_writes rpc port hid content P \<longleftrightarrow>
     (\<forall>l bs. P l \<longrightarrow> length bs \<le> 511 \<longrightarrow>
        (\<exists>l' rp. P l' \<and> content l' = content l @ bs \<and> length rp \<le> 512 \<and>
           answers rpc port CMD_WRITE (hid # bs) l (SERRPC_OK STATUS_OK rp, l')))"

text \<open>The file table entry after \<open>w\<close> bytes: position and size, and nothing else changed.\<close>

definition sft_after :: "fp \<Rightarrow> nat \<Rightarrow> memory \<Rightarrow> memory \<Rightarrow> bool" where
  "sft_after sft w m m' \<longleftrightarrow>
     peek32 m' (fadd sft SFT_FILE_POS) = peek32 m (fadd sft SFT_FILE_POS) + of_nat w \<and>
     peek32 m' (fadd sft SFT_FILE_SIZE) =
       (if w = 0 then peek32 m (fadd sft SFT_FILE_SIZE)
        else max (peek32 m (fadd sft SFT_FILE_SIZE)) (peek32 m (fadd sft SFT_FILE_POS) + of_nat w)) \<and>
     same_outside [(fadd sft SFT_FILE_SIZE, 8)] m m'"

lemma sft_after_0 [simp]: "sft_after sft 0 m m"
  by (simp add: sft_after_def)

lemma max_grow: "(p :: u32) + of_nat w \<le> p + of_nat w + of_nat c \<Longrightarrow>
   max (max z (p + of_nat w)) (p + of_nat w + of_nat c) = max z (p + of_nat w + of_nat c)"
  by (simp add: max.assoc max_absorb2)

lemma sft_after_advance:
  assumes "sft_after sft w m (mem s)" "fits sft 43"
    and "unat (peek32 m (fadd sft SFT_FILE_POS)) + (w + unat c) < 2 ^ 32" "0 < unat c"
  shows "sft_after sft (w + unat c) m (mem (write_advance sft c s))"
proof -
  let ?p = "fadd sft SFT_FILE_POS" and ?z = "fadd sft SFT_FILE_SIZE"
  define m1 where "m1 = poke32 (mem s) ?p (peek32 (mem s) ?p + ucast c)"
  have f: "fits ?p 4" "fits ?z 4" "lin ?p = lin sft + 21" "lin ?z = lin sft + 17"
    using assms(2) fits_fadd [of sft 43 SFT_FILE_POS 4] fits_fadd [of sft 43 SFT_FILE_SIZE 4]
    by (simp_all add: lin_fadd [of sft 43])
  have uc: "(ucast c :: u32) = of_nat (unat c)" using u16_less [of c] by (simp add: word_unat_eq_iff u32_of_nat)
  have ap: "apart ?z 4 ?p (length (le32 x))" "apart ?p 4 ?z (length (le32 x))" for x
    using f by (auto simp: apart_def)
  have "peek32 (mem s) ?p = peek32 m ?p + of_nat w" using assms(1) by (simp add: sft_after_def)
  then have p1: "peek32 m1 ?p = peek32 m ?p + of_nat (w + unat c)"
    unfolding m1_def peek32_poke32 [OF f(1)] uc by simp
  have z1: "peek32 m1 ?z = peek32 (mem s) ?z"
    using f ap unfolding m1_def poke32_def by (intro peek32_poke_apart) auto
  have o1: "same_outside [(?z, 8)] m m1"
    using assms(1) f unfolding m1_def poke32_def
    by (intro same_outside_poke [of _ _ _ _ _ ?z 8]) (auto simp: sft_after_def)
  define m2 where "m2 = (if peek32 m1 ?p > peek32 m1 ?z then poke32 m1 ?z (peek32 m1 ?p) else m1)"
  have m2: "mem (write_advance sft c s) = m2"
    by (simp add: write_advance_def m2_def m1_def)
  have p2: "peek32 m2 ?p = peek32 m1 ?p"
  proof -
    have "peek32 (poke32 m1 ?z (peek32 m1 ?p)) ?p = peek32 m1 ?p"
      unfolding poke32_def by (rule peek32_poke_apart) (use f ap in auto)
    then show ?thesis by (simp add: m2_def)
  qed
  have z2: "peek32 m2 ?z = max (peek32 m1 ?z) (peek32 m1 ?p)"
    using f by (auto simp: m2_def peek32_poke32 max_def)
  have o2: "same_outside [(?z, 8)] m m2"
  proof -
    have "same_outside [(?z, 8)] m (poke32 m1 ?z (peek32 m1 ?p))"
      unfolding poke32_def by (rule same_outside_poke [OF o1, of _ _ ?z 8]) (use f in auto)
    with o1 show ?thesis by (simp add: m2_def)
  qed
  have "peek32 m ?p + of_nat w \<le> peek32 m ?p + of_nat w + of_nat (unat c)"
  proof -
    have "unat (peek32 m ?p + of_nat w) = unat (peek32 m ?p) + w"
      "unat (peek32 m ?p + of_nat w + of_nat (unat c)) = unat (peek32 m ?p) + w + unat c"
      using assms(3) by (simp_all add: unat_word_ariths u32_of_nat)
    then show ?thesis by (simp add: word_le_nat_alt)
  qed
  then have "peek32 m2 ?z = max (peek32 m ?z) (peek32 m ?p + of_nat (w + unat c))"
    using assms(1) max_grow [of "peek32 m ?p" w "unat c" "peek32 m ?z"]
    unfolding z2 z1 p1 by (auto simp: sft_after_def add.assoc)
  with p2 p1 o2 assms(4) show ?thesis
    unfolding m2 sft_after_def by simp
qed

lemma sft_after_stable:
  assumes "sft_after sft w m m'" "io_layout m sdap sft dta n" "n \<le> 65536"
  shows "peek_fp m' (fadd sdap SDA_CURR_DTA) = dta"
    "peek16 m' (fadd sft SFT_START_SECTOR) = peek16 m (fadd sft SFT_START_SECTOR)"
    "peek_bytes m' dta n = peek_bytes m dta n"
proof -
  let ?z = "fadd sft SFT_FILE_SIZE"
  from assms(1) have o: "same_outside [(?z, 8)] m m'" by (simp add: sft_after_def)
  have f: "fits sft 43" "fits dta n" "fits (fadd sdap SDA_CURR_DTA) 4" "fits (fadd sft SFT_START_SECTOR) 2"
    "lin ?z = lin sft + 17" "lin (fadd sft SFT_START_SECTOR) = lin sft + 11"
    using assms(2) fits_fadd [of sft 43 SFT_START_SECTOR 2]
    by (auto simp: io_layout_def lin_fadd [of sft 43])
  have ap: "apart dta n ?z 8" "apart (fadd sdap SDA_CURR_DTA) 4 ?z 8" "apart (fadd sft SFT_START_SECTOR) 2 ?z 8"
    using assms(2) f by (auto simp: io_layout_def apart_def)
  show "peek_fp m' (fadd sdap SDA_CURR_DTA) = dta"
    using peek_fp_same [OF o f(3)] ap assms(2) by (simp add: io_layout_def)
  show "peek16 m' (fadd sft SFT_START_SECTOR) = peek16 m (fadd sft SFT_START_SECTOR)"
    using peek16_same [OF o f(4)] ap by simp
  show "peek_bytes m' dta n = peek_bytes m dta n"
    using peek_bytes_same [OF o f(2) assms(3)] ap by simp
qed

lemma write_chunk_unat:
  assumes "w \<le> unat n"
  shows "unat (write_chunk n (of_nat w)) = min 511 (unat n - w)"
proof -
  have "w < 65536" using assms u16_less [of n] by linarith
  then have "unat (n - of_nat w) = unat n - w"
    using assms by (subst unat_sub) (simp_all add: word_le_nat_alt u16_of_nat)
  then show ?thesis by (auto simp: write_chunk_def Let_def word_less_nat_alt)
qed

lemma write_turn:
  assumes "serves_writes rpc (comport (glob_data s)) hid content P" "P (link s)"
    and "length (glob_req_payload s) = 512" "length (glob_rep_payload s) = 512"
    and "io_layout m (glob_sdaptr s) sft dta n" "n = unat towrite"
    and "ucast (peek16 m (fadd sft SFT_START_SECTOR)) = hid"
    and "sft_after sft w m (mem s)" "w < n" "c = write_chunk towrite (of_nat w)"
  shows "\<exists>l' b b'. P l' \<and> content l' = content (link s) @ take (unat c) (drop w (peek_bytes m dta n)) \<and>
    length b = 512 \<and> length b' = 512 \<and> (\<exists>k. call_req rpc CMD_WRITE (1 + unat c) rst (write_request sft (of_nat w) c s) =
      Some (True, STATUS_OK, k, s\<lparr>glob_req_payload := b, link := l', glob_rep_payload := b'\<rparr>))"
proof -
  let ?bs = "take (unat c) (drop w (peek_bytes m dta n))"
  have n: "n \<le> 65536" using assms(6) u16_less [of towrite] by linarith
  note st = sft_after_stable [OF assms(8,5) n]
  have c: "unat c = min 511 (n - w)" using assms(6,9,10) by (simp add: write_chunk_unat)
  have bs: "peek_bytes (mem s) (fadd dta (of_nat w)) (unat c) = ?bs"
    using c assms(9) st(3) by (subst peek_bytes_sub [of w _ n]) auto
  have lbs: "length ?bs = unat c" "unat c \<le> 511" using c assms(9) by auto
  let ?b = "glob_req_payload (write_request sft (of_nat w) c s)"
  have b: "take (1 + unat c) ?b = hid # ?bs"
    using lbs assms(3,7) st(1,2) bs
    by (cases "glob_req_payload s") (auto simp: write_request_def copy_at_eq)
  from assms(1,2) lbs obtain l' rp where l': "P l'" "content l' = content (link s) @ ?bs" "length rp \<le> 512"
    "answers rpc (comport (glob_data s)) CMD_WRITE (hid # ?bs) (link s) (SERRPC_OK STATUS_OK rp, l')"
    unfolding serves_writes_def by metis
  have "call_req rpc CMD_WRITE (1 + unat c) rst (write_request sft (of_nat w) c s) =
      Some (True, STATUS_OK, length rp, (write_request sft (of_nat w) c s)
        \<lparr>link := l', glob_rep_payload := rep_after rp (write_request sft (of_nat w) c s)\<rparr>)"
    using b l'(4) lbs assms(3)
    by (intro call_rpc_ok [where req = "hid # ?bs"]) (simp_all add: write_request_def)
  then show ?thesis
    using l' assms(3,4)
    by (intro exI [of _ l'] exI [of _ ?b] exI [of _ "rep_after rp s"])
      (simp add: write_request_def rep_after_def)
qed

lemma write_loop_file:
  assumes "serves_writes rpc (comport (glob_data s)) hid content P" "P (link s)"
    and "length (glob_req_payload s) = 512" "length (glob_rep_payload s) = 512"
    and "io_layout m (glob_sdaptr s) sft dta n" "n = unat towrite"
    and "ucast (peek16 m (fadd sft SFT_START_SECTOR)) = hid"
    and "unat (peek32 m (fadd sft SFT_FILE_POS)) + n < 2 ^ 32"
    and "sft_after sft w m (mem s)" "w \<le> n"
  shows "\<exists>l' b b' m'. write_loop rpc sft towrite rst (of_nat w) s =
      Some (towrite, s\<lparr>glob_req_payload := b, link := l', glob_rep_payload := b', mem := m'\<rparr>) \<and>
    P l' \<and> content l' = content (link s) @ drop w (peek_bytes m dta n) \<and> sft_after sft n m m'"
  using assms(1-4,5,9,10)
proof (induction "n - w" arbitrary: s w rst rule: less_induct)
  case less
  have n: "n < 65536" using assms(6) by simp
  have w: "unat (of_nat w :: u16) = w" using less(8) n by (intro u16_of_nat) simp
  show ?case
  proof (cases "w < n")
    case False
    then have "w = n" using less(8) by simp
    then have "write_loop rpc sft towrite rst (of_nat w) s = Some (towrite, s\<lparr>glob_req_payload := glob_req_payload s,
        link := link s, glob_rep_payload := glob_rep_payload s, mem := mem s\<rparr>)"
      using assms(6) by (subst write_loop.simps) simp
    moreover have "content (link s) = content (link s) @ drop w (peek_bytes m dta n)"
      using \<open>w = n\<close> by simp
    ultimately show ?thesis using less(3,7) \<open>w = n\<close> by blast
  next
    case True
    define c where "c = write_chunk towrite (of_nat w)"
    obtain l' b b' k where l': "P l'" "content l' = content (link s) @ take (unat c) (drop w (peek_bytes m dta n))"
      "length b = 512" "length b' = 512"
      and call: "call_req rpc CMD_WRITE (1 + unat c) rst (write_request sft (of_nat w) c s) =
        Some (True, STATUS_OK, k, s\<lparr>glob_req_payload := b, link := l', glob_rep_payload := b'\<rparr>)"
      using write_turn [OF less(2-6) assms(6,7) less(7) True c_def] by blast
    have c: "unat c = min 511 (n - w)" using assms(6) True by (simp add: c_def write_chunk_unat)
    let ?s0 = "s\<lparr>glob_req_payload := b, link := l', glob_rep_payload := b'\<rparr>"
    define m1 where "m1 = mem (write_advance sft c ?s0)"
    define s1 where "s1 = ?s0\<lparr>mem := m1\<rparr>"
    have adv: "write_advance sft c ?s0 = s1"
      by (simp add: write_advance_def Let_def s1_def m1_def)
    have "sft_after sft w m (mem ?s0)" using less(7) by simp
    then have "sft_after sft (w + unat c) m m1"
      unfolding m1_def
    proof (rule sft_after_advance)
      show "fits sft 43" using less(6) by (simp add: io_layout_def)
      show "unat (peek32 m (fadd sft SFT_FILE_POS)) + (w + unat c) < 2 ^ 32" "0 < unat c"
        using True assms(8) c by auto
    qed
    then have aft: "sft_after sft (w + unat c) m (mem s1)" by (simp add: s1_def)
    have s1: "P (link s1)" "length (glob_req_payload s1) = 512" "length (glob_rep_payload s1) = 512"
      "glob_data s1 = glob_data s" "glob_sdaptr s1 = glob_sdaptr s"
      "content (link s1) = content (link s) @ take (unat c) (drop w (peek_bytes m dta n))"
      using l' by (simp_all add: s1_def)
    have lt: "n - (w + unat c) < n - w" "w + unat c \<le> n" using c True by auto
    obtain l'' b2 b2' m' where r: "write_loop rpc sft towrite STATUS_OK (of_nat (w + unat c)) s1 =
        Some (towrite, s1\<lparr>glob_req_payload := b2, link := l'', glob_rep_payload := b2', mem := m'\<rparr>)"
      "P l''" "content l'' = content (link s1) @ drop (w + unat c) (peek_bytes m dta n)" "sft_after sft n m m'"
      using less(1) [OF lt(1), of s1 STATUS_OK] less(2,6) s1 aft lt(2) by metis
    have ww: "of_nat w + c = of_nat (w + unat c)" by simp
    have lt16: "of_nat w < towrite" using True assms(6) w by (simp add: word_less_nat_alt)
    have "write_loop rpc sft towrite rst (of_nat w) s =
        write_loop rpc sft towrite STATUS_OK (of_nat (w + unat c)) s1"
      using call lt16 by (subst write_loop.simps) (simp add: Let_def c_def [symmetric] ww adv del: of_nat_add)
    also have "\<dots> = Some (towrite, s\<lparr>glob_req_payload := b2, link := l'', glob_rep_payload := b2', mem := m'\<rparr>)"
      using r(1) by (simp add: s1_def)
    finally have run: "write_loop rpc sft towrite rst (of_nat w) s =
      Some (towrite, s\<lparr>glob_req_payload := b2, link := l'', glob_rep_payload := b2', mem := m'\<rparr>)" .
    have "take (unat c) (drop w (peek_bytes m dta n)) @ drop (w + unat c) (peek_bytes m dta n) =
        drop w (peek_bytes m dta n)"
      by (simp add: add.commute [of w] flip: drop_drop)
    then have "content l'' = content (link s) @ drop w (peek_bytes m dta n)"
      using r(3) s1(6) by simp
    with run r(2,4) show ?thesis by blast
  qed
qed

lemma al_writefil_file:
  assumes "serves_writes rpc (comport (glob_data s)) hid content P" "P (link s)"
    and "length (glob_req_payload s) = 512" "length (glob_rep_payload s) = 512"
    and "sft = (es (glob_intregs s), di (glob_intregs s))"
    and "io_layout (mem s) (glob_sdaptr s) sft dta n" "n = unat (cx (glob_intregs s))"
    and "peek16 (mem s) (fadd sft SFT_OPEN_MODE) AND 1 \<noteq> 0"
    and "ucast (peek16 (mem s) (fadd sft SFT_START_SECTOR)) = hid"
    and "unat (peek32 (mem s) (fadd sft SFT_FILE_POS)) + n < 2 ^ 32"
  shows "\<exists>s'. al_writefil rpc rst s = Some s' \<and> P (link s') \<and> glob_intregs s' = glob_intregs s \<and>
    content (link s') = content (link s) @ peek_bytes (mem s) dta n \<and> sft_after sft n (mem s) (mem s')"
proof (cases "cx (glob_intregs s) = 0")
  case True
  then have "n = 0" using assms(7) by simp
  then have "content (link s) = content (link s) @ peek_bytes (mem s) dta n" "sft_after sft n (mem s) (mem s)"
    by (simp_all add: peek_bytes_def)
  with True assms(2,5,8) show ?thesis by (simp add: al_writefil_def Let_def)
next
  case False
  obtain l' b b' m' where r: "write_loop rpc sft (cx (glob_intregs s)) rst (of_nat 0) s =
      Some (cx (glob_intregs s), s\<lparr>glob_req_payload := b, link := l', glob_rep_payload := b', mem := m'\<rparr>)"
    "P l'" "content l' = content (link s) @ drop 0 (peek_bytes (mem s) dta n)" "sft_after sft n (mem s) m'"
    using write_loop_file [OF assms(1-4,6,7,9,10) sft_after_0, of rst] by blast
  let ?s' = "s\<lparr>glob_req_payload := b, link := l', glob_rep_payload := b', mem := m'\<rparr>"
  have "al_writefil rpc rst s = Some ?s'"
    using False assms(5,8) r(1) by (simp add: al_writefil_def Let_def)
  with r show ?thesis by (intro exI [of _ ?s']) simp
qed

section \<open>Opening\<close>

lemma copybytes_eq:
  "fits d n \<Longrightarrow> fits s n \<Longrightarrow> apart d n s n \<Longrightarrow> copybytes m d s n = poke_bytes m d (peek_bytes m s n)"
proof (induction n arbitrary: m d s)
  case (Suc n)
  have f: "fits (fadd d 1) n" "fits (fadd s 1) n"
    using Suc.prems fits_fadd [of d "Suc n" 1 n] fits_fadd [of s "Suc n" 1 n] by auto
  show ?case
  proof (cases n)
    case 0
    then show ?thesis by (simp add: peek_bytes_def)
  next
    case (Suc k)
    have l: "lin (fadd d 1) = lin d + 1" "lin (fadd s 1) = lin s + 1"
      using Suc.prems Suc by (simp_all add: lin_fadd [of d "Suc n"] lin_fadd [of s "Suc n"])
    have "apart (fadd d 1) n (fadd s 1) n" using Suc.prems(3) l by (auto simp: apart_def)
    moreover have "peek_bytes (poke8 m d (peek8 m s)) (fadd s 1) n = peek_bytes m (fadd s 1) n"
      unfolding poke8_eq
      by (rule peek_poke_bytes_apart)
        (use Suc.prems f l in \<open>auto simp: apart_def fits_def intro: fits_mono\<close>)
    moreover have "peek_bytes m s (Suc n) = peek8 m s # peek_bytes m (fadd s 1) n"
      by (simp add: peek_bytes_def upt_conv_Cons map_Suc_upt [symmetric] del: upt_Suc)
    ultimately show ?thesis using Suc.IH [OF f] by simp
  qed
qed (simp add: peek_bytes_def)

text \<open>
  What the opening functions leave in the file table entry, all of its fields behind the handle
  count, which is not theirs.
\<close>

definition sft_opened ::
  "fp \<Rightarrow> byte \<Rightarrow> byte \<Rightarrow> byte \<Rightarrow> byte list \<Rightarrow> byte list \<Rightarrow> memory \<Rightarrow> memory \<Rightarrow> bool" where
  "sft_opened sft hid drv om rep name m m' \<longleftrightarrow>
     peek8 m' (fadd sft SFT_FILE_ATTR) = rep ! 0 \<and>
     peek16 m' (fadd sft SFT_DEV_INFO) = 0x8040 OR ucast drv \<and>
     peek_fp m' (fadd sft SFT_DEV_DRVR) = NULL \<and>
     peek16 m' (fadd sft SFT_START_SECTOR) = ucast hid \<and>
     peek32 m' (fadd sft SFT_FILE_SIZE) = get32 rep 1 \<and>
     peek32 m' (fadd sft SFT_FILE_TIME) = push_bit 16 (ucast (get16 rep 5)) OR ucast (get16 rep 7) \<and>
     peek32 m' (fadd sft SFT_FILE_POS) = 0 \<and>
     peek16 m' (fadd sft SFT_OPEN_MODE) = (peek16 m (fadd sft SFT_OPEN_MODE) AND 0xFF00) OR ucast om \<and>
     peek16 m' (fadd sft SFT_REL_SECTOR) = 0xFFFF \<and>
     peek16 m' (fadd sft SFT_ABS_SECTOR) = 0xFFFF \<and>
     peek16 m' (fadd sft SFT_DIR_SECTOR) = 0 \<and>
     peek8 m' (fadd sft SFT_DIR_ENTRY_NO) = 0xFF \<and>
     peek_bytes m' (fadd sft SFT_FILE_NAME) 11 = name \<and>
     same_outside [(fadd sft SFT_OPEN_MODE, 41)] m m'"

lemma sft_lin:
  "fits sft 43 \<Longrightarrow> unat k < 43 \<Longrightarrow> lin (fadd sft k) = lin sft + unat k"
  by (rule lin_fadd)

lemmas field_access = peek8_def peek16_def peek32_def peek_fp_def poke8_def poke16_def poke32_def
  poke_fp_def le16_def le32_def

text \<open>The stores before the file name, read back field by field.\<close>

definition sft_stores :: "fp \<Rightarrow> byte \<Rightarrow> byte \<Rightarrow> byte \<Rightarrow> byte list \<Rightarrow> memory \<Rightarrow> memory" where
  "sft_stores sft hid drv om rep m =
     (let m = poke8 m (fadd sft SFT_FILE_ATTR) (rep ! 0);
          m = poke16 m (fadd sft SFT_DEV_INFO) (0x8040 OR ucast drv);
          m = poke_fp m (fadd sft SFT_DEV_DRVR) NULL;
          m = poke16 m (fadd sft SFT_START_SECTOR) (ucast hid);
          m = poke32 m (fadd sft SFT_FILE_SIZE) (get32 rep 1);
          m = poke32 m (fadd sft SFT_FILE_TIME) (push_bit 16 (ucast (get16 rep 5)) OR ucast (get16 rep 7));
          m = poke32 m (fadd sft SFT_FILE_POS) 0;
          m = poke16 m (fadd sft SFT_OPEN_MODE) (peek16 m (fadd sft SFT_OPEN_MODE) AND 0xFF00);
          m = poke16 m (fadd sft SFT_OPEN_MODE) (peek16 m (fadd sft SFT_OPEN_MODE) OR ucast om);
          m = poke16 m (fadd sft SFT_REL_SECTOR) 0xFFFF;
          m = poke16 m (fadd sft SFT_ABS_SECTOR) 0xFFFF;
          m = poke16 m (fadd sft SFT_DIR_SECTOR) 0
      in poke8 m (fadd sft SFT_DIR_ENTRY_NO) 0xFF)"

lemma get_le_0 [simp]: "get_le16 0 0 = 0" "get_le32 0 0 0 0 = 0"
  by (simp_all add: get_le16_def get_le32_def)

lemma get_le_FFFF: "get_le16 0xFFFF 0xFF = 0xFFFF"
  by (simp add: get_le16_def)

lemma sft_stores_read:
  assumes "fits sft 43" "m' = sft_stores sft hid drv om rep m"
  shows "peek8 m' (fadd sft SFT_FILE_ATTR) = rep ! 0"
    "peek16 m' (fadd sft SFT_DEV_INFO) = 0x8040 OR ucast drv"
    "peek16 m' (fadd sft SFT_DEV_DRVR) = 0" "peek16 m' (fadd sft 9) = 0"
    "peek16 m' (fadd sft SFT_START_SECTOR) = ucast hid"
    "peek32 m' (fadd sft SFT_FILE_SIZE) = get32 rep 1"
    "peek32 m' (fadd sft SFT_FILE_TIME) = push_bit 16 (ucast (get16 rep 5)) OR ucast (get16 rep 7)"
    "peek32 m' (fadd sft SFT_FILE_POS) = 0"
    "peek16 m' (fadd sft SFT_REL_SECTOR) = 0xFFFF" "peek16 m' (fadd sft SFT_ABS_SECTOR) = 0xFFFF"
    "peek16 m' (fadd sft SFT_DIR_SECTOR) = 0" "peek8 m' (fadd sft SFT_DIR_ENTRY_NO) = 0xFF"
  unfolding assms(2) sft_stores_def Let_def
  by (simp_all add: field_access get_le_FFFF sft_lin [OF assms(1)] del: drop_bit_or drop_bit_and)

lemma sft_stores_mode:
  assumes "fits sft 43"
  shows "peek16 (sft_stores sft hid drv om rep m) (fadd sft SFT_OPEN_MODE) =
    (peek16 m (fadd sft SFT_OPEN_MODE) AND 0xFF00) OR ucast om"
  unfolding sft_stores_def Let_def
  by (simp add: field_access sft_lin [OF assms] del: drop_bit_or drop_bit_and)

lemma sft_stores_outside:
  assumes "fits sft 43"
  shows "same_outside [(fadd sft SFT_OPEN_MODE, 41)] m (sft_stores sft hid drv om rep m)"
  unfolding sft_stores_def Let_def same_outside_def
  by (simp add: field_access sft_lin [OF assms] del: drop_bit_or drop_bit_and)

definition open_layout :: "'l tsr \<Rightarrow> fp \<Rightarrow> bool" where
  "open_layout s sft \<longleftrightarrow> fits sft 43 \<and> fits (sda s SDA_FCB_FN1) 11 \<and> apart sft 43 (sda s SDA_FCB_FN1) 11"

lemma sft_fill_opened:
  assumes "open_layout s sft"
  shows "sft_opened sft hid (glob_reqdrv s) om (glob_rep_payload s) (peek_bytes (mem s) (sda s SDA_FCB_FN1) 11)
      (mem s) (mem (sft_fill sft hid om s))"
proof -
  from assms have f: "fits sft 43" "fits (sda s SDA_FCB_FN1) 11" "apart sft 43 (sda s SDA_FCB_FN1) 11"
    by (auto simp: open_layout_def)
  let ?n = "fadd sft SFT_FILE_NAME"
  define m1 where "m1 = sft_stores sft hid (glob_reqdrv s) om (glob_rep_payload s) (mem s)"
  have l: "unat k < 43 \<Longrightarrow> lin (fadd sft k) = lin sft + unat k" for k by (rule sft_lin [OF f(1)])
  have o1: "same_outside [(fadd sft SFT_OPEN_MODE, 41)] (mem s) m1"
    unfolding m1_def by (rule sft_stores_outside [OF f(1)])
  have fn: "fits ?n 11" using f(1) by (intro fits_fadd [of sft 43]) auto
  have "mem (sft_fill sft hid om s) = copybytes m1 ?n (sda s SDA_FCB_FN1) 11"
    by (simp add: sft_fill_def sft_stores_def m1_def Let_def)
  also have "\<dots> = poke_bytes m1 ?n (peek_bytes m1 (sda s SDA_FCB_FN1) 11)"
    using f l [of SFT_FILE_NAME] fn by (intro copybytes_eq) (auto simp: apart_def)
  also have "peek_bytes m1 (sda s SDA_FCB_FN1) 11 = peek_bytes (mem s) (sda s SDA_FCB_FN1) 11"
    using f l [of SFT_OPEN_MODE] by (intro peek_bytes_same [OF o1]) (auto simp: apart_def)
  finally have m': "mem (sft_fill sft hid om s) = poke_bytes m1 ?n (peek_bytes (mem s) (sda s SDA_FCB_FN1) 11)" .
  let ?bs = "peek_bytes (mem s) (sda s SDA_FCB_FN1) 11"
  have keep8: "peek8 (poke_bytes m1 ?n ?bs) (fadd sft k) = peek8 m1 (fadd sft k)" if "unat k < 32" for k
    using that fn l [of k] l [of SFT_FILE_NAME] by (intro peek8_poke_apart) (auto simp: apart_def)
  have keep16: "peek16 (poke_bytes m1 ?n ?bs) (fadd sft k) = peek16 m1 (fadd sft k)" if "unat k + 2 \<le> 32" for k
    using that fn f(1) l [of k] l [of SFT_FILE_NAME]
    by (intro peek16_poke_apart) (auto simp: apart_def intro: fits_fadd [of sft 43])
  have keep32: "peek32 (poke_bytes m1 ?n ?bs) (fadd sft k) = peek32 m1 (fadd sft k)" if "unat k + 4 \<le> 32" for k
    using that fn f(1) l [of k] l [of SFT_FILE_NAME]
    by (intro peek32_poke_apart) (auto simp: apart_def intro: fits_fadd [of sft 43])
  have "same_outside [(fadd sft SFT_OPEN_MODE, 41)] (mem s) (poke_bytes m1 ?n ?bs)"
    using fn l [of SFT_FILE_NAME] l [of SFT_OPEN_MODE]
    by (intro same_outside_poke [OF o1, of _ _ "fadd sft SFT_OPEN_MODE" 41]) auto
  moreover have "peek_bytes (poke_bytes m1 ?n ?bs) ?n 11 = ?bs"
    using peek_poke_bytes_same [of ?n ?bs m1] fn by simp
  moreover have "peek16 m1 (fadd sft SFT_OPEN_MODE) =
      (peek16 (mem s) (fadd sft SFT_OPEN_MODE) AND 0xFF00) OR ucast om"
    unfolding m1_def by (rule sft_stores_mode [OF f(1)])
  ultimately show ?thesis
    unfolding m' sft_opened_def peek_fp_def
    by (simp add: keep8 keep16 keep32 sft_stores_read [OF f(1) m1_def])
qed

lemma sft_opened_reply:
  assumes "sft_opened sft hid drv om (rp @ rest) name m m'" "9 \<le> length rp"
  shows "sft_opened sft hid drv om rp name m m'"
proof -
  have "(rp @ rest) ! i = rp ! i" if "i < 9" for i using that assms(2) by (simp add: nth_append)
  then have "get32 (rp @ rest) 1 = get32 rp 1" "get16 (rp @ rest) 5 = get16 rp 5"
      "get16 (rp @ rest) 7 = get16 rp 7" "(rp @ rest) ! 0 = rp ! 0"
    by (simp_all add: get32_def get16_def)
  with assms(1) show ?thesis by (simp add: sft_opened_def)
qed

lemma path_at_after [simp]:
  "path_at s bs \<Longrightarrow> path_at (s\<lparr>glob_req_payload := path_req b bs @ drop (length bs) (glob_req_payload s),
     link := l', glob_rep_payload := rep_after rp s\<rparr>) bs"
  by (auto simp: path_at_def rep_after_def)

lemma attr_and_fill_ok:
  assumes "path_at s bs" "open_layout s sft"
    and "answers rpc (comport (glob_data s)) CMD_GET_ATTR (path_req 0 bs) (link s) (SERRPC_OK STATUS_OK rp, l')"
    and "9 \<le> length rp" "length rp \<le> 512"
  shows "\<exists>s'. attr_and_fill rpc sft hid om rst s = Some s' \<and> link s' = l' \<and>
    glob_intregs s' = glob_intregs s \<and>
    sft_opened sft hid (glob_reqdrv s) om rp (peek_bytes (mem s) (sda s SDA_FCB_FN1) 11) (mem s) (mem s')"
proof -
  let ?s1 = "s\<lparr>glob_req_payload := path_req 0 bs @ drop (length bs) (glob_req_payload s),
    link := l', glob_rep_payload := rep_after rp s\<rparr>"
  have "rep_after rp s = rp @ drop (length rp) (glob_rep_payload s)"
    using assms(1,5) by (intro rep_after_eq) (auto simp: path_at_def)
  then have "sft_opened sft hid (glob_reqdrv s) om rp (peek_bytes (mem s) (sda s SDA_FCB_FN1) 11) (mem s)
      (mem (sft_fill sft hid om ?s1))"
    using sft_fill_opened [of ?s1 sft hid om] assms(2,4) sft_opened_reply
    by (simp add: open_layout_def)
  moreover have "attr_and_fill rpc sft hid om rst s = Some (sft_fill sft hid om ?s1)"
    using assms(4) by (simp add: attr_and_fill_def path_call [OF assms(1,3)])
  ultimately show ?thesis
    by (intro exI [of _ "sft_fill sft hid om ?s1"]) (simp add: sft_fill_def Let_def)
qed

text \<open>
  When the attributes cannot be had, because the call is lost, the status is a failure or the reply
  is too short, the handle is closed again and memory is untouched.
\<close>

definition attr_failed :: "rpc_result \<Rightarrow> bool" where
  "attr_failed r \<longleftrightarrow> (case r of SERRPC_OK st rp \<Rightarrow> st \<noteq> STATUS_OK \<or> length rp < 9 | _ \<Rightarrow> True)"

lemma path_call_failed:
  assumes "path_at s bs" "answers rpc (comport (glob_data s)) cmd (path_req b bs) (link s) (r, l')" "attr_failed r"
  shows "\<exists>ok st n s'. (case path_request b s of (plen, s) \<Rightarrow> call_req rpc cmd plen rst s \<bind> f) = f (ok, st, n, s') \<and>
    link s' = l' \<and> mem s' = mem s \<and> glob_data s' = glob_data s \<and> (\<not> ok \<or> st \<noteq> STATUS_OK \<or> n < 9)"
proof -
  let ?s = "s\<lparr>glob_req_payload := path_req b bs @ drop (length bs) (glob_req_payload s)\<rparr>"
  have len: "length (path_req b bs) = length bs" "length bs \<le> 512"
    using assms(1) by (auto simp: path_at_def)
  have "rpc (comport (glob_data s)) cmd (glob_req_payload ?s) (length bs) (link s) = Some (r, l')"
    using assms(2) len by (simp add: answers_def)
  then have "\<exists>ok st n s'. call_req rpc cmd (length bs) rst ?s = Some (ok, st, n, s') \<and>
      link s' = l' \<and> mem s' = mem s \<and> glob_data s' = glob_data s \<and> (\<not> ok \<or> st \<noteq> STATUS_OK \<or> n < 9)"
    using assms(3) by (cases r) (auto simp: call_rpc_def attr_failed_def)
  then obtain ok st n s' where c: "call_req rpc cmd (length bs) rst ?s = Some (ok, st, n, s')"
    and s': "link s' = l'" "mem s' = mem s" "glob_data s' = glob_data s" "\<not> ok \<or> st \<noteq> STATUS_OK \<or> n < 9" by blast
  have "(case path_request b s of (plen, s) \<Rightarrow> call_req rpc cmd plen rst s \<bind> f) = f (ok, st, n, s')"
    unfolding path_request_at [OF assms(1)] prod.case c by simp
  with s' show ?thesis by blast
qed

lemma attr_and_fill_fail:
  assumes "path_at s bs"
    and "answers rpc (comport (glob_data s)) CMD_GET_ATTR (path_req 0 bs) (link s) (ra, l')"
    and "attr_failed ra"
    and "answers rpc (comport (glob_data s)) CMD_CLOSE [hid] l' (r, l'')"
  shows "\<exists>s'. attr_and_fill rpc sft hid om rst s = Some s' \<and> link s' = l'' \<and> mem s' = mem s \<and> reports 2 s'"
proof -
  obtain ok st s1 and n :: nat where
    "attr_and_fill rpc sft hid om rst s = (\<lambda>(ok, rst, replylen, s). if \<not> ok \<or> rst \<noteq> STATUS_OK \<or> replylen < 9
           then do { (_, _, _, s) \<leftarrow> call_rpc rpc CMD_CLOSE [hid] 1 rst s; Some (FAILFLAG 2 s) }
           else Some (sft_fill sft hid om s)) (ok, st, n, s1)"
    and s1: "link s1 = l'" "mem s1 = mem s" "glob_data s1 = glob_data s" "\<not> ok \<or> st \<noteq> STATUS_OK \<or> n < 9"
    using path_call_failed [OF assms(1-3), of rst] unfolding attr_and_fill_def Let_def by blast
  then have eq: "attr_and_fill rpc sft hid om rst s =
      do { (_, _, _, s) \<leftarrow> call_rpc rpc CMD_CLOSE [hid] 1 st s1; Some (FAILFLAG 2 s) }"
    by (simp only: prod.case if_True)
  have "\<exists>s2 ok st' n. call_rpc rpc CMD_CLOSE [hid] 1 st s1 = Some (ok, st', n, s2) \<and> link s2 = l'' \<and> mem s2 = mem s"
    using assms(4) s1 by (cases r) (auto simp: call_rpc_def answers_def)
  then obtain s2 ok' st' n' where "call_rpc rpc CMD_CLOSE [hid] 1 st s1 = Some (ok', st', n', s2)"
    "link s2 = l''" "mem s2 = mem s" by blast
  then show ?thesis by (simp add: eq)
qed

definition no_wildcards :: "byte list \<Rightarrow> bool" where
  "no_wildcards bs \<longleftrightarrow> ch_quest \<notin> set bs \<and> ch_star \<notin> set bs"

lemma no_wildcards_len:
  "path_at s bs \<Longrightarrow> len_if_no_wildcards (mem s) (sda s SDA_FN1) =
     Some (if no_wildcards bs then int (length bs) else -1)"
  using len_if_no_wildcards_cstring [of "mem s" "sda s SDA_FN1" bs]
  by (auto simp: path_at_def no_wildcards_def)

text \<open>The low two bits of the open mode travel as one byte.\<close>

definition sft_om :: "'l tsr \<Rightarrow> fp \<Rightarrow> byte" where
  "sft_om s sft = ucast (peek16 (mem s) (fadd sft SFT_OPEN_MODE) AND 3)"

text \<open>A granted OPEN: what follows is the attribute call, on the state with the reply.\<close>

abbreviation opened_state :: "byte \<Rightarrow> byte list \<Rightarrow> 'l \<Rightarrow> byte list \<Rightarrow> 'l tsr \<Rightarrow> 'l tsr" where
  "opened_state b bs l1 rp s \<equiv> s\<lparr>glob_req_payload := path_req b bs @ drop (length bs) (glob_req_payload s),
     link := l1, glob_rep_payload := rep_after rp s\<rparr>"

lemma al_open_granted:
  assumes "path_at s bs" "no_wildcards bs" "sft = (es (glob_intregs s), di (glob_intregs s))"
    and "answers rpc (comport (glob_data s)) CMD_OPEN (path_req (sft_om s sft) bs) (link s)
           (SERRPC_OK STATUS_OK (hid # rest), l1)" "length rest \<le> 511"
  shows "al_open rpc rst s =
    attr_and_fill rpc sft hid (sft_om s sft) STATUS_OK (opened_state (sft_om s sft) bs l1 (hid # rest) s)"
proof -
  have len: "2 \<le> length bs" using assms(1) by (simp add: path_at_def)
  have h: "rep_after (hid # rest) s ! 0 = hid"
    using assms(1,5) by (simp add: rep_after_eq path_at_def)
  show ?thesis
    using h assms(2,3) len
    by (simp add: al_open_def Let_def no_wildcards_len [OF assms(1)] flip: sft_om_def)
      (simp add: path_call [OF assms(1) assms(4) [unfolded assms(3)]])
qed

lemma al_open_ok:
  assumes "path_at s bs" "no_wildcards bs" "sft = (es (glob_intregs s), di (glob_intregs s))" "open_layout s sft"
    and "answers rpc (comport (glob_data s)) CMD_OPEN (path_req (sft_om s sft) bs) (link s)
           (SERRPC_OK STATUS_OK (hid # rest), l1)"
    and "answers rpc (comport (glob_data s)) CMD_GET_ATTR (path_req 0 bs) l1 (SERRPC_OK STATUS_OK rp, l2)"
    and "length rest \<le> 511" "9 \<le> length rp" "length rp \<le> 512"
  shows "\<exists>s'. al_open rpc rst s = Some s' \<and> link s' = l2 \<and> glob_intregs s' = glob_intregs s \<and>
    sft_opened sft hid (glob_reqdrv s) (sft_om s sft) rp (peek_bytes (mem s) (sda s SDA_FCB_FN1) 11)
      (mem s) (mem s')"
  using attr_and_fill_ok [of "opened_state (sft_om s sft) bs l1 (hid # rest) s" bs sft rpc rp l2 hid "sft_om s sft"
      STATUS_OK] assms
  by (auto simp: open_layout_def al_open_granted [OF assms(1-3) assms(5) assms(7)])

lemma al_open_attr_fail:
  assumes "path_at s bs" "no_wildcards bs" "sft = (es (glob_intregs s), di (glob_intregs s))"
    and "answers rpc (comport (glob_data s)) CMD_OPEN (path_req (sft_om s sft) bs) (link s)
           (SERRPC_OK STATUS_OK (hid # rest), l1)" "length rest \<le> 511"
    and "answers rpc (comport (glob_data s)) CMD_GET_ATTR (path_req 0 bs) l1 (ra, l2)" "attr_failed ra"
    and "answers rpc (comport (glob_data s)) CMD_CLOSE [hid] l2 (r, l3)"
  shows "\<exists>s'. al_open rpc rst s = Some s' \<and> link s' = l3 \<and> mem s' = mem s \<and> reports 2 s'"
  using attr_and_fill_fail [of "opened_state (sft_om s sft) bs l1 (hid # rest) s" bs rpc ra l2 hid r l3 sft
      "sft_om s sft" STATUS_OK] assms
  by (simp add: al_open_granted [OF assms(1-5)])

lemma al_create_ok:
  assumes "path_at s bs" "no_wildcards bs" "sft = (es (glob_intregs s), di (glob_intregs s))" "open_layout s sft"
    and "answers rpc (comport (glob_data s)) CMD_CREATE (path_req 1 bs) (link s)
           (SERRPC_OK STATUS_OK (hid # rest), l1)"
    and "answers rpc (comport (glob_data s)) CMD_GET_ATTR (path_req 0 bs) l1 (SERRPC_OK STATUS_OK rp, l2)"
    and "length rest \<le> 511" "9 \<le> length rp" "length rp \<le> 512"
  shows "\<exists>s'. al_create rpc rst s = Some s' \<and> link s' = l2 \<and> glob_intregs s' = glob_intregs s \<and>
    sft_opened sft hid (glob_reqdrv s) 1 rp (peek_bytes (mem s) (sda s SDA_FCB_FN1) 11) (mem s) (mem s')"
proof -
  let ?s1 = "s\<lparr>glob_req_payload := path_req 1 bs @ drop (length bs) (glob_req_payload s),
    link := l1, glob_rep_payload := rep_after (hid # rest) s\<rparr>"
  have len: "2 \<le> length bs" using assms(1) by (simp add: path_at_def)
  have h: "glob_rep_payload ?s1 ! 0 = hid"
    using assms(1,7) by (simp add: rep_after_eq path_at_def)
  obtain s' where "attr_and_fill rpc sft hid 1 STATUS_OK ?s1 = Some s'" "link s' = l2"
    "glob_intregs s' = glob_intregs s"
    "sft_opened sft hid (glob_reqdrv s) 1 rp (peek_bytes (mem s) (sda s SDA_FCB_FN1) 11) (mem s) (mem s')"
    using attr_and_fill_ok [of ?s1 bs sft rpc rp l2 hid 1 STATUS_OK] assms
    by (auto simp: open_layout_def)
  moreover have "al_create rpc rst s = attr_and_fill rpc sft hid 1 STATUS_OK ?s1"
    using h assms(2,3) len
    by (simp add: al_create_def Let_def no_wildcards_len [OF assms(1)] path_call [OF assms(1,5)])
  ultimately show ?thesis by auto
qed

section \<open>GETATTR\<close>

lemma getattr_spec:
  assumes "reg_al (glob_intregs s) = AL_GETATTR" "path_at s bs" "length rp \<le> 512"
    and "answers rpc (comport (glob_data s)) CMD_GET_ATTR (path_req 0 bs) (link s) (SERRPC_OK st rp, l')"
  shows "\<exists>s'. process2f rpc rst s = Some s' \<and> link s' = l' \<and> mem s' = mem s \<and>
    (if st = STATUS_OK \<and> 9 \<le> length rp
     then glob_intregs s' = (glob_intregs (SUCCESSFLAG s))\<lparr>ax := ucast (rp ! 0), di := get16 rp 1,
        bx := get16 rp 3, dx := get16 rp 5, cx := get16 rp 7\<rparr>
     else reports (if st = STATUS_OK then 2 else dos_err_from_status st) s')"
proof -
  let ?s = "SUCCESSFLAG s"
  have p: "path_at ?s bs" using assms(2) by simp
  obtain n where n: "mystrlen (mem s) (sda s SDA_FN1) = Some n" "\<not> n < 2"
    using path_at_strlen [OF assms(2)] by blast
  have g: "9 \<le> length rp \<Longrightarrow> i \<le> 7 \<Longrightarrow> get16 (rep_after rp s) i = get16 rp i"
    "9 \<le> length rp \<Longrightarrow> rep_after rp s ! 0 = rp ! 0" for i
    using assms(2,3) by (auto simp: rep_after_eq path_at_def get16_def nth_append)
  show ?thesis
    using assms(1) g
    by (simp add: process2f_def Let_def al_getattr_def n
        path_call [OF p, of rpc CMD_GET_ATTR 0 st rp l'] assms(4) rep_after_def)
qed

end
