(* ===== verification/Sdf_Search.thy ===== *)
theory Sdf_Search
  imports Sdf_FileOps
begin

text \<open>
  Directory search. The server lists a directory in pages of 23-byte entries; the resident
  part caches one page and walks it with a cursor that it keeps in the caller's search record.
  The lemmas relate the walk to the whole listing.
\<close>

section \<open>Entries and pages\<close>

definition entry_match :: "memory \<Rightarrow> fp \<Rightarrow> byte \<Rightarrow> byte list \<Rightarrow> bool" where
  "entry_match m tmpl srch_attr e \<longleftrightarrow>
     attr_match (e ! 12) srch_attr \<and> list_all2 tmpl_ok (peek_bytes m tmpl 11) (fcb_of (take 12 e))"

definition page_ok :: "byte list list \<Rightarrow> bool" where
  "page_ok p \<longleftrightarrow> length p \<le> DIR_BATCH_MAX \<and> (\<forall>e \<in> set p. length e = DIR_ENTRY_SIZE)"

definition batch_holds :: "'l tsr \<Rightarrow> byte list list \<Rightarrow> bool" where
  "batch_holds s p \<longleftrightarrow> page_ok p \<and> length (dir_batch s) = 506 \<and>
     unat (dir_batch_count s) = length p \<and> take (23 * length p) (dir_batch s) = concat p"

lemma length_concat_page: "\<forall>e \<in> set p. length e = k \<Longrightarrow> length (concat p) = k * length p"
  by (induction p) simp_all

lemma concat_entry:
  "\<forall>e \<in> set p. length e = k \<Longrightarrow> i < length p \<Longrightarrow> take k (drop (k * i) (concat p)) = p ! i"
proof (induction p arbitrary: i)
  case (Cons e p)
  then show ?case by (cases i) (simp_all add: drop_append)
qed simp

lemma batch_entry:
  assumes "batch_holds s p" "i < length p"
  shows "take 23 (drop (23 * i) (dir_batch s)) = p ! i"
proof -
  have "23 * i + 23 \<le> 23 * length p" using assms(2) by simp
  then have "take 23 (drop (23 * i) (dir_batch s)) = take 23 (drop (23 * i) (take (23 * length p) (dir_batch s)))"
    by (simp add: drop_take min_def)
  also have "\<dots> = p ! i"
    using assms concat_entry [of p 23 i] by (simp add: batch_holds_def page_ok_def)
  finally show ?thesis .
qed

lemma batch_entry_byte:
  assumes "batch_holds s p" "i < length p" "j < 23"
  shows "dir_batch s ! (23 * i + j) = p ! i ! j"
proof -
  have "length (dir_batch s) = 506" "length p \<le> 22" using assms(1) by (auto simp: batch_holds_def page_ok_def)
  then have "23 * i + j < length (dir_batch s)" using assms(2,3) by linarith
  with batch_entry [OF assms(1,2)] assms(3) show ?thesis
    by (metis nth_take nth_drop add_lessD1 less_imp_le_nat)
qed

section \<open>Scanning one page\<close>

lemma scan_loop_page:
  assumes "batch_holds s p" "unat idx \<le> length p"
  shows "scan_loop (mem s) tmpl a (dir_batch s) (dir_batch_count s) idx =
    (case find (\<lambda>i. entry_match (mem s) tmpl a (p ! i)) [unat idx..<length p] of
       None \<Rightarrow> (None, of_nat (length p))
     | Some i \<Rightarrow> (Some (23 * i), of_nat (Suc i)))"
  using assms(2)
proof (induction "length p - unat idx" arbitrary: idx)
  case 0
  then have "unat idx = length p" "\<not> idx < dir_batch_count s" "idx = of_nat (length p)"
    using assms(1) by (auto simp: batch_holds_def word_less_nat_alt)
  then show ?case by (subst scan_loop.simps) simp
next
  case (Suc n)
  have count: "unat (dir_batch_count s) = length p" "length p \<le> 22"
    using assms(1) by (auto simp: batch_holds_def page_ok_def)
  have lt: "unat idx < length p" "idx < dir_batch_count s"
    using Suc(2) count by (auto simp: word_less_nat_alt)
  have nx: "unat (idx + 1) = Suc (unat idx)" by (rule unat_succ_less [OF lt(2)])
  let ?e = "p ! unat idx"
  have e12: "dir_batch s ! (unat idx * 23 + 12) = ?e ! 12"
    using batch_entry_byte [OF assms(1) lt(1), of 12] by (simp add: mult.commute)
  have "length (take 12 (drop (unat idx * 23) (dir_batch s))) = 12"
    using assms(1) lt(1) count by (simp add: batch_holds_def min_def)
  moreover have "take 12 (drop (unat idx * 23) (dir_batch s)) = take 12 ?e"
  proof -
    have "take 12 (take 23 (drop (23 * unat idx) (dir_batch s))) = take 12 ?e"
      by (simp only: batch_entry [OF assms(1) lt(1)])
    then show ?thesis by (simp add: mult.commute)
  qed
  ultimately have fcb: "name83_to_fcb (take 12 (drop (unat idx * 23) (dir_batch s))) = fcb_of (take 12 ?e)"
    by (simp add: name83_to_fcb_eq)
  have IH: "scan_loop (mem s) tmpl a (dir_batch s) (dir_batch_count s) (idx + 1) =
    (case find (\<lambda>i. entry_match (mem s) tmpl a (p ! i)) [Suc (unat idx)..<length p] of
       None \<Rightarrow> (None, of_nat (length p)) | Some i \<Rightarrow> (Some (23 * i), of_nat (Suc i)))"
    using Suc(1) [of "idx + 1"] Suc(2) lt(1) nx by simp
  have s: "(of_nat (Suc (unat idx)) :: byte) = idx + 1" by simp
  have u: "[unat idx..<length p] = unat idx # [Suc (unat idx)..<length p]"
    using lt(1) by (simp add: upt_conv_Cons)
  show ?case
    using lt(2) IH
    by (subst scan_loop.simps)
      (simp add: Let_def e12 fcb fcb_match_iff u s entry_match_def del: of_nat_Suc upt_Suc)
qed

section \<open>The whole listing\<close>

text \<open>
  \<open>serves_pages ... ps l\<close>: from the link state \<open>l\<close> on, LIST_DIR_NEXT requests for the handle
  return the pages \<open>ps\<close>, none of them empty, and the last entry of a page says whether another
  page follows (byte 21).
\<close>

definition says_more :: "byte list list \<Rightarrow> bool" where
  "says_more p \<longleftrightarrow> p \<noteq> [] \<and> last p ! 21 \<noteq> 0"

primrec serves_pages ::
  "'l rpc_fun \<Rightarrow> u16 \<Rightarrow> byte \<Rightarrow> byte list list list \<Rightarrow> 'l \<Rightarrow> bool" where
  "serves_pages rpc port hid [] l \<longleftrightarrow> True"
| "serves_pages rpc port hid (p # ps) l \<longleftrightarrow>
     p \<noteq> [] \<and> page_ok p \<and> (says_more p \<longleftrightarrow> ps \<noteq> []) \<and>
     (\<exists>l'. answers rpc port CMD_LIST_DIR_NEXT [hid] l (SERRPC_OK STATUS_OK (concat p), l') \<and>
        serves_pages rpc port hid ps l')"

text \<open>A search in progress: the cached page, the pages to come and the cursor.\<close>

definition searching ::
  "'l rpc_fun \<Rightarrow> byte list list \<Rightarrow> byte list list list \<Rightarrow> 'l tsr \<Rightarrow> bool" where
  "searching rpc p ps s \<longleftrightarrow> batch_holds s p \<and> unat (dir_batch_idx s) \<le> length p \<and>
     (dir_batch_more s \<noteq> 0 \<longleftrightarrow> ps \<noteq> []) \<and>
     serves_pages rpc (comport (glob_data s)) (dir_hid s) ps (link s) \<and>
     length (glob_req_payload s) = 512 \<and> length (glob_rep_payload s) = 512"

definition remaining :: "byte list list \<Rightarrow> byte list list list \<Rightarrow> 'l tsr \<Rightarrow> byte list list" where
  "remaining p ps s = drop (unat (dir_batch_idx s)) p @ concat ps"

text \<open>What the search leaves alone.\<close>

definition search_frame :: "'l tsr \<Rightarrow> 'l tsr \<Rightarrow> bool" where
  "search_frame s s' \<longleftrightarrow> mem s' = mem s \<and> glob_intregs s' = glob_intregs s \<and> glob_data s' = glob_data s \<and>
     glob_sdaptr s' = glob_sdaptr s \<and> dir_hid s' = dir_hid s \<and> glob_reqdrv s' = glob_reqdrv s"

lemma load_batch_page:
  assumes "page_ok p" "length (dir_batch s) = 506" "length (glob_rep_payload s) = 512"
    and "take (off + 23 * length p) (glob_rep_payload s) = hd_bytes @ concat p" "length hd_bytes = off" "off \<le> 1"
    and "len div 23 = length p"
  shows "batch_holds (load_batch off len s) p"
    "dir_batch_idx (load_batch off len s) = 0"
    "dir_batch_more (load_batch off len s) \<noteq> 0 \<longleftrightarrow> says_more p"
proof -
  have n: "min (len div 23) 22 = length p" "length p \<le> 22" using assms(1,7) by (auto simp: page_ok_def)
  have d: "take (23 * length p) (drop off (glob_rep_payload s)) = concat p"
    using assms(4,5) by (simp add: take_drop add.commute)
  let ?b = "dir_batch (load_batch off len s)"
  have b: "?b = concat p @ drop (23 * length p) (dir_batch s)"
    using n assms(2,3,6) d by (simp add: load_batch_def Let_def copy_at_eq mult.commute)
  show h: "batch_holds (load_batch off len s) p"
    using assms(1,2) n b length_concat_page [of p 23]
    by (simp add: batch_holds_def page_ok_def) (simp add: load_batch_def Let_def byte_of_nat)
  show "dir_batch_idx (load_batch off len s) = 0" by (simp add: load_batch_def Let_def)
  show "dir_batch_more (load_batch off len s) \<noteq> 0 \<longleftrightarrow> says_more p"
  proof (cases "p = []")
    case True
    then show ?thesis using n by (simp add: load_batch_def Let_def says_more_def)
  next
    case False
    have m: "dir_batch_more (load_batch off len s) = ?b ! (23 * (length p - 1) + 21)"
      using n False by (simp add: load_batch_def Let_def mult.commute)
    have "?b ! (23 * (length p - 1) + 21) = p ! (length p - 1) ! 21"
      using False by (intro batch_entry_byte [OF h]) auto
    with m False show ?thesis by (simp add: says_more_def last_conv_nth)
  qed
qed

lemma find_upt:
  "find (\<lambda>i. Q (p ! i)) [k..<length p] = None \<Longrightarrow> \<forall>x \<in> set (drop k p). \<not> Q x"
  by (auto simp: find_None_iff in_set_conv_nth)

lemma find_upt_Some:
  assumes "find (\<lambda>i. Q (p ! i)) [k..<length p] = Some i" "k \<le> length p"
  shows "k \<le> i \<and> i < length p \<and> Q (p ! i) \<and> drop k p = take (i - k) (drop k p) @ p ! i # drop (Suc i) p \<and>
    (\<forall>x \<in> set (take (i - k) (drop k p)). \<not> Q x)"
proof -
  from assms(1) obtain j where j: "j < length [k..<length p]" "Q (p ! ([k..<length p] ! j))"
      "i = [k..<length p] ! j" "\<forall>j'<j. \<not> Q (p ! ([k..<length p] ! j'))"
    by (auto simp: find_Some_iff)
  then have i: "i = k + j" "i < length p" by auto
  have "drop (i - k) (drop k p) = p ! i # drop (Suc i) p"
    using i by (simp add: Cons_nth_drop_Suc add.commute)
  then have "drop k p = take (i - k) (drop k p) @ p ! i # drop (Suc i) p"
    by (metis append_take_drop_id)
  moreover have "\<not> Q x" if "x \<in> set (take (i - k) (drop k p))" for x
    using that i j(1,4) by (auto simp: in_set_conv_nth)
  ultimately show ?thesis using i j by auto
qed

lemma scan_batch_page:
  assumes "batch_holds s p" "unat (dir_batch_idx s) \<le> length p"
  shows "scan_batch tmpl a s =
    (case find (\<lambda>i. entry_match (mem s) tmpl a (p ! i)) [unat (dir_batch_idx s)..<length p] of
       None \<Rightarrow> (None, s\<lparr>dir_batch_idx := of_nat (length p)\<rparr>)
     | Some i \<Rightarrow> (Some (23 * i), s\<lparr>dir_batch_idx := of_nat (Suc i)\<rparr>))"
  using scan_loop_page [OF assms] by (simp add: scan_batch_def split: option.split)

text \<open>
  What the loop returns, in terms of the remaining listing: nothing matches, or \<open>skipped @ e #
  rest\<close> where nothing in \<open>skipped\<close> matches, \<open>e\<close> does, and \<open>rest\<close> is what the search goes on with.
\<close>

definition found_post ::
  "'l rpc_fun \<Rightarrow> fp \<Rightarrow> byte \<Rightarrow> byte list list \<Rightarrow> 'l tsr \<Rightarrow> nat option \<Rightarrow> 'l tsr \<Rightarrow> bool" where
  "found_post rpc tmpl a listing s r s' \<longleftrightarrow> search_frame s s' \<and>
     (case r of
        None \<Rightarrow> \<forall>x \<in> set listing. \<not> entry_match (mem s) tmpl a x
      | Some off \<Rightarrow> \<exists>skipped p' ps' k. off = 23 * k \<and> k < length p' \<and> searching rpc p' ps' s' \<and>
          unat (dir_batch_idx s') = Suc k \<and>
          listing = skipped @ p' ! k # remaining p' ps' s' \<and>
          entry_match (mem s) tmpl a (p' ! k) \<and>
          (\<forall>x \<in> set skipped. \<not> entry_match (mem s) tmpl a x))"

lemma found_postI:
  assumes "search_frame s s'" "k < length p'" "searching rpc p' ps' s'" "unat (dir_batch_idx s') = Suc k"
    and "listing = skipped @ p' ! k # remaining p' ps' s'" "entry_match (mem s) tmpl a (p' ! k)"
    and "\<forall>x \<in> set skipped. \<not> entry_match (mem s) tmpl a x"
  shows "found_post rpc tmpl a listing s (Some (23 * k)) s'"
  unfolding found_post_def option.case using assms by blast

lemma find_loop_hit:
  assumes "searching rpc p ps s"
    and "find (\<lambda>i. entry_match (mem s) tmpl a (p ! i)) [unat (dir_batch_idx s)..<length p] = Some i"
  shows "\<exists>s'. find_loop rpc tmpl a rst s = Some (Some (23 * i), s') \<and>
    found_post rpc tmpl a (remaining p ps s) s (Some (23 * i)) s'"
proof -
  let ?s' = "s\<lparr>dir_batch_idx := of_nat (Suc i)\<rparr>" and ?k = "unat (dir_batch_idx s)"
  have b: "batch_holds s p" "?k \<le> length p" "length p \<le> 22"
    using assms(1) by (auto simp: searching_def batch_holds_def page_ok_def)
  note f = find_upt_Some [OF assms(2) b(2)]
  have u: "unat (of_nat (Suc i) :: byte) = Suc i" using f b(3) by (intro byte_of_nat) auto
  have run: "find_loop rpc tmpl a rst s = Some (Some (23 * i), ?s')"
    by (subst find_loop.simps) (simp add: scan_batch_page [OF b(1,2)] assms(2) del: of_nat_Suc)
  have "searching rpc p ps ?s'"
    using assms(1) f u by (simp add: searching_def batch_holds_def del: of_nat_Suc)
  moreover have "remaining p ps s = take (i - ?k) (drop ?k p) @ p ! i # remaining p ps ?s'"
  proof -
    have "drop ?k p = take (i - ?k) (drop ?k p) @ p ! i # drop (Suc i) p" using f by blast
    from arg_cong [OF this, of "\<lambda>x. x @ concat ps"] show ?thesis
      using u by (simp add: remaining_def del: of_nat_Suc)
  qed
  ultimately have "found_post rpc tmpl a (remaining p ps s) s (Some (23 * i)) ?s'"
    using f u unfolding found_post_def search_frame_def by (auto simp del: of_nat_Suc)
  with run show ?thesis by blast
qed

lemma find_loop_miss:
  assumes "searching rpc p ps s"
    and "find (\<lambda>i. entry_match (mem s) tmpl a (p ! i)) [unat (dir_batch_idx s)..<length p] = None"
  shows "\<forall>x \<in> set (drop (unat (dir_batch_idx s)) p). \<not> entry_match (mem s) tmpl a x"
  by (rule find_upt [OF assms(2)])

text \<open>One more page.\<close>

lemma find_loop_more:
  assumes "searching rpc p (q # qs) s"
    and "find (\<lambda>i. entry_match (mem s) tmpl a (p ! i)) [unat (dir_batch_idx s)..<length p] = None"
  shows "\<exists>s1. find_loop rpc tmpl a rst s = find_loop rpc tmpl a STATUS_OK s1 \<and> searching rpc q qs s1 \<and>
    search_frame s s1 \<and> unat (dir_batch_idx s1) = 0"
proof -
  from assms(1) obtain l' where q: "q \<noteq> []" "page_ok q" "says_more q \<longleftrightarrow> qs \<noteq> []"
    and l': "answers rpc (comport (glob_data s)) CMD_LIST_DIR_NEXT [dir_hid s] (link s) (SERRPC_OK STATUS_OK (concat q), l')"
      "serves_pages rpc (comport (glob_data s)) (dir_hid s) qs l'"
    and b: "batch_holds s p" "unat (dir_batch_idx s) \<le> length p" "dir_batch_more s \<noteq> 0"
      "length (glob_req_payload s) = 512" "length (glob_rep_payload s) = 512"
    by (auto simp: searching_def)
  have lc: "length (concat q) = 23 * length q" "length q \<le> 22"
    using q(2) by (auto simp: page_ok_def length_concat_page)
  let ?s0 = "s\<lparr>dir_batch_idx := of_nat (length p), glob_req_payload := (glob_req_payload s)[0 := dir_hid s]\<rparr>"
  let ?s1 = "?s0\<lparr>link := l', glob_rep_payload := rep_after (concat q) ?s0\<rparr>"
  have call: "call_rpc rpc CMD_LIST_DIR_NEXT ((glob_req_payload s)[0 := dir_hid s]) 1 rst ?s0 =
      Some (True, STATUS_OK, length (concat q), ?s1)"
    using l'(1) b(4) by (intro call_rpc_ok [where req = "[dir_hid s]"])
      (cases "glob_req_payload s"; simp)+
  have rep: "rep_after (concat q) ?s0 = concat q @ drop (length (concat q)) (glob_rep_payload s)"
    using b(5) lc by (subst rep_after_eq) auto
  note load = load_batch_page [of q ?s1 0 "[]" "length (concat q)"]
  have "searching rpc q qs (load_batch 0 (length (concat q)) ?s1)"
    unfolding searching_def
    using load q l' b lc rep by (simp add: batch_holds_def) (simp add: load_batch_def Let_def)
  moreover have "length (concat q) \<noteq> 0" using lc(1) q(1) by simp
  then have "find_loop rpc tmpl a rst s = find_loop rpc tmpl a STATUS_OK (load_batch 0 (length (concat q)) ?s1)"
    using call b(3)
    by (subst find_loop.simps) (auto simp: scan_batch_page [OF b(1,2)] assms(2) Let_def)
  ultimately show ?thesis
    by (intro exI [of _ "load_batch 0 (length (concat q)) ?s1"])
      (simp add: search_frame_def load_batch_def Let_def)
qed

lemma find_loop_spec:
  "searching rpc p ps s \<Longrightarrow>
   \<exists>r s'. find_loop rpc tmpl a rst s = Some (r, s') \<and> found_post rpc tmpl a (remaining p ps s) s r s'"
proof (induction ps arbitrary: p s rst)
  case Nil
  then have b: "batch_holds s p" "unat (dir_batch_idx s) \<le> length p" "dir_batch_more s = 0"
    by (auto simp: searching_def)
  show ?case
  proof (cases "find (\<lambda>i. entry_match (mem s) tmpl a (p ! i)) [unat (dir_batch_idx s)..<length p]")
    case None
    then have "find_loop rpc tmpl a rst s = Some (None, s\<lparr>dir_batch_idx := of_nat (length p)\<rparr>)"
      using b(3) by (subst find_loop.simps) (simp add: scan_batch_page [OF b(1,2)])
    moreover have "found_post rpc tmpl a (remaining p [] s) s None (s\<lparr>dir_batch_idx := of_nat (length p)\<rparr>)"
      using find_loop_miss [OF Nil None] by (simp add: found_post_def search_frame_def remaining_def)
    ultimately show ?thesis by blast
  next
    case (Some i)
    from find_loop_hit [OF Nil Some] show ?thesis by blast
  qed
next
  case (Cons q qs)
  show ?case
  proof (cases "find (\<lambda>i. entry_match (mem s) tmpl a (p ! i)) [unat (dir_batch_idx s)..<length p]")
    case None
    obtain s1 where s1: "find_loop rpc tmpl a rst s = find_loop rpc tmpl a STATUS_OK s1" "searching rpc q qs s1"
      "search_frame s s1" "unat (dir_batch_idx s1) = 0"
      using find_loop_more [OF Cons.prems None] by blast
    obtain r s' where r: "find_loop rpc tmpl a STATUS_OK s1 = Some (r, s')"
      "found_post rpc tmpl a (remaining q qs s1) s1 r s'"
      using Cons.IH [OF s1(2)] by blast
    have miss: "\<forall>x \<in> set (drop (unat (dir_batch_idx s)) p). \<not> entry_match (mem s) tmpl a x"
      by (rule find_loop_miss [OF Cons.prems None])
    have m: "mem s1 = mem s" using s1(3) by (simp add: search_frame_def)
    have rem: "remaining p (q # qs) s = drop (unat (dir_batch_idx s)) p @ remaining q qs s1"
      using s1(4) by (simp add: remaining_def)
    have fr: "search_frame s s'" using s1(3) r(2) by (auto simp: found_post_def search_frame_def)
    have "found_post rpc tmpl a (remaining p (q # qs) s) s r s'"
    proof (cases r)
      case None
      with r(2) fr miss show ?thesis by (auto simp: found_post_def rem m)
    next
      case (Some off)
      with r(2) obtain sk p' ps' k where k: "off = 23 * k" "k < length p'" "searching rpc p' ps' s'"
        "unat (dir_batch_idx s') = Suc k" "remaining q qs s1 = sk @ p' ! k # remaining p' ps' s'"
        "entry_match (mem s) tmpl a (p' ! k)" "\<forall>x \<in> set sk. \<not> entry_match (mem s) tmpl a x"
        by (auto simp: found_post_def m)
      let ?sk = "drop (unat (dir_batch_idx s)) p @ sk"
      have "remaining p (q # qs) s = ?sk @ p' ! k # remaining p' ps' s'"
        using k(5) by (simp add: rem)
      moreover have "\<forall>x \<in> set ?sk. \<not> entry_match (mem s) tmpl a x" using miss k(7) by auto
      ultimately show ?thesis
        unfolding Some k(1) using fr k(2-4,6) by (intro found_postI)
    qed
    with s1(1) r(1) show ?thesis by auto
  next
    case (Some i)
    from find_loop_hit [OF Cons.prems Some] show ?thesis by blast
  qed
qed

section \<open>The search record\<close>

text \<open>
  DOS calls FINDFIRST and FINDNEXT with the transfer area on the search record of its own SDA,
  followed there by \<open>found_file\<close>: the copy at the end of the handler is then a copy in place.
\<close>

definition sda_fits :: "'l tsr \<Rightarrow> bool" where
  "sda_fits s \<longleftrightarrow> fits (glob_sdaptr s) 0x300"

lemma sda_lin: "sda_fits s \<Longrightarrow> unat k < 0x300 \<Longrightarrow> lin (sda s k) = lin (glob_sdaptr s) + unat k"
  unfolding sda_fits_def by (rule lin_fadd)

lemma copybytes_self: "copybytes m p p n = m"
  by (induction n arbitrary: p) (simp_all add: poke8_def peek8_def)

definition found_entry :: "'l tsr \<Rightarrow> byte list \<Rightarrow> byte \<Rightarrow> byte \<Rightarrow> memory \<Rightarrow> memory \<Rightarrow> bool" where
  "found_entry s e hid idx m m' \<longleftrightarrow>
     peek_bytes m' (sda s (SDA_FOUND_FILE + FF_FNAME)) 11 = fcb_of (take 12 e) \<and>
     peek8 m' (sda s (SDA_FOUND_FILE + FF_FATTR)) = e ! 12 \<and>
     peek16 m' (sda s (SDA_FOUND_FILE + FF_TIME)) = get16 e 15 \<and>
     peek16 m' (sda s (SDA_FOUND_FILE + FF_DATE)) = get16 e 13 \<and>
     peek32 m' (sda s (SDA_FOUND_FILE + FF_FSIZE)) = get32 e 17 \<and>
     peek16 m' (sda s (SDA_SDB + SDB_DIR_ENTRY)) = ucast idx \<and>
     peek16 m' (sda s (SDA_SDB + SDB_PAR_CLSTR)) = ucast hid \<and>
     same_outside [(sda s (SDA_SDB + SDB_DIR_ENTRY), 4), (sda s SDA_FOUND_FILE, 32)] m m'"

lemma find_finish_found:
  assumes "sda_fits s" "dta = sda s SDA_SDB" "batch_holds s p" "k < length p" "e = p ! k"
  shows "found_entry s e (dir_hid s) (dir_batch_idx s) (mem s) (mem (find_finish dta (23 * k) s))"
proof -
  let ?ff = "sda s SDA_FOUND_FILE"
  have le: "length e = 23" using assms(3-5) by (auto simp: batch_holds_def page_ok_def)
  have b: "dir_batch s ! (23 * k + j) = e ! j" if "j < 23" for j
    using batch_entry_byte [OF assms(3,4) that] assms(5) by simp
  have name: "name83_to_fcb (take 12 (drop (23 * k) (dir_batch s))) = fcb_of (take 12 e)"
  proof -
    have "take 12 (drop (23 * k) (dir_batch s)) = take 12 (take 23 (drop (23 * k) (dir_batch s)))" by simp
    also have "\<dots> = take 12 e" using batch_entry [OF assms(3,4)] assms(5) by simp
    finally show ?thesis using le by (simp add: name83_to_fcb_eq)
  qed
  have g: "get16 (dir_batch s) (23 * k + 15) = get16 e 15" "get16 (dir_batch s) (23 * k + 13) = get16 e 13"
    "get32 (dir_batch s) (23 * k + 17) = get32 e 17"
    using b [of 13] b [of 14] b [of 15] b [of 16] b [of 17] b [of 18] b [of 19] b [of 20]
    by (simp_all add: get16_def get32_def add.commute)
  define m1 where "m1 = poke_bytes (mem s) ?ff (fcb_of (take 12 e))"
  define m2 where "m2 = (let m = poke8 m1 (sda s (SDA_FOUND_FILE + FF_FATTR)) (e ! 12);
            m = poke16 m (sda s (SDA_FOUND_FILE + FF_TIME)) (get16 e 15);
            m = poke16 m (sda s (SDA_FOUND_FILE + FF_DATE)) (get16 e 13);
            m = poke16 m (sda s (SDA_FOUND_FILE + FF_START_CLSTR)) 0;
            m = poke32 m (sda s (SDA_FOUND_FILE + FF_FSIZE)) (get32 e 17);
            m = poke16 m (sda s (SDA_SDB + SDB_PAR_CLSTR)) (ucast (dir_hid s))
        in poke16 m (sda s (SDA_SDB + SDB_DIR_ENTRY)) (ucast (dir_batch_idx s)))"
  have m2: "mem (find_finish dta (23 * k) s) = m2"
    unfolding assms(2) m2_def m1_def
    using name g b [of 12] by (simp add: find_finish_def fill_found_file_def Let_def copybytes_self)
  have l: "unat j < 0x300 \<Longrightarrow> lin (sda s j) = lin (glob_sdaptr s) + unat j" for j
    by (rule sda_lin [OF assms(1)])
  have ff: "fits ?ff 32" "fits ?ff 11"
    using assms(1) fits_fadd [of "glob_sdaptr s" "0x300" SDA_FOUND_FILE 32] by (auto simp: sda_fits_def intro: fits_mono)
  have o1: "same_outside [(sda s (SDA_SDB + SDB_DIR_ENTRY), 4), (?ff, 32)] (mem s) m1"
    unfolding m1_def by (rule same_outside_poke [of _ _ _ _ _ ?ff 32]) (use ff in auto)
  have o2: "same_outside [(sda s (SDA_SDB + SDB_DIR_ENTRY), 4), (sda s (SDA_FOUND_FILE + FF_FATTR), 21)] m1 m2"
    unfolding m2_def Let_def same_outside_def by (simp add: field_access l del: drop_bit_or drop_bit_and)
  have o3: "same_outside [(sda s (SDA_SDB + SDB_DIR_ENTRY), 4), (?ff, 32)] m1 m2"
    unfolding m2_def Let_def same_outside_def by (simp add: field_access l del: drop_bit_or drop_bit_and)
  have n: "peek_bytes m2 ?ff 11 = fcb_of (take 12 e)"
  proof -
    have "peek_bytes m2 ?ff 11 = peek_bytes m1 ?ff 11"
      by (rule peek_bytes_same [OF o2 ff(2)]) (auto simp: apart_def l)
    also have "\<dots> = fcb_of (take 12 e)"
      unfolding m1_def using peek_poke_bytes_same [of ?ff "fcb_of (take 12 e)" "mem s"] ff by simp
    finally show ?thesis .
  qed
  have "peek8 m2 (sda s (SDA_FOUND_FILE + FF_FATTR)) = e ! 12"
     "peek16 m2 (sda s (SDA_FOUND_FILE + FF_TIME)) = get16 e 15"
     "peek16 m2 (sda s (SDA_FOUND_FILE + FF_DATE)) = get16 e 13"
     "peek32 m2 (sda s (SDA_FOUND_FILE + FF_FSIZE)) = get32 e 17"
     "peek16 m2 (sda s (SDA_SDB + SDB_DIR_ENTRY)) = ucast (dir_batch_idx s)"
     "peek16 m2 (sda s (SDA_SDB + SDB_PAR_CLSTR)) = ucast (dir_hid s)"
    unfolding m2_def Let_def by (simp_all add: field_access l del: drop_bit_or drop_bit_and)
  then show ?thesis
    unfolding m2 found_entry_def using n same_outside_trans [OF o1 o3] by simp
qed

section \<open>Searches as DOS makes them\<close>

definition wanted :: "byte list \<Rightarrow> byte \<Rightarrow> byte list \<Rightarrow> bool" where
  "wanted t a e \<longleftrightarrow> attr_match (e ! 12) a \<and> list_all2 tmpl_ok t (fcb_of (take 12 e))"

lemma entry_match_wanted: "entry_match m tmpl a = wanted (peek_bytes m tmpl 11) a"
  by (simp add: fun_eq_iff entry_match_def wanted_def)

text \<open>
  \<open>search_state rpc t a listing s\<close>: the search record holds the template \<open>t\<close>, the attributes
  \<open>a\<close> and a cursor from which the entries \<open>listing\<close> are still to be looked at.
\<close>

abbreviation restore_cursor :: "'l tsr \<Rightarrow> 'l tsr" where
  "restore_cursor s \<equiv> s\<lparr>dir_batch_idx := ucast (peek16 (mem s) (sda s (SDA_SDB + SDB_DIR_ENTRY)))\<rparr>"

definition search_state ::
  "'l rpc_fun \<Rightarrow> byte list \<Rightarrow> byte \<Rightarrow> byte list list \<Rightarrow> 'l tsr \<Rightarrow> bool" where
  "search_state rpc t a listing s \<longleftrightarrow> sda_fits s \<and>
     peek_bytes (mem s) (sda s (SDA_SDB + SDB_SRCH_TMPL)) 11 = t \<and>
     peek8 (mem s) (sda s (SDA_SDB + SDB_SRCH_ATTR)) = a \<and>
     (\<exists>p ps. searching rpc p ps (restore_cursor s) \<and> listing = remaining p ps (restore_cursor s))"

definition shows_entry :: "byte list \<Rightarrow> 'l tsr \<Rightarrow> bool" where
  "shows_entry e s \<longleftrightarrow>
     peek_bytes (mem s) (sda s (SDA_FOUND_FILE + FF_FNAME)) 11 = fcb_of (take 12 e) \<and>
     peek8 (mem s) (sda s (SDA_FOUND_FILE + FF_FATTR)) = e ! 12 \<and>
     peek16 (mem s) (sda s (SDA_FOUND_FILE + FF_TIME)) = get16 e 15 \<and>
     peek16 (mem s) (sda s (SDA_FOUND_FILE + FF_DATE)) = get16 e 13 \<and>
     peek32 (mem s) (sda s (SDA_FOUND_FILE + FF_FSIZE)) = get32 e 17"

lemma sda_fits_eq: "glob_sdaptr s' = glob_sdaptr s \<Longrightarrow> sda_fits s' = sda_fits s"
  by (simp add: sda_fits_def)

lemma ucast_ucast_byte [simp]: "(ucast (ucast (b :: byte) :: u16) :: byte) = b"
  by (rule bit_word_eqI) (auto simp: bit_simps)

text \<open>The scan, on a state whose search record and cached page agree.\<close>

lemma find_scan_wanted:
  assumes "sda_fits s" "searching rpc p ps s" "peek_bytes (mem s) tmpl 11 = t"
    and "peek_bytes (mem s) (sda s (SDA_SDB + SDB_SRCH_TMPL)) 11 = t"
    and "peek8 (mem s) (sda s (SDA_SDB + SDB_SRCH_ATTR)) = a"
  shows "(\<forall>x \<in> set (remaining p ps s). \<not> wanted t a x) \<Longrightarrow>
      \<exists>s'. find_scan rpc (sda s SDA_SDB) tmpl a err rst s = Some s' \<and> reports err s' \<and> mem s' = mem s"
    "remaining p ps s = skipped @ e # rest \<Longrightarrow> \<forall>x \<in> set skipped. \<not> wanted t a x \<Longrightarrow> wanted t a e \<Longrightarrow>
      \<exists>s'. find_scan rpc (sda s SDA_SDB) tmpl a err rst s = Some s' \<and> shows_entry e s' \<and>
        search_state rpc t a rest s' \<and> glob_intregs s' = glob_intregs s \<and> glob_sdaptr s' = glob_sdaptr s \<and>
        same_outside [(sda s (SDA_SDB + SDB_DIR_ENTRY), 4), (sda s SDA_FOUND_FILE, 32)] (mem s) (mem s')"
proof -
  obtain r s1 where r: "find_loop rpc tmpl a rst s = Some (r, s1)" "found_post rpc tmpl a (remaining p ps s) s r s1"
    using find_loop_spec [OF assms(2)] by blast
  have em: "entry_match (mem s) tmpl a = wanted t a" by (simp add: entry_match_wanted assms(3))
  have fr: "search_frame s s1" using r(2) by (simp add: found_post_def)
  {
    assume none: "\<forall>x \<in> set (remaining p ps s). \<not> wanted t a x"
    have "r = None"
    proof (rule ccontr)
      assume "r \<noteq> None"
      with r(2) obtain sk p' ps' k where "remaining p ps s = sk @ p' ! k # remaining p' ps' s1" "wanted t a (p' ! k)"
        by (auto simp: found_post_def em)
      with none show False by auto
    qed
    with r(1) fr show "\<exists>s'. find_scan rpc (sda s SDA_SDB) tmpl a err rst s = Some s' \<and> reports err s' \<and> mem s' = mem s"
      by (simp add: find_scan_def search_frame_def)
  }
  assume split: "remaining p ps s = skipped @ e # rest" "\<forall>x \<in> set skipped. \<not> wanted t a x" "wanted t a e"
  have "r \<noteq> None"
  proof
    assume "r = None"
    with r(2) have "\<forall>x \<in> set (remaining p ps s). \<not> wanted t a x" unfolding found_post_def em by simp
    with split show False by simp
  qed
  with r(2) obtain sk p' ps' k where k: "r = Some (23 * k)" "k < length p'" "searching rpc p' ps' s1"
    "unat (dir_batch_idx s1) = Suc k" "remaining p ps s = sk @ p' ! k # remaining p' ps' s1"
    "wanted t a (p' ! k)" "\<forall>x \<in> set sk. \<not> wanted t a x"
    by (auto simp: found_post_def em)
  have "sk = skipped \<and> p' ! k # remaining p' ps' s1 = e # rest"
  proof -
    have "takeWhile (\<lambda>x. \<not> wanted t a x) (sk @ p' ! k # remaining p' ps' s1) = sk"
      "takeWhile (\<lambda>x. \<not> wanted t a x) (skipped @ e # rest) = skipped"
      using k(6,7) split(2,3) by (simp_all add: takeWhile_append2)
    with k(5) split(1) show ?thesis by (metis append_same_eq same_append_eq)
  qed
  then have e: "p' ! k = e" "remaining p' ps' s1 = rest" by auto
  let ?s2 = "find_finish (sda s SDA_SDB) (23 * k) s1"
  have sp: "glob_sdaptr s1 = glob_sdaptr s" "mem s1 = mem s" "glob_intregs s1 = glob_intregs s"
    using fr by (auto simp: search_frame_def)
  have f1: "sda_fits s1" using assms(1) sp(1) by (simp add: sda_fits_def)
  have fe: "found_entry s1 e (dir_hid s1) (dir_batch_idx s1) (mem s1) (mem ?s2)"
    using find_finish_found [OF f1 _ _ k(2)] k(3) e(1) sp(1) by (simp add: searching_def)
  have s2: "?s2 = s1\<lparr>mem := mem ?s2\<rparr>" by (simp add: find_finish_def fill_found_file_def Let_def)
  have fields: "glob_sdaptr ?s2 = glob_sdaptr s" "glob_intregs ?s2 = glob_intregs s"
    by (subst s2, simp add: sp)+
  have l: "unat j < 0x300 \<Longrightarrow> lin (sda s j) = lin (glob_sdaptr s) + unat j" for j
    by (rule sda_lin [OF assms(1)])
  have out: "same_outside [(sda s (SDA_SDB + SDB_DIR_ENTRY), 4), (sda s SDA_FOUND_FILE, 32)] (mem s) (mem ?s2)"
    using fe sp by (simp add: found_entry_def)
  have "fits (sda s (SDA_SDB + SDB_SRCH_TMPL)) 11"
    using assms(1) fits_fadd [of "glob_sdaptr s" "0x300" "SDA_SDB + SDB_SRCH_TMPL" 11] by (simp add: sda_fits_def)
  then have "peek_bytes (mem ?s2) (sda s (SDA_SDB + SDB_SRCH_TMPL)) 11 =
      peek_bytes (mem s) (sda s (SDA_SDB + SDB_SRCH_TMPL)) 11"
    by (rule peek_bytes_same [OF out]) (auto simp: apart_def l)
  then have tm: "peek_bytes (mem ?s2) (sda s (SDA_SDB + SDB_SRCH_TMPL)) 11 = t" using assms(4) by simp
  have "peek8 (mem ?s2) (sda s (SDA_SDB + SDB_SRCH_ATTR)) = peek8 (mem s) (sda s (SDA_SDB + SDB_SRCH_ATTR))"
    by (rule peek8_same [OF out]) (auto simp: apart_def l)
  then have at: "peek8 (mem ?s2) (sda s (SDA_SDB + SDB_SRCH_ATTR)) = a" using assms(5) by simp
  have cur: "peek16 (mem ?s2) (sda s (SDA_SDB + SDB_DIR_ENTRY)) = ucast (dir_batch_idx s1)"
    using fe sp(1) by (simp add: found_entry_def)
  have rc: "restore_cursor ?s2 = s1\<lparr>mem := mem ?s2\<rparr>"
  proof -
    have "restore_cursor ?s2 = ?s2\<lparr>dir_batch_idx := dir_batch_idx s1\<rparr>"
      using cur fields(1) by simp
    also have "\<dots> = s1\<lparr>mem := mem ?s2\<rparr>" by (subst s2) simp
    finally show ?thesis .
  qed
  have "searching rpc p' ps' (restore_cursor ?s2)" "remaining p' ps' (restore_cursor ?s2) = rest"
    unfolding rc using k(3) e(2) by (simp_all add: searching_def batch_holds_def remaining_def)
  then have "search_state rpc t a rest ?s2"
    using tm at assms(1) fields(1) unfolding search_state_def by (auto simp: sda_fits_def)
  moreover have "shows_entry e ?s2"
    using fe fields(1) sp(1) by (simp add: shows_entry_def found_entry_def)
  moreover have "find_scan rpc (sda s SDA_SDB) tmpl a err rst s = Some ?s2"
    using r(1) k(1) by (simp add: find_scan_def)
  ultimately show "\<exists>s'. find_scan rpc (sda s SDA_SDB) tmpl a err rst s = Some s' \<and> shows_entry e s' \<and>
        search_state rpc t a rest s' \<and> glob_intregs s' = glob_intregs s \<and> glob_sdaptr s' = glob_sdaptr s \<and>
        same_outside [(sda s (SDA_SDB + SDB_DIR_ENTRY), 4), (sda s SDA_FOUND_FILE, 32)] (mem s) (mem s')"
    using fields out by blast
qed

lemma al_findnext_wanted:
  assumes "search_state rpc t a listing s" "(es (glob_intregs s), di (glob_intregs s)) = sda s SDA_SDB"
  shows "(\<forall>x \<in> set listing. \<not> wanted t a x) \<Longrightarrow>
      \<exists>s'. al_findnext rpc rst s = Some s' \<and> reports 18 s' \<and> mem s' = mem s"
    "listing = skipped @ e # rest \<Longrightarrow> \<forall>x \<in> set skipped. \<not> wanted t a x \<Longrightarrow> wanted t a e \<Longrightarrow>
      \<exists>s'. al_findnext rpc rst s = Some s' \<and> shows_entry e s' \<and> search_state rpc t a rest s' \<and>
        glob_intregs s' = glob_intregs s \<and> glob_sdaptr s' = glob_sdaptr s \<and>
        same_outside [(sda s (SDA_SDB + SDB_DIR_ENTRY), 4), (sda s SDA_FOUND_FILE, 32)] (mem s) (mem s')"
proof -
  obtain p ps where s: "sda_fits s" "searching rpc p ps (restore_cursor s)" "listing = remaining p ps (restore_cursor s)"
    "peek_bytes (mem s) (sda s (SDA_SDB + SDB_SRCH_TMPL)) 11 = t"
    "peek8 (mem s) (sda s (SDA_SDB + SDB_SRCH_ATTR)) = a"
    using assms(1) by (auto simp: search_state_def)
  have run: "al_findnext rpc rst s =
      find_scan rpc (sda s SDA_SDB) (sda s (SDA_SDB + SDB_SRCH_TMPL)) a 18 rst (restore_cursor s)"
    using s(5) by (simp add: al_findnext_def Let_def assms(2))
  have f: "sda_fits (restore_cursor s)" using s(1) by (simp add: sda_fits_def)
  note scan = find_scan_wanted [OF f s(2), of "sda s (SDA_SDB + SDB_SRCH_TMPL)" t a]
  show "(\<forall>x \<in> set listing. \<not> wanted t a x) \<Longrightarrow>
      \<exists>s'. al_findnext rpc rst s = Some s' \<and> reports 18 s' \<and> mem s' = mem s"
    unfolding run using scan(1) [of 18 rst] s by simp
  assume "listing = skipped @ e # rest" "\<forall>x \<in> set skipped. \<not> wanted t a x" "wanted t a e"
  then show "\<exists>s'. al_findnext rpc rst s = Some s' \<and> shows_entry e s' \<and> search_state rpc t a rest s' \<and>
        glob_intregs s' = glob_intregs s \<and> glob_sdaptr s' = glob_sdaptr s \<and>
        same_outside [(sda s (SDA_SDB + SDB_DIR_ENTRY), 4), (sda s SDA_FOUND_FILE, 32)] (mem s) (mem s')"
    unfolding run using scan(2) [of skipped e rest 18 rst] s by simp
qed

section \<open>FINDFIRST\<close>

lemma dir_request_loop_eq:
  assumes "i \<le> length d" "length d \<le> 63" "0 \<notin> set d" "length buf = 512"
    and "length dp = 65" "take (length d + 1) dp = d @ [0]"
  shows "dir_request_loop dp i (copy_at buf 1 d i) = (length d, copy_at buf 1 d (length d))"
  using assms(1)
proof (induction "length d - i" arbitrary: i)
  case 0
  then have i: "i = length d" by simp
  have "dp ! length d = (d @ [0]) ! length d" using assms(6) by (metis lessI nth_take Suc_eq_plus1)
  then show ?case using i by (subst dir_request_loop.simps) simp
next
  case (Suc n)
  then have i: "i < length d" by simp
  have "dp ! i = (d @ [0]) ! i" using assms(6) i by (metis less_SucI nth_take Suc_eq_plus1)
  then have di: "dp ! i = d ! i" "d ! i \<noteq> 0"
    using i assms(3) by (auto simp: nth_append) (metis nth_mem)
  have step: "(copy_at buf 1 d i)[1 + i := d ! i] = copy_at buf 1 d (Suc i)" by simp
  show ?case
    using Suc(1) [of "Suc i"] Suc(2) i assms(2)
    by (subst dir_request_loop.simps) (simp only: di step, simp)
qed

text \<open>The path: a drive, a colon, a directory with its backslashes, and the last component.\<close>

definition dir_path_at :: "'l tsr \<Rightarrow> byte list \<Rightarrow> byte list \<Rightarrow> bool" where
  "dir_path_at s dir base \<longleftrightarrow>
     (\<exists>d c. cstring (mem s) (sda s SDA_FN1) (d # c # dir @ ch_backslash # base)) \<and>
     ch_backslash \<notin> set base \<and> length dir \<le> 62"

definition list_req :: "byte list \<Rightarrow> byte list" where
  "list_req dir = 0 # dir @ [ch_backslash, 0]"

lemma dir_request_at:
  assumes "dir_path_at s dir base" "length (glob_req_payload s) = 512"
  shows "\<exists>dp. get_dir_path (replicate 65 0) (mem s) (sda s SDA_FN1) = Some dp \<and>
    dir_request dp s = (length dir + 3, s\<lparr>glob_req_payload := list_req dir @ drop (length dir + 3) (glob_req_payload s)\<rparr>)"
proof -
  obtain d c where cs: "cstring (mem s) (sda s SDA_FN1) (d # c # dir @ ch_backslash # base)"
    "ch_backslash \<notin> set base" "length dir \<le> 62"
    using assms(1) by (auto simp: dir_path_at_def)
  let ?d = "dir @ [ch_backslash]"
  let ?dp = "?d @ 0 # drop (length dir + 2) (replicate 65 0)"
  let ?b = "(glob_req_payload s)[0 := 0]"
  have g: "get_dir_path (replicate 65 0) (mem s) (sda s SDA_FN1) = Some ?dp"
    using get_dir_path_cstring [OF cs(1,2), of "replicate 65 0"] cs(3) by simp
  have nz: "0 \<notin> set ?d" using cs(1) by (auto simp: cstring_def)
  have "dir_request_loop ?dp 0 (copy_at ?b 1 ?d 0) = (length ?d, copy_at ?b 1 ?d (length ?d))"
    by (rule dir_request_loop_eq) (use nz cs(3) assms(2) in auto)
  then have loop: "dir_request_loop ?dp 0 ?b = (length dir + 1, copy_at ?b 1 ?d (length dir + 1))" by simp
  have "copy_at ?b 1 ?d (length dir + 1) = take 1 ?b @ ?d @ drop (length dir + 2) ?b"
  proof -
    have "1 + (length dir + 1) = length dir + 2" by simp
    then show ?thesis
      using cs(3) assms(2) copy_at_eq [of 1 "length dir + 1" ?b ?d] by (simp add: add_2_eq_Suc')
  qed
  also have "take 1 ?b = [0]" using assms(2) by (cases "glob_req_payload s") auto
  also have "drop (length dir + 2) ?b = glob_req_payload s ! (length dir + 2) # drop (length dir + 3) (glob_req_payload s)"
  proof -
    have s: "Suc (length dir + 2) = length dir + 3" by simp
    have "length dir + 2 < length (glob_req_payload s)" using cs(3) assms(2) by simp
    from Cons_nth_drop_Suc [OF this, unfolded s]
    have "drop (length dir + 2) (glob_req_payload s) =
      glob_req_payload s ! (length dir + 2) # drop (length dir + 3) (glob_req_payload s)" by (rule sym)
    then show ?thesis by (simp add: drop_update_cancel)
  qed
  finally have c: "copy_at ?b 1 ?d (length dir + 1) =
      (0 # ?d) @ glob_req_payload s ! (length dir + 2) # drop (length dir + 3) (glob_req_payload s)"
    by simp
  have "length dir + 2 = length (0 # ?d)" by simp
  then have "(copy_at ?b 1 ?d (length dir + 1))[length dir + 2 := 0] =
      list_req dir @ drop (length dir + 3) (glob_req_payload s)"
    unfolding c by (simp only: list_update_length) (simp add: list_req_def)
  moreover have "2 + (length dir + 1) = length dir + 3" "1 + (length dir + 1) = length dir + 2" by simp_all
  ultimately have "dir_request ?dp s =
      (length dir + 3, s\<lparr>glob_req_payload := list_req dir @ drop (length dir + 3) (glob_req_payload s)\<rparr>)"
    unfolding dir_request_def loop Let_def prod.case by (simp only:)
  with g show ?thesis by blast
qed

text \<open>A server that lists the directory \<open>dir\<close> under the handle \<open>hid\<close> as the pages \<open>p # ps\<close>.\<close>

definition serves_listing ::
  "'l rpc_fun \<Rightarrow> u16 \<Rightarrow> byte list \<Rightarrow> byte \<Rightarrow> byte list list \<Rightarrow> byte list list list \<Rightarrow> 'l \<Rightarrow> bool" where
  "serves_listing rpc port dir hid p ps l \<longleftrightarrow> page_ok p \<and> (says_more p \<longleftrightarrow> ps \<noteq> []) \<and>
     (\<exists>l'. answers rpc port CMD_LIST_DIR (list_req dir) l (SERRPC_OK STATUS_OK (hid # concat p), l') \<and>
        serves_pages rpc port hid ps l')"

definition find_ready :: "'l tsr \<Rightarrow> bool" where
  "find_ready s \<longleftrightarrow> sda_fits s \<and> peek_fp (mem s) (sda s SDA_CURR_DTA) = sda s SDA_SDB \<and>
     length (glob_req_payload s) = 512 \<and> length (glob_rep_payload s) = 512 \<and> length (dir_batch s) = 506"

lemma search_record:
  assumes "sda_fits s" "m1 = poke8 (mem s) (sda s (SDA_SDB + SDB_DRV_LETT)) d"
    and "m2 = copybytes m1 (sda s (SDA_SDB + SDB_SRCH_TMPL)) (sda s SDA_FCB_FN1) 11"
    and "m3 = poke8 m2 (sda s (SDA_SDB + SDB_SRCH_ATTR)) a"
  shows "peek_bytes m3 (sda s (SDA_SDB + SDB_SRCH_TMPL)) 11 = peek_bytes (mem s) (sda s SDA_FCB_FN1) 11"
    "peek_bytes m3 (sda s SDA_FCB_FN1) 11 = peek_bytes (mem s) (sda s SDA_FCB_FN1) 11"
    "peek8 m3 (sda s (SDA_SDB + SDB_SRCH_ATTR)) = a" "peek8 m3 (sda s (SDA_SDB + SDB_DRV_LETT)) = d"
    "same_outside [(sda s SDA_SDB, 21)] (mem s) m3"
proof -
  let ?t = "sda s (SDA_SDB + SDB_SRCH_TMPL)" and ?f = "sda s SDA_FCB_FN1"
  have l: "unat j < 0x300 \<Longrightarrow> lin (sda s j) = lin (glob_sdaptr s) + unat j" for j
    by (rule sda_lin [OF assms(1)])
  have f: "fits ?t 11" "fits ?f 11"
    using assms(1) fits_fadd [of "glob_sdaptr s" "0x300" "SDA_SDB + SDB_SRCH_TMPL" 11]
      fits_fadd [of "glob_sdaptr s" "0x300" SDA_FCB_FN1 11] by (auto simp: sda_fits_def)
  have fa: "fits (sda s k) 1" if "unat k < 0x300" for k
    using assms(1) that fits_fadd [of "glob_sdaptr s" "0x300" k 1] by (simp add: sda_fits_def)
  have 1: "m1 = poke_bytes (mem s) (sda s (SDA_SDB + SDB_DRV_LETT)) [d]" by (simp add: assms(2))
  have "m2 = poke_bytes m1 ?t (peek_bytes m1 ?f 11)"
    unfolding assms(3) using f by (intro copybytes_eq) (auto simp: apart_def l)
  also have "peek_bytes m1 ?f 11 = peek_bytes (mem s) ?f 11"
    unfolding 1 using f fa by (intro peek_poke_bytes_apart) (auto simp: apart_def l)
  finally have 2: "m2 = poke_bytes m1 ?t (peek_bytes (mem s) ?f 11)" .
  let ?b = "peek_bytes (mem s) ?f 11"
  have 3: "m3 = poke_bytes m2 (sda s (SDA_SDB + SDB_SRCH_ATTR)) [a]" by (simp add: assms(4))
  have "peek_bytes m3 ?t 11 = peek_bytes m2 ?t 11"
    unfolding 3 using f fa by (intro peek_poke_bytes_apart) (auto simp: apart_def l)
  then show "peek_bytes m3 ?t 11 = ?b"
    using peek_poke_bytes_same [of ?t ?b m1] f by (simp add: 2)
  have "peek_bytes m3 ?f 11 = peek_bytes m2 ?f 11"
    unfolding 3 using f fa by (intro peek_poke_bytes_apart) (auto simp: apart_def l)
  also have "\<dots> = peek_bytes m1 ?f 11"
    unfolding 2 using f by (intro peek_poke_bytes_apart) (auto simp: apart_def l)
  finally show "peek_bytes m3 ?f 11 = ?b"
    using \<open>peek_bytes m1 ?f 11 = peek_bytes (mem s) ?f 11\<close> by simp
  show "peek8 m3 (sda s (SDA_SDB + SDB_SRCH_ATTR)) = a" by (simp add: assms(4))
  have "peek8 m3 (sda s (SDA_SDB + SDB_DRV_LETT)) = peek8 m2 (sda s (SDA_SDB + SDB_DRV_LETT))"
    unfolding 3 using fa by (intro peek8_poke_apart) (auto simp: apart_def l)
  also have "\<dots> = peek8 m1 (sda s (SDA_SDB + SDB_DRV_LETT))"
    unfolding 2 using f by (intro peek8_poke_apart) (auto simp: apart_def l)
  finally show "peek8 m3 (sda s (SDA_SDB + SDB_DRV_LETT)) = d" by (simp add: assms(2))
  have "same_outside [(sda s SDA_SDB, 21)] (mem s) m1"
    unfolding 1 using fa by (intro same_outside_poke [of _ _ _ _ _ "sda s SDA_SDB" 21]) (auto simp: l)
  then have "same_outside [(sda s SDA_SDB, 21)] (mem s) m2"
    unfolding 2 using f by (intro same_outside_poke [of _ _ _ _ _ "sda s SDA_SDB" 21]) (auto simp: l)
  then show "same_outside [(sda s SDA_SDB, 21)] (mem s) m3"
    unfolding 3 using fa by (intro same_outside_poke [of _ _ _ _ _ "sda s SDA_SDB" 21]) (auto simp: l)
qed

lemma find_start_listing:
  assumes "find_ready s" "dir_path_at s dir base"
    and "serves_listing rpc (comport (glob_data s)) dir hid p ps (link s)"
  shows "\<exists>s1. find_start rpc (sda s SDA_SDB) a rst s = Some (Some STATUS_OK, s1) \<and>
    searching rpc p ps s1 \<and> remaining p ps s1 = concat (p # ps) \<and>
    glob_intregs s1 = glob_intregs s \<and> glob_sdaptr s1 = glob_sdaptr s \<and>
    peek_bytes (mem s1) (sda s (SDA_SDB + SDB_SRCH_TMPL)) 11 = peek_bytes (mem s) (sda s SDA_FCB_FN1) 11 \<and>
    peek_bytes (mem s1) (sda s SDA_FCB_FN1) 11 = peek_bytes (mem s) (sda s SDA_FCB_FN1) 11 \<and>
    peek8 (mem s1) (sda s (SDA_SDB + SDB_SRCH_ATTR)) = a \<and>
    peek8 (mem s1) (sda s (SDA_SDB + SDB_DRV_LETT)) = glob_reqdrv s OR 0x80 \<and>
    same_outside [(sda s SDA_SDB, 21)] (mem s) (mem s1)"
proof -
  have len: "length (glob_req_payload s) = 512" "length (glob_rep_payload s) = 512" "length (dir_batch s) = 506"
    and fit: "sda_fits s"
    using assms(1) by (auto simp: find_ready_def)
  obtain l' where p: "page_ok p" "says_more p \<longleftrightarrow> ps \<noteq> []"
    and l': "answers rpc (comport (glob_data s)) CMD_LIST_DIR (list_req dir) (link s) (SERRPC_OK STATUS_OK (hid # concat p), l')"
      "serves_pages rpc (comport (glob_data s)) hid ps l'"
    using assms(3) by (auto simp: serves_listing_def)
  obtain dp where dp: "get_dir_path (replicate 65 0) (mem s) (sda s SDA_FN1) = Some dp"
    "dir_request dp s = (length dir + 3, s\<lparr>glob_req_payload := list_req dir @ drop (length dir + 3) (glob_req_payload s)\<rparr>)"
    using dir_request_at [OF assms(2) len(1)] by blast
  let ?s0 = "s\<lparr>glob_req_payload := list_req dir @ drop (length dir + 3) (glob_req_payload s)\<rparr>"
  let ?rp = "hid # concat p"
  have lp: "length (concat p) = 23 * length p" "length p \<le> 22"
    using p(1) by (auto simp: page_ok_def length_concat_page)
  have lr: "length (list_req dir) = length dir + 3" "length dir \<le> 62"
    using assms(2) by (auto simp: list_req_def dir_path_at_def)
  let ?s1 = "?s0\<lparr>link := l', glob_rep_payload := rep_after ?rp ?s0\<rparr>"
  have call: "call_rpc rpc CMD_LIST_DIR (glob_req_payload ?s0) (length dir + 3) rst ?s0 =
      Some (True, STATUS_OK, length ?rp, ?s1)"
    using l'(1) lr len by (intro call_rpc_ok [where req = "list_req dir"]) auto
  have rep: "rep_after ?rp ?s0 = ?rp @ drop (length ?rp) (glob_rep_payload s)"
    using len lp by (subst rep_after_eq) auto
  define s2 where "s2 = load_batch 1 (length (concat p)) (?s1\<lparr>dir_hid := hid\<rparr>)"
  have load: "batch_holds s2 p" "dir_batch_idx s2 = 0" "dir_batch_more s2 \<noteq> 0 \<longleftrightarrow> says_more p"
    unfolding s2_def using load_batch_page [of p "?s1\<lparr>dir_hid := hid\<rparr>" 1 "[hid]" "length (concat p)"]
      p(1) len lp rep by (simp_all add: rep_after_def)
  have s2: "mem s2 = mem s" "glob_reqdrv s2 = glob_reqdrv s" "glob_sdaptr s2 = glob_sdaptr s"
    "glob_intregs s2 = glob_intregs s" "link s2 = l'" "dir_hid s2 = hid" "glob_data s2 = glob_data s"
    "length (glob_req_payload s2) = 512" "length (glob_rep_payload s2) = 512"
    using len lr by (simp_all add: s2_def load_batch_def Let_def rep_after_def)
  define m3 where "m3 = poke8 (copybytes (poke8 (mem s) (sda s (SDA_SDB + SDB_DRV_LETT)) (glob_reqdrv s OR 0x80))
      (sda s (SDA_SDB + SDB_SRCH_TMPL)) (sda s SDA_FCB_FN1) 11) (sda s (SDA_SDB + SDB_SRCH_ATTR)) a"
  note rec = search_record [OF fit refl refl m3_def]
  have "find_start rpc (sda s SDA_SDB) a rst s = Some (Some STATUS_OK, s2\<lparr>mem := m3\<rparr>)"
  proof -
    have s2e: "load_batch 1 (length ?rp - 1) (?s1\<lparr>dir_hid := glob_rep_payload ?s1 ! 0\<rparr>) = s2"
      using rep by (simp add: s2_def)
    show ?thesis
      unfolding find_start_def dp bind.bind_lunit Let_def prod.case call s2e
      using s2(1-3) by (simp add: m3_def)
  qed
  moreover have "searching rpc p ps (s2\<lparr>mem := m3\<rparr>)"
    using load p l'(2) s2 by (simp add: searching_def batch_holds_def)
  moreover have "remaining p ps (s2\<lparr>mem := m3\<rparr>) = concat (p # ps)"
    using load(2) by (simp add: remaining_def)
  ultimately show ?thesis using rec s2 by (intro exI [of _ "s2\<lparr>mem := m3\<rparr>"]) simp
qed

lemma al_findfirst_wanted:
  assumes "find_ready s" "dir_path_at s dir base"
    and "serves_listing rpc (comport (glob_data s)) dir hid p ps (link s)"
    and "t = peek_bytes (mem s) (sda s SDA_FCB_FN1) 11" "a = peek8 (mem s) (sda s SDA_SRCH_ATTR)"
  shows "(\<forall>x \<in> set (concat (p # ps)). \<not> wanted t a x) \<Longrightarrow>
      \<exists>s'. al_findfirst rpc rst s = Some s' \<and> reports 2 s'"
    "concat (p # ps) = skipped @ e # rest \<Longrightarrow> \<forall>x \<in> set skipped. \<not> wanted t a x \<Longrightarrow> wanted t a e \<Longrightarrow>
      \<exists>s'. al_findfirst rpc rst s = Some s' \<and> shows_entry e s' \<and> search_state rpc t a rest s' \<and>
        glob_intregs s' = glob_intregs s \<and> glob_sdaptr s' = glob_sdaptr s \<and>
        peek8 (mem s') (sda s (SDA_SDB + SDB_DRV_LETT)) = glob_reqdrv s OR 0x80"
proof -
  obtain s1 where s1: "find_start rpc (sda s SDA_SDB) a rst s = Some (Some STATUS_OK, s1)"
    "searching rpc p ps s1" "remaining p ps s1 = concat (p # ps)"
    "glob_intregs s1 = glob_intregs s" "glob_sdaptr s1 = glob_sdaptr s"
    "peek_bytes (mem s1) (sda s (SDA_SDB + SDB_SRCH_TMPL)) 11 = t"
    "peek_bytes (mem s1) (sda s SDA_FCB_FN1) 11 = t"
    "peek8 (mem s1) (sda s (SDA_SDB + SDB_SRCH_ATTR)) = a"
    "peek8 (mem s1) (sda s (SDA_SDB + SDB_DRV_LETT)) = glob_reqdrv s OR 0x80"
    using find_start_listing [OF assms(1-3)] unfolding assms(4) by blast
  have dta: "peek_fp (mem s) (sda s SDA_CURR_DTA) = sda s SDA_SDB" "sda_fits s"
    using assms(1) by (auto simp: find_ready_def)
  have run: "al_findfirst rpc rst s = find_scan rpc (sda s1 SDA_SDB) (sda s SDA_FCB_FN1) a 2 STATUS_OK s1"
    using s1(1,5) assms(5) by (simp add: al_findfirst_def Let_def dta(1))
  have f1: "sda_fits s1" using dta(2) s1(5) by (simp add: sda_fits_def)
  have scan: "find_scan rpc (sda s1 SDA_SDB) (sda s SDA_FCB_FN1) a 2 STATUS_OK s1 = X \<Longrightarrow>
      al_findfirst rpc rst s = X" for X using run by simp
  note w = find_scan_wanted [OF f1 s1(2,7), of a]
  show "(\<forall>x \<in> set (concat (p # ps)). \<not> wanted t a x) \<Longrightarrow>
      \<exists>s'. al_findfirst rpc rst s = Some s' \<and> reports 2 s'"
    unfolding run using w(1) [of 2 STATUS_OK] s1 by auto
  assume "concat (p # ps) = skipped @ e # rest" "\<forall>x \<in> set skipped. \<not> wanted t a x" "wanted t a e"
  then obtain s' where s': "find_scan rpc (sda s1 SDA_SDB) (sda s SDA_FCB_FN1) a 2 STATUS_OK s1 = Some s'"
    "shows_entry e s'" "search_state rpc t a rest s'" "glob_intregs s' = glob_intregs s1"
    "glob_sdaptr s' = glob_sdaptr s1"
    "same_outside [(sda s (SDA_SDB + SDB_DIR_ENTRY), 4), (sda s SDA_FOUND_FILE, 32)] (mem s1) (mem s')"
    using w(2) [of skipped e rest 2 STATUS_OK] s1 by auto
  have "peek8 (mem s') (sda s (SDA_SDB + SDB_DRV_LETT)) = peek8 (mem s1) (sda s (SDA_SDB + SDB_DRV_LETT))"
    by (rule peek8_same [OF s'(6)]) (auto simp: apart_def sda_lin [OF dta(2)])
  with s' s1 show "\<exists>s'. al_findfirst rpc rst s = Some s' \<and> shows_entry e s' \<and> search_state rpc t a rest s' \<and>
        glob_intregs s' = glob_intregs s \<and> glob_sdaptr s' = glob_sdaptr s \<and>
        peek8 (mem s') (sda s (SDA_SDB + SDB_DRV_LETT)) = glob_reqdrv s OR 0x80"
    by (intro exI [of _ s']) (simp add: run)
qed

section \<open>Enumeration\<close>

text \<open>
  The contract of a cursor over a list: a step goes to the next element that is sought and
  shows it, or ends when none is left. A client that steps until the end sees every sought
  element once, in order.
\<close>

primrec walk :: "('s \<Rightarrow> 's option) \<Rightarrow> ('s \<Rightarrow> bool) \<Rightarrow> ('s \<Rightarrow> 'v) \<Rightarrow> nat \<Rightarrow> 's \<Rightarrow> 'v list option" where
  "walk step ended view 0 s = None"
| "walk step ended view (Suc n) s =
     do { s \<leftarrow> step s;
          if ended s then Some []
          else do { vs \<leftarrow> walk step ended view n s; Some (view s # vs) } }"

locale cursor =
  fixes step :: "'s \<Rightarrow> 's option"
    and ended :: "'s \<Rightarrow> bool"
    and ahead :: "'e list \<Rightarrow> 's \<Rightarrow> bool"
    and sought :: "'e \<Rightarrow> bool"
    and shown :: "'e \<Rightarrow> 's \<Rightarrow> bool"
  assumes hit: "ahead (skipped @ e # rest) s \<Longrightarrow> \<forall>x \<in> set skipped. \<not> sought x \<Longrightarrow> sought e \<Longrightarrow>
      \<exists>s'. step s = Some s' \<and> \<not> ended s' \<and> shown e s' \<and> ahead rest s'"
    and miss: "ahead xs s \<Longrightarrow> \<forall>x \<in> set xs. \<not> sought x \<Longrightarrow> \<exists>s'. step s = Some s' \<and> ended s'"
begin

lemma walk_all:
  assumes "\<And>e s. shown e s \<Longrightarrow> view s = val e"
  shows "ahead xs s \<Longrightarrow> length (filter sought xs) < n \<Longrightarrow>
    walk step ended view n s = Some (map val (filter sought xs))"
proof (induction "filter sought xs" arbitrary: xs s n)
  case Nil
  then obtain m where n: "n = Suc m" by (cases n) auto
  have "\<forall>x \<in> set xs. \<not> sought x" using Nil(1) by (metis filter_empty_conv)
  with miss [OF Nil(2)] obtain s' where "step s = Some s'" "ended s'" by blast
  then show ?case using Nil(1) by (simp add: n flip: Nil(1))
next
  case (Cons e es)
  then obtain m where n: "n = Suc m" "length es < m" by (cases n) (auto simp flip: Cons(2))
  obtain skipped rest where xs: "xs = skipped @ e # rest" "\<forall>x \<in> set skipped. \<not> sought x" "sought e"
    "es = filter sought rest"
    using Cons(2) by (metis filter_eq_ConsD)
  from hit [of skipped e rest s] Cons(3) xs obtain s' where
    s': "step s = Some s'" "\<not> ended s'" "shown e s'" "ahead rest s'" by blast
  have "walk step ended view m s' = Some (map val (filter sought rest))"
    using Cons(1) [OF xs(4) s'(4)] n(2) xs(4) by simp
  then show ?case using s' assms [OF s'(3)] by (simp add: n(1) xs(4) flip: Cons(2))
qed

end

text \<open>The loop of DOS: FINDNEXT calls on the search record of the SDA until the carry flag is set.\<close>

definition findnext_call :: "'l tsr \<Rightarrow> 'l tsr" where
  "findnext_call s = set_regs (\<lambda>r. r\<lparr>ax := 0x111C, es := fst (sda s SDA_SDB), di := snd (sda s SDA_SDB)\<rparr>) s"

definition carry :: "'l tsr \<Rightarrow> bool" where
  "carry s \<longleftrightarrow> bit (flags (glob_intregs s)) 0"

lemma search_state_regs:
  "search_state rpc t a xs (s\<lparr>glob_intregs := r\<rparr>) = search_state rpc t a xs s"
  by (simp add: search_state_def sda_fits_def searching_def batch_holds_def remaining_def)

lemma findnext_run:
  "process2f rpc rst (findnext_call s) = al_findnext rpc rst (SUCCESSFLAG (findnext_call s))"
  by (simp add: process2f_def findnext_call_def reg_al_def)

interpretation findnext: cursor "\<lambda>s. process2f rpc rst (findnext_call s)" carry
    "search_state rpc t a" "wanted t a" shows_entry for rpc :: "'l rpc_fun" and rst t a
proof
  fix skipped e rest and s :: "'l tsr"
  assume a: "search_state rpc t a (skipped @ e # rest) s" "\<forall>x \<in> set skipped. \<not> wanted t a x" "wanted t a e"
  let ?s = "SUCCESSFLAG (findnext_call s)"
  have st: "search_state rpc t a (skipped @ e # rest) ?s"
    using a(1) by (simp add: SUCCESSFLAG_def findnext_call_def search_state_regs)
  have r: "(es (glob_intregs ?s), di (glob_intregs ?s)) = sda ?s SDA_SDB"
    by (simp add: SUCCESSFLAG_def findnext_call_def)
  from al_findnext_wanted(2) [OF st r refl a(2,3), of rst] obtain s' where
    "al_findnext rpc rst ?s = Some s'" "shows_entry e s'" "search_state rpc t a rest s'"
    "glob_intregs s' = glob_intregs ?s" by blast
  then show "\<exists>s'. process2f rpc rst (findnext_call s) = Some s' \<and> \<not> carry s' \<and> shows_entry e s' \<and>
      search_state rpc t a rest s'"
    by (simp add: findnext_run carry_def SUCCESSFLAG_def bit_simps)
next
  fix xs and s :: "'l tsr"
  assume a: "search_state rpc t a xs s" "\<forall>x \<in> set xs. \<not> wanted t a x"
  let ?s = "SUCCESSFLAG (findnext_call s)"
  have st: "search_state rpc t a xs ?s"
    using a(1) by (simp add: SUCCESSFLAG_def findnext_call_def search_state_regs)
  have r: "(es (glob_intregs ?s), di (glob_intregs ?s)) = sda ?s SDA_SDB"
    by (simp add: SUCCESSFLAG_def findnext_call_def)
  from al_findnext_wanted(1) [OF st r a(2), of rst]
  show "\<exists>s'. process2f rpc rst (findnext_call s) = Some s' \<and> carry s'"
    by (auto simp: findnext_run carry_def reports_def)
qed

end
