(* ===== verification/Sdf_Sample.thy ===== *)
theory Sdf_Sample
  imports Sdf_Search
begin

text \<open>
  A concrete machine for the witnesses: a memory with an SDA at 1000:0000, a file table entry
  at 2000:0000 and a transfer area, the resident state with drive C: mapped, and a server that
  keeps one file in the link state. Nothing here models code of the repository; the theorems
  are stated for any memory, state and server.
\<close>

section \<open>Memory\<close>

definition seg_bytes :: "nat \<Rightarrow> byte list \<Rightarrow> memory \<Rightarrow> memory" where
  "seg_bytes p bs m a = (if p \<le> a \<and> a < p + length bs then bs ! (a - p) else m a)"

text \<open>\<open>C:\A.TXT\<close> and its FCB name.\<close>

definition demo_path :: "byte list" where
  "demo_path = [0x43, 0x3A, 0x5C, 0x41, 0x2E, 0x54, 0x58, 0x54]"

definition demo_fcb :: "byte list" where
  "demo_fcb = [0x41, 0x20, 0x20, 0x20, 0x20, 0x20, 0x20, 0x20, 0x54, 0x58, 0x54]"

definition demo_sft :: "byte \<Rightarrow> byte list" where
  "demo_sft om = [1, 0, om, 0, 0x20, 0x42, 0x80, 0, 0, 0, 0, 7, 0, 0, 0, 0, 0, 10, 0, 0, 0, 3, 0, 0, 0]"

definition demo_mem :: "fp \<Rightarrow> byte \<Rightarrow> memory" where
  "demo_mem dta om =
     seg_bytes 0x1000C (le16 (snd dta) @ le16 (fst dta))
    (seg_bytes 0x1009E demo_path
    (seg_bytes 0x1022B demo_fcb
    (seg_bytes 0x1024D [0x16]
    (seg_bytes 0x20000 (demo_sft om)
    (seg_bytes 0x30000 [1, 2, 3, 4] (\<lambda>_. 0))))))"

lemmas demo_eval = demo_mem_def seg_bytes_def demo_path_def demo_fcb_def demo_sft_def peek8_def lin_def
  fadd_def le16_def

section \<open>State and server\<close>

definition demo_file :: "byte list" where
  "demo_file = [10, 11, 12, 13, 14, 15]"

definition demo_on :: "'l \<Rightarrow> u16 \<Rightarrow> u16 \<Rightarrow> fp \<Rightarrow> byte \<Rightarrow> 'l tsr" where
  "demo_on l al n dta om = \<lparr>link = l, mem = demo_mem dta om,
     glob_intregs = \<lparr>ax = 0x1100 + al, bx = 0, cx = n, dx = 0, di = 0, es = 0x2000, flags = 1\<rparr>,
     glob_data = \<lparr>prev_2f_handler = (0x70, 0x10), pspseg = 0, comport = 1, baudcode = 12, indos = (0, 0),
       ldrv = (replicate 26 0xFF)[2 := 0], prev_int28h = (0, 0), prev_int1ch = (0, 0)\<rparr>,
     glob_req_payload = replicate 512 0, glob_rep_payload = replicate 512 0,
     dir_batch = replicate 506 0, dir_batch_count = 0, dir_batch_idx = 0, dir_batch_more = 0, dir_hid = 0,
     stat_dirty = False, stat_enabled = False, glob_reqdrv = 2, glob_reqstkword = 0,
     glob_sdaptr = (0x1000, 0), glob_multiplexid = 0xC0\<rparr>"

abbreviation demo_tsr :: "u16 \<Rightarrow> u16 \<Rightarrow> fp \<Rightarrow> byte \<Rightarrow> byte list tsr" where
  "demo_tsr \<equiv> demo_on demo_file"

lemma demo_on_fields [simp]:
  "link (demo_on l al n dta om) = l" "mem (demo_on l al n dta om) = demo_mem dta om"
  "glob_intregs (demo_on l al n dta om) =
     \<lparr>ax = 0x1100 + al, bx = 0, cx = n, dx = 0, di = 0, es = 0x2000, flags = 1\<rparr>"
  "comport (glob_data (demo_on l al n dta om)) = 1"
  "ldrv (glob_data (demo_on l al n dta om)) = (replicate 26 0xFF)[2 := 0]"
  "length (glob_req_payload (demo_on l al n dta om)) = 512"
  "length (glob_rep_payload (demo_on l al n dta om)) = 512"
  "length (dir_batch (demo_on l al n dta om)) = 506" "dir_batch_count (demo_on l al n dta om) = 0"
  "glob_reqdrv (demo_on l al n dta om) = 2" "glob_sdaptr (demo_on l al n dta om) = (0x1000, 0)"
  "glob_multiplexid (demo_on l al n dta om) = 0xC0"
  "prev_2f_handler (glob_data (demo_on l al n dta om)) = (0x70, 0x10)"
  by (simp_all add: demo_on_def)

text \<open>Two directory entries, \<open>A.TXT\<close> and \<open>B.TXT\<close>, one page.\<close>

definition demo_entry :: "byte \<Rightarrow> byte list" where
  "demo_entry c = [c, 0x2E, 0x54, 0x58, 0x54, 0, 0, 0, 0, 0, 0, 0, 0x20, 0x21, 0x5A, 0, 0x60, 6, 0, 0, 0, 0, 0]"

definition demo_page :: "byte list list" where
  "demo_page = [demo_entry 0x42, demo_entry 0x41]"

definition demo_attrs :: "byte list" where
  "demo_attrs = [0x20, 6, 0, 0, 0, 0x21, 0x5A, 0, 0x60]"

definition demo_reply :: "byte \<Rightarrow> byte list \<Rightarrow> byte list \<Rightarrow> rpc_result \<times> byte list" where
  "demo_reply cmd req f =
     (if cmd = CMD_READ then (SERRPC_OK 0 (take (unat (get16 req 1)) (drop (unat (get32 req 3)) f)), f)
      else if cmd = CMD_WRITE then (SERRPC_OK 0 [], f @ drop 1 req)
      else if cmd = CMD_OPEN \<or> cmd = CMD_CREATE then (SERRPC_OK 0 [7], f)
      else if cmd = CMD_GET_ATTR then (SERRPC_OK 0 demo_attrs, f)
      else if cmd = CMD_LIST_DIR then (SERRPC_OK 0 (9 # concat demo_page), f)
      else if cmd = CMD_RMDIR then (SERRPC_OK ERR_ACCESS [], f)
      else (SERRPC_OK 0 [], f))"

definition demo_rpc :: "byte list rpc_fun" where
  "demo_rpc port cmd buf n f = Some (demo_reply cmd (take n buf) f)"

lemma demo_answers: "demo_reply cmd req f = res \<Longrightarrow> answers demo_rpc port cmd req f res"
  by (auto simp: answers_def demo_rpc_def)

section \<open>Facts about them\<close>

lemma demo_fits [simp]:
  "fits (0x2000, 0) 43" "fits (fadd (0x1000, 0) SDA_CURR_DTA) 4" "fits (fadd (0x1000, 0) SDA_FCB_FN1) 11"
  "fits (0x3000, 0) 4" "fits (0x1000, 0) 0x300"
  by (simp_all add: fits_def fadd_def)

lemma demo_cstring: "cstring (demo_mem dta om) (0x1000, 0x9E) demo_path"
  by (simp add: cstring_def peek_bytes_def upt_rec_numeral demo_eval)

lemma demo_path_at: "path_at (demo_on l al n dta om) demo_path"
  using demo_cstring [of dta om] by (simp add: path_at_def fadd_def demo_path_def)

lemma demo_no_wildcards: "no_wildcards demo_path"
  by (simp add: no_wildcards_def demo_path_def)

lemma demo_dta: "peek_fp (demo_mem dta om) (fadd (0x1000, 0) SDA_CURR_DTA) = dta"
  by (simp add: peek_fp_def peek16_def demo_eval prod_eq_iff)

lemma demo_io_layout: "io_layout (demo_mem (0x3000, 0) om) (0x1000, 0) (0x2000, 0) (0x3000, 0) 4"
  by (simp add: io_layout_def demo_dta) (simp add: apart_def lin_def fadd_def)

lemma demo_open_layout: "open_layout (demo_on l al n dta om) (0x2000, 0)"
  by (simp add: open_layout_def) (simp add: apart_def lin_def fadd_def)

lemma demo_sft_fields:
  "peek16 (demo_mem dta om) (fadd (0x2000, 0) SFT_OPEN_MODE) = ucast om"
  "peek16 (demo_mem dta om) (fadd (0x2000, 0) SFT_START_SECTOR) = 7"
  "peek32 (demo_mem dta om) (fadd (0x2000, 0) SFT_FILE_POS) = 3"
  by (simp_all add: peek16_def peek32_def demo_eval get_le16_def get_le32_def)

lemma get16_le16: "length pre = i \<Longrightarrow> get16 (pre @ le16 w @ rest) i = w"
  by (simp add: get16_def le16_def nth_append)

lemma get32_le32: "length pre = i \<Longrightarrow> get32 (pre @ le32 v @ rest) i = v"
  by (simp add: get32_def le32_def nth_append)

lemma demo_serves_reads: "serves_reads demo_rpc port 7 demo_file (\<lambda>f. f = demo_file)"
  unfolding serves_reads_def
  using get16_le16 [of "[7]" 1] get32_le32 [of "7 # le16 cnt" 3 _ "[]" for cnt]
  by (auto intro!: demo_answers simp: demo_reply_def)

lemma demo_serves_writes: "serves_writes demo_rpc port 7 (\<lambda>f. f) (\<lambda>_. True)"
  unfolding serves_writes_def
  by (intro allI impI) (rule exI, rule exI [of _ "[]"], auto intro!: demo_answers simp: demo_reply_def)

lemma demo_page_ok: "page_ok demo_page" "\<not> says_more demo_page"
  by (simp_all add: page_ok_def demo_page_def demo_entry_def says_more_def)

lemma demo_serves_listing: "serves_listing demo_rpc port [] 9 demo_page [] f"
  unfolding serves_listing_def using demo_page_ok
  by (auto intro!: demo_answers simp: demo_reply_def)

lemma demo_find_ready: "find_ready (demo_on l al n (0x1000, 0x19E) om)"
  by (simp add: find_ready_def sda_fits_def demo_dta) (simp add: fadd_def)

lemma demo_dir_path: "dir_path_at (demo_on l al n dta om) [] [0x41, 0x2E, 0x54, 0x58, 0x54]"
  using demo_cstring [of dta om] by (auto simp: dir_path_at_def fadd_def demo_path_def)

end
