(* ===== verification/Sdf_Line.thy ===== *)
theory Sdf_Line
  imports Sdf_Rpc
begin

text \<open>
  A serial line with a peer at the other end, as an instance of the hardware parameter of
  \<open>Sdf_Uart\<close>: a receive queue, the bytes transmitted since the last answer, and a tick
  counter that advances at every reading. The peer sees what has been transmitted and may
  answer it with bytes. The instance shows that the hypotheses about the hardware can hold,
  and it is where the call's behaviour against an answering and against a dead peer is stated.
  For arbitrary hardware, \<open>call_hears\<close> says what the attempts of a call hear on the line; result and
  counters of the call are functions of it.
\<close>

section \<open>The line\<close>

record line =
  rxq :: "byte list"
  txq :: "byte list"
  clock :: u32

type_synonym peer = "byte list \<Rightarrow> byte list option"

definition line_inp :: "u16 \<Rightarrow> line \<Rightarrow> byte \<times> line" where
  "line_inp p l =
     (if p AND 7 = UART_LSR then (if rxq l = [] then 0x60 else 0x61, l)
      else if p AND 7 = UART_RBR then
        (case rxq l of [] \<Rightarrow> (0, l) | b # bs \<Rightarrow> (b, l\<lparr>rxq := bs\<rparr>))
      else (0, l))"

definition line_outp :: "peer \<Rightarrow> u16 \<Rightarrow> byte \<Rightarrow> line \<Rightarrow> line" where
  "line_outp peer p b l =
     (if p AND 7 = UART_THR then
        (case peer (txq l @ [b]) of
           None \<Rightarrow> l\<lparr>txq := txq l @ [b]\<rparr>
         | Some r \<Rightarrow> l\<lparr>txq := [], rxq := rxq l @ r\<rparr>)
      else l)"

definition line_ticks :: "line \<Rightarrow> u32 \<times> line" where
  "line_ticks l = (clock l, l\<lparr>clock := clock l + 1\<rparr>)"

definition line_ops :: "peer \<Rightarrow> line uart_ops" where
  "line_ops peer = \<lparr>hw_inp = line_inp, hw_outp = line_outp peer, hw_ticks = line_ticks\<rparr>"

lemma line_ops_simps [simp]:
  "hw_inp (line_ops peer) = line_inp" "hw_outp (line_ops peer) = line_outp peer"
  "hw_ticks (line_ops peer) = line_ticks" "seruart_ticks (line_ops peer) = line_ticks"
  by (simp_all add: line_ops_def seruart_ticks_def fun_eq_iff)

lemma line_clock_inp [simp]: "clock (snd (line_inp p l)) = clock l"
  by (simp add: line_inp_def split: list.splits)

lemma line_poll_clock:
  "clock ((poll_turn (line_ops peer) base ^^ n) l) = clock l + of_nat n"
  by (induction n) (simp_all add: poll_turn_def line_ticks_def)

lemma line_timer_live: "timer_live (line_ops peer)"
  unfolding timer_live_def
proof (intro allI)
  fix base :: u16 and h :: line and start :: u32 and lim :: u16
  let ?n = "unat (ucast lim + start - clock h)"
  have "poll_time (line_ops peer) base ((poll_turn (line_ops peer) base ^^ ?n) h) - start = ucast lim"
    using line_poll_clock [where n = ?n and l = h]
    by (simp add: poll_time_def line_ticks_def)
  then show "\<exists>n. ucast lim \<le> poll_time (line_ops peer) base ((poll_turn (line_ops peer) base ^^ n) h) - start"
    by (intro exI [of _ ?n]) simp
qed

section \<open>Driver operations on the line\<close>

definition com_port :: "u16 \<Rightarrow> bool" where
  "com_port p \<longleftrightarrow> p = SERUART_COM1 \<or> p = SERUART_COM2"

lemma com_base_and [simp]:
  "com_port p \<Longrightarrow> (com_base p + UART_LSR) AND 7 = UART_LSR"
  "com_port p \<Longrightarrow> com_base p AND 7 = 0"
  by (auto simp: com_port_def com_base_def)

lemma line_inp_lsr [simp]:
  "com_port p \<Longrightarrow> line_inp (com_base p + UART_LSR) l = (if rxq l = [] then 0x60 else 0x61, l)"
  by (simp add: line_inp_def)

lemma line_inp_rbr [simp]:
  "com_port p \<Longrightarrow> rxq l = b # bs \<Longrightarrow> line_inp (com_base p) l = (b, l\<lparr>rxq := bs\<rparr>)"
  by (simp add: line_inp_def)

lemma poll_line_thre [simp]:
  "com_port p \<Longrightarrow> poll_lsr (line_ops peer) (com_base p) LSR_THRE t lim l = Some (True, l)"
  by (subst poll_lsr.simps) simp

lemma poll_line_dr [simp]:
  "com_port p \<Longrightarrow> rxq l \<noteq> [] \<Longrightarrow> poll_lsr (line_ops peer) (com_base p) LSR_DR t lim l = Some (True, l)"
  by (subst poll_lsr.simps) simp

lemma poll_line_empty:
  assumes "com_port p" "rxq l = []"
  shows "\<exists>c. poll_lsr (line_ops peer) (com_base p) LSR_DR t lim l = Some (False, l\<lparr>clock := c\<rparr>)"
  using assms(2)
proof (induction "unat lim - unat (clock l - t)" arbitrary: l rule: less_induct)
  case less
  show ?case
  proof (cases "lim \<le> clock l - t")
    case True
    then show ?thesis using assms less.prems
      by (subst poll_lsr.simps) (auto simp: line_ticks_def)
  next
    case False
    let ?l = "l\<lparr>clock := clock l + 1\<rparr>"
    have lt: "unat (clock l - t) < unat lim" using False by (simp add: word_less_nat_alt not_le)
    moreover have "unat lim < 2 ^ 32" using unsigned_less [of lim] by simp
    moreover have "clock ?l - t = (clock l - t) + 1" by simp
    ultimately have "unat (clock ?l - t) = Suc (unat (clock l - t))"
      by (simp only: unat_word_ariths) simp
    with lt have "unat lim - unat (clock ?l - t) < unat lim - unat (clock l - t)" by simp
    from less.hyps [OF this] less.prems obtain c where
      "poll_lsr (line_ops peer) (com_base p) LSR_DR t lim ?l = Some (False, ?l\<lparr>clock := c\<rparr>)" by auto
    then show ?thesis using assms less.prems False
      by (subst poll_lsr.simps) (auto simp: line_ticks_def)
  qed
qed

section \<open>Machines that contain a line\<close>

text \<open>
  What the driver needs of a machine to receive what is on a line in it: the status register and
  the receive register show the queue, and the tick counter goes on. The machine may be the line
  itself, a UART with a divisor latch, or a line with a server behind it.
\<close>

lemma empty_queue: "rxq l = [] \<Longrightarrow> l\<lparr>rxq := []\<rparr> = l"
  by (cases l) simp

locale line_like =
  fixes ops :: "'h uart_ops" and emb :: "line \<Rightarrow> 'h"
  assumes inp_lsr: "com_port p \<Longrightarrow> hw_inp ops (com_base p + UART_LSR) (emb l) = (if rxq l = [] then 0x60 else 0x61, emb l)"
    and inp_rbr: "com_port p \<Longrightarrow> rxq l = b # bs \<Longrightarrow> hw_inp ops (com_base p) (emb l) = (b, emb (l\<lparr>rxq := bs\<rparr>))"
    and ticks: "seruart_ticks ops (emb l) = (clock l, emb (l\<lparr>clock := clock l + 1\<rparr>))"
begin

lemma like_ready:
  "com_port p \<Longrightarrow> poll_lsr ops (com_base p) LSR_THRE t lim (emb l) = Some (True, emb l)"
  "com_port p \<Longrightarrow> rxq l \<noteq> [] \<Longrightarrow> poll_lsr ops (com_base p) LSR_DR t lim (emb l) = Some (True, emb l)"
  by (subst poll_lsr.simps, simp add: inp_lsr)+

lemma like_drain:
  "com_port p \<Longrightarrow> drain_loop ops (com_base p) n (emb l) = emb (l\<lparr>rxq := drop n (rxq l)\<rparr>)"
proof (induction n arbitrary: l)
  case (Suc n)
  then show ?case by (cases "rxq l") (simp_all add: inp_lsr inp_rbr empty_queue)
qed simp

lemma like_putchar:
  "com_port p \<Longrightarrow> seruart_putchar ops p c (emb l) = Some (hw_outp ops (com_base p) c (emb (l\<lparr>clock := clock l + 1\<rparr>)))"
  by (simp add: seruart_putchar_def ticks like_ready)

text \<open>A block whose bytes before the last one only queue up.\<close>

lemma like_send:
  assumes "com_port p" "len \<le> length buf"
    and "\<And>k c. k < len \<Longrightarrow> hw_outp ops (com_base p) (buf ! k) (emb (l\<lparr>txq := txq l @ take k buf, clock := c\<rparr>)) =
      emb (l\<lparr>txq := txq l @ take (Suc k) buf, clock := c\<rparr>)"
  shows "\<exists>c. send_loop ops p buf len (emb l) = Some (emb (l\<lparr>txq := txq l @ take len buf, clock := c\<rparr>))"
  using assms(2,3)
proof (induction len)
  case 0
  then show ?case by (auto intro!: exI [of _ "clock l"])
next
  case (Suc len)
  then obtain c where "send_loop ops p buf len (emb l) = Some (emb (l\<lparr>txq := txq l @ take len buf, clock := c\<rparr>))" by auto
  then show ?case
    using like_putchar [OF assms(1), of "buf ! len" "l\<lparr>txq := txq l @ take len buf, clock := c\<rparr>"] Suc.prems(2) [of len "c + 1"]
    by (intro exI [of _ "c + 1"]) simp
qed

lemma like_send_last:
  assumes "com_port p" "0 < len" "len \<le> length buf"
    and "\<And>k c. Suc k < len \<Longrightarrow> hw_outp ops (com_base p) (buf ! k) (emb (l\<lparr>txq := txq l @ take k buf, clock := c\<rparr>)) =
      emb (l\<lparr>txq := txq l @ take (Suc k) buf, clock := c\<rparr>)"
  shows "\<exists>c. seruart_send_block ops p buf len (emb l) =
    Some (hw_outp ops (com_base p) (buf ! (len - 1)) (emb (l\<lparr>txq := txq l @ take (len - 1) buf, clock := c\<rparr>)))"
proof -
  obtain k where k: "len = Suc k" using assms(2) by (cases len) auto
  obtain c where "send_loop ops p buf k (emb l) = Some (emb (l\<lparr>txq := txq l @ take k buf, clock := c\<rparr>))"
    using like_send [OF assms(1), of k buf l] assms(3,4) k by auto
  then show ?thesis
    using like_putchar [OF assms(1), of "buf ! k" "l\<lparr>txq := txq l @ take k buf, clock := c\<rparr>"] k
    by (intro exI [of _ "c + 1"]) (simp add: seruart_send_block_def)
qed

lemma like_recv_loop:
  assumes "com_port p" "rxq l = bs @ rest" "length bs = n" "off + i + n \<le> length buf"
  shows "recv_loop ops (com_base p) t lim off n i buf (emb l) =
    Some (i + n, take (off + i) buf @ bs @ drop (off + i + n) buf, emb (l\<lparr>rxq := rest\<rparr>))"
  using assms(2-)
proof (induction n arbitrary: i bs buf l)
  case 0
  then show ?case by auto
next
  case (Suc n)
  then obtain b bs' where bs: "bs = b # bs'" by (cases bs) auto
  have "recv_loop ops (com_base p) t lim off n (Suc i) (buf[off + i := b]) (emb (l\<lparr>rxq := bs' @ rest\<rparr>)) =
    Some (Suc i + n, take (off + Suc i) (buf[off + i := b]) @ bs' @ drop (off + Suc i + n) (buf[off + i := b]),
      emb (l\<lparr>rxq := bs' @ rest\<rparr>\<lparr>rxq := rest\<rparr>))"
    by (rule Suc.IH) (use Suc.prems bs in auto)
  moreover have "take (off + Suc i) (buf[off + i := b]) = take (off + i) buf @ [b]"
    using Suc.prems by (simp add: take_nth_Suc)
  ultimately show ?case using assms(1) Suc.prems bs by (simp add: like_ready inp_rbr)
qed

lemma like_recv:
  assumes "com_port p" "rxq l = bs @ rest" "length bs = n" "off + n \<le> length buf"
  shows "\<exists>c. seruart_recv_block_timeout ops p buf off n tk (emb l) =
    Some (n, take off buf @ bs @ drop (off + n) buf, emb (l\<lparr>rxq := rest, clock := c\<rparr>))"
  using like_recv_loop [of p "l\<lparr>clock := clock l + 1\<rparr>" bs rest n off 0 buf] assms
  by (auto simp: seruart_recv_block_timeout_def ticks Let_def intro!: exI [of _ "clock l + 1"] arg_cong [of _ _ emb])

lemma like_receive:
  assumes "com_port p" "rpc_ok s" "length rp \<le> 512" "hw s = emb l"
    "rxq l = frame_wire cmd' (serrpc_seq s) fl st rp @ rest"
  shows "\<exists>s' c. rpc_receive ops p s = Some (Reply st rp, s') \<and> rpc_ok s' \<and> hw s' = emb (l\<lparr>rxq := rest, clock := c\<rparr>) \<and>
    serrpc_seq s' = serrpc_seq s \<and> rstats s' = count_rx (12 + length rp) (rstats s)"
proof -
  let ?w = "frame_wire cmd' (serrpc_seq s) fl st rp"
  let ?n = "length rp"
  have w: "?w = take 10 ?w @ drop 10 ?w" by simp
  obtain c where r1: "seruart_recv_block_timeout ops p (serrpc_rxbuf s) 0 10 90 (hw s) =
      Some (10, take 10 ?w @ drop 10 (serrpc_rxbuf s), emb (l\<lparr>rxq := drop 10 ?w @ rest, clock := c\<rparr>))"
    using like_recv [of p l "take 10 ?w" "drop 10 ?w @ rest" 10 0 "serrpc_rxbuf s" 90] assms
    by (auto simp: rpc_ok_def min_def simp flip: append_assoc)
  let ?rx = "take 10 ?w @ drop 10 (serrpc_rxbuf s)"
  obtain c' where r2: "seruart_recv_block_timeout ops p ?rx 10 (?n + 2) 90
        (emb (l\<lparr>rxq := drop 10 ?w @ rest, clock := c\<rparr>)) =
      Some (?n + 2, ?w @ drop (?n + 12) (serrpc_rxbuf s), emb (l\<lparr>rxq := rest, clock := c'\<rparr>))"
    using like_recv [of p "l\<lparr>rxq := drop 10 ?w @ rest, clock := c\<rparr>" "drop 10 ?w" rest "?n + 2" 10 ?rx 90] assms
    by (auto simp: rpc_ok_def min_def ac_simps simp flip: append_assoc)
  have hd: "frame_at (?w @ rest') ?n"
    "hdr_at (?w @ rest') = \<lparr>version = 1, flags = fl, seq = serrpc_seq s, command = cmd', status = st, payload_len = ?n\<rparr>"
    for rest' using frame_at_wire [OF assms(3)] by blast+
  have nth: "?rx ! k = ?w ! k" if "k < 10" for k using that by (simp add: nth_append)
  have hd': "?w ! 0 = FRAME_MAGIC_0" "?w ! 1 = FRAME_MAGIC_1" "unat (get_le16 (?w ! 8) (?w ! 9)) = ?n"
    using hd(1) [of "[]"] by (simp_all add: frame_at_def)
  let ?buf = "?w @ drop (?n + 12) (serrpc_rxbuf s)"
  obtain cs where dec: "frame_decode ?buf (12 + ?n) (crc_st s) = (Inr (hdr_at ?buf, 10, ?n), cs)"
    using frame_decode_accepts [of "crc_st s" "12 + ?n" ?buf "hdr_at ?buf" 10 ?n] assms(2) hd(1)
    by (cases "frame_decode ?buf (12 + ?n) (crc_st s)") (auto simp: rpc_ok_def)
  have cs: "crc_ok cs"
    using frame_decode_crc_ok [of "crc_st s" ?buf "12 + ?n"] dec assms(2) by (simp add: rpc_ok_def)
  have rp: "take ?n (drop 10 ?buf) = rp" by (simp add: frame_wire_def frame_body_def)
  have "rpc_receive ops p s = Some (Reply st rp,
     s\<lparr>hw := emb (l\<lparr>rxq := rest, clock := c'\<rparr>), serrpc_rxbuf := ?buf, crc_st := cs,
       rstats := count_rx (12 + ?n) (rstats s)\<rparr>)"
    unfolding rpc_receive_def r1 bind.bind_lunit prod.case Let_def
    using assms(3) nth [of 0] nth [of 1] nth [of 8] nth [of 9] hd' r2 dec hd(2) rp
    by (simp add: rpc_receive_body_def Let_def)
  then show ?thesis using assms(2,3) cs by (auto simp: rpc_ok_def)
qed

end

interpretation plain: line_like "line_ops peer" "\<lambda>l. l" for peer
  by unfold_locales (auto simp: line_inp_def line_ticks_def com_base_and)

section \<open>The line itself\<close>

lemma send_line_quiet:
  assumes "com_port p" "len \<le> length buf" "\<forall>j. 0 < j \<and> j \<le> len \<longrightarrow> peer (txq l @ take j buf) = None"
  shows "\<exists>c. send_loop (line_ops peer) p buf len l = Some (l\<lparr>txq := txq l @ take len buf, clock := c\<rparr>)"
proof (rule plain.like_send [OF assms(1,2)])
  fix k c
  assume "k < len"
  then have t: "take (Suc k) buf = take k buf @ [buf ! k]" using assms(2) by (simp add: take_nth_Suc)
  have "peer (txq l @ take (Suc k) buf) = None" using \<open>k < len\<close> assms(3) by simp
  then show "hw_outp (line_ops peer) (com_base p) (buf ! k) (l\<lparr>txq := txq l @ take k buf, clock := c\<rparr>) =
      l\<lparr>txq := txq l @ take (Suc k) buf, clock := c\<rparr>"
    using assms(1) by (simp add: line_outp_def t)
qed

lemma send_line_answer:
  assumes "com_port p" "0 < len" "len \<le> length buf"
    "\<forall>j. 0 < j \<and> j < len \<longrightarrow> peer (txq l @ take j buf) = None"
    "peer (txq l @ take len buf) = Some r"
  shows "\<exists>c. seruart_send_block (line_ops peer) p buf len l =
    Some (l\<lparr>rxq := rxq l @ r, txq := [], clock := c\<rparr>)"
proof -
  obtain k where k: "len = Suc k" using assms(2) by (cases len) auto
  obtain c where "send_loop (line_ops peer) p buf k l = Some (l\<lparr>txq := txq l @ take k buf, clock := c\<rparr>)"
    using send_line_quiet [OF assms(1), of k buf peer l] assms(3,4) k by auto
  then show ?thesis using assms(1,3,5) k
    by (auto simp: seruart_send_block_def plain.like_putchar line_outp_def take_nth_Suc
        intro!: exI [of _ "c + 1"] line.equality)
qed

lemmas drain_line = plain.like_drain

lemmas recv_block_line = plain.like_recv

lemma recv_block_dead:
  assumes "com_port p" "rxq l = []" "0 < n"
  shows "\<exists>c. seruart_recv_block_timeout (line_ops peer) p buf off n ticks l = Some (0, buf, l\<lparr>clock := c\<rparr>)"
proof -
  obtain m where n: "n = Suc m" using assms(3) by (cases n) auto
  show ?thesis
    using poll_line_empty [of p "l\<lparr>clock := clock l + 1\<rparr>" peer "clock l" "ucast ticks"] assms(1,2)
    by (auto simp: seruart_recv_block_timeout_def line_ticks_def Let_def n)
qed

section \<open>The call over the line\<close>

lemma rpc_send_line:
  assumes "com_port p" "length (rxq (hw s)) \<le> 64" "0 < n" "n \<le> length (serrpc_txbuf s)"
    "\<forall>j. 0 < j \<and> j < n \<longrightarrow> peer (txq (hw s) @ take j (serrpc_txbuf s)) = None"
  shows "\<exists>c. rpc_send (line_ops peer) p n a s =
     Some (s\<lparr>hw := (case peer (txq (hw s) @ take n (serrpc_txbuf s)) of
                None \<Rightarrow> (hw s)\<lparr>rxq := [], txq := txq (hw s) @ take n (serrpc_txbuf s), clock := c\<rparr>
              | Some r \<Rightarrow> (hw s)\<lparr>rxq := r, txq := [], clock := c\<rparr>),
            rstats := count_tx n (if a > 0 then count_retry (rstats s) else rstats s)\<rparr>)"
proof -
  let ?h = "(hw s)\<lparr>rxq := []\<rparr>"
  have drain: "seruart_drain (line_ops peer) p (hw s) = ?h"
    using drain_line [OF assms(1), of peer 64 "hw s"] assms(2) by (simp add: seruart_drain_def)
  show ?thesis
  proof (cases "peer (txq (hw s) @ take n (serrpc_txbuf s))")
    case None
    then have "\<forall>j. 0 < j \<and> j \<le> n \<longrightarrow> peer (txq ?h @ take j (serrpc_txbuf s)) = None"
      using assms(5) by (auto simp: le_less)
    from send_line_quiet [OF assms(1,4) this] None drain show ?thesis
      by (auto simp: rpc_send_def Let_def seruart_send_block_def)
  next
    case (Some r)
    then show ?thesis
      using send_line_answer [OF assms(1,3,4), of peer ?h r] assms(5) drain
      by (auto simp: rpc_send_def Let_def)
  qed
qed

lemma rpc_receive_line:
  assumes "com_port p" "rpc_ok s" "length rp \<le> 512"
    "rxq (hw s) = frame_wire cmd' (serrpc_seq s) fl st rp @ rest"
  shows "\<exists>s'. rpc_receive (line_ops peer) p s = Some (Reply st rp, s') \<and> rpc_ok s' \<and>
    rxq (hw s') = rest \<and> txq (hw s') = txq (hw s) \<and> serrpc_seq s' = serrpc_seq s \<and>
    rstats s' = count_rx (12 + length rp) (rstats s)"
  using plain.like_receive [OF assms(1-3) refl assms(4)] by fastforce

lemma rpc_answered:
  assumes "com_port p" "rpc_ok s" "plen \<le> 512" "plen \<le> length payload" "length rp \<le> 512"
    "txq (hw s) = []" "length (rxq (hw s)) \<le> 64"
    and silent: "\<forall>j. 0 < j \<and> j < 12 + plen \<longrightarrow> peer (take j (sent_frame cmd payload plen s)) = None"
    and answer: "peer (sent_frame cmd payload plen s) = Some (frame_wire cmd' (next_seq (serrpc_seq s)) fl st rp)"
  shows "\<exists>s'. serial_rpc (line_ops peer) p cmd payload plen s = Some (SERRPC_OK st rp, s') \<and>
    rpc_ok s' \<and> serrpc_seq s' = next_seq (serrpc_seq s) \<and> rxq (hw s') = [] \<and> txq (hw s') = [] \<and>
    rstats s' = count_rx (12 + length rp) (count_tx (12 + plen) (rstats s))"
proof -
  let ?req = "sent_frame cmd payload plen s"
  let ?sq = "next_seq (serrpc_seq s)"
  have len: "length ?req = 12 + plen" using assms(4) by (simp add: sent_frame_def)
  obtain c where c: "crc_ok c" and enc: "frame_encode cmd ?sq 0 0 payload plen (serrpc_txbuf s) (crc_st s) =
     (12 + plen, ?req @ drop (12 + plen) (serrpc_txbuf s), c)"
    using frame_encode_spec [of "crc_st s" plen payload "serrpc_txbuf s" cmd ?sq 0 0] assms(2-4)
    by (auto simp: rpc_ok_def sent_frame_def)
  let ?tx = "?req @ drop (12 + plen) (serrpc_txbuf s)"
  let ?s = "s\<lparr>serrpc_seq := ?sq, serrpc_txbuf := ?tx, crc_st := c\<rparr>"
  have ok: "rpc_ok ?s" using assms(2,3) c len by (simp add: rpc_ok_def)
  obtain cl where send: "rpc_send (line_ops peer) p (12 + plen) 0 ?s =
     Some (?s\<lparr>hw := (hw s)\<lparr>rxq := frame_wire cmd' ?sq fl st rp, txq := [], clock := cl\<rparr>,
       rstats := count_tx (12 + plen) (rstats s)\<rparr>)"
    using rpc_send_line [OF assms(1), of ?s "12 + plen" peer 0] assms(6,7) silent answer len by auto
  let ?s1 = "?s\<lparr>hw := (hw s)\<lparr>rxq := frame_wire cmd' ?sq fl st rp, txq := [], clock := cl\<rparr>,
       rstats := count_tx (12 + plen) (rstats s)\<rparr>"
  have "rpc_ok ?s1" using ok by (simp add: rpc_ok_def)
  then obtain s' where s': "rpc_receive (line_ops peer) p ?s1 = Some (Reply st rp, s')" "rpc_ok s'"
    "rxq (hw s') = []" "txq (hw s') = []" "serrpc_seq s' = ?sq"
    "rstats s' = count_rx (12 + length rp) (count_tx (12 + plen) (rstats s))"
    using rpc_receive_line [OF assms(1), of ?s1 rp cmd' fl st "[]" peer] assms(5) by auto
  have "rpc_attempt (line_ops peer) p (12 + plen) 0 ?s = Some (Reply st rp, s')"
    unfolding rpc_attempt_def send bind.bind_lunit by (rule s'(1))
  then have "rpc_loop (line_ops peer) p (12 + plen) (Suc 9) 0 ?s = Some (SERRPC_OK st rp, s')"
    by (simp only: rpc_loop.simps bind.bind_lunit prod.case attempt_result.case)
  then show ?thesis using s' by (simp add: serial_rpc_def enc)
qed

text \<open>A peer that never answers: the call sends ten copies of the frame and gives up.\<close>

abbreviation dead_ops :: "line uart_ops" where
  "dead_ops \<equiv> line_ops (\<lambda>_. None)"

lemma rpc_attempt_dead:
  assumes "com_port p" "length (rxq (hw s)) \<le> 64" "0 < n" "n \<le> length (serrpc_txbuf s)"
  shows "\<exists>c. rpc_attempt dead_ops p n a s = Some (Retry,
    s\<lparr>hw := (hw s)\<lparr>rxq := [], txq := txq (hw s) @ take n (serrpc_txbuf s), clock := c\<rparr>,
      rstats := count_timeout (count_tx n (if a > 0 then count_retry (rstats s) else rstats s))\<rparr>)"
proof -
  let ?h = "\<lambda>c. (hw s)\<lparr>rxq := [], txq := txq (hw s) @ take n (serrpc_txbuf s), clock := c\<rparr>"
  let ?st = "count_tx n (if a > 0 then count_retry (rstats s) else rstats s)"
  obtain c where send: "rpc_send dead_ops p n a s = Some (s\<lparr>hw := ?h c, rstats := ?st\<rparr>)"
    using rpc_send_line [OF assms, of "\<lambda>_. None" a] by auto
  obtain c' where recv: "seruart_recv_block_timeout dead_ops p (serrpc_rxbuf s) 0 10 90 (?h c) =
      Some (0, serrpc_rxbuf s, ?h c')"
    using recv_block_dead [OF assms(1), of "?h c" 10 "\<lambda>_. None" "serrpc_rxbuf s" 0 90] by auto
  show ?thesis
    by (rule exI [of _ c']) (simp add: rpc_attempt_def send rpc_receive_def recv Let_def)
qed

lemma rpc_loop_dead:
  assumes "com_port p" "length (rxq (hw s)) \<le> 64" "0 < n" "n \<le> length (serrpc_txbuf s)" "0 < a"
  shows "\<exists>c. rpc_loop dead_ops p n k a s = Some (SERRPC_ERR_TIMEOUT,
    s\<lparr>hw := (hw s)\<lparr>rxq := (if k = 0 then rxq (hw s) else []),
                  txq := txq (hw s) @ concat (replicate k (take n (serrpc_txbuf s))), clock := c\<rparr>,
      rstats := (rstats s)\<lparr>stat_tx_bytes := stat_tx_bytes (rstats s) + of_nat (k * n),
        stat_timeouts := stat_timeouts (rstats s) + of_nat k,
        stat_retries := stat_retries (rstats s) + of_nat k\<rparr>\<rparr>)"
  using assms(2-)
proof (induction k arbitrary: s a)
  case 0
  show ?case by (rule exI [of _ "clock (hw s)"]) simp
next
  case (Suc k)
  obtain c where att: "rpc_attempt dead_ops p n a s = Some (Retry,
    s\<lparr>hw := (hw s)\<lparr>rxq := [], txq := txq (hw s) @ take n (serrpc_txbuf s), clock := c\<rparr>,
      rstats := count_timeout (count_tx n (count_retry (rstats s)))\<rparr>)" (is "_ = Some (Retry, ?s)")
    using rpc_attempt_dead [OF assms(1) Suc.prems(1-3), of a] Suc.prems(4) by auto
  obtain c' where "rpc_loop dead_ops p n k (Suc a) ?s = Some (SERRPC_ERR_TIMEOUT,
    ?s\<lparr>hw := (hw ?s)\<lparr>rxq := (if k = 0 then rxq (hw ?s) else []),
                  txq := txq (hw ?s) @ concat (replicate k (take n (serrpc_txbuf ?s))), clock := c'\<rparr>,
      rstats := (rstats ?s)\<lparr>stat_tx_bytes := stat_tx_bytes (rstats ?s) + of_nat (k * n),
        stat_timeouts := stat_timeouts (rstats ?s) + of_nat k,
        stat_retries := stat_retries (rstats ?s) + of_nat k\<rparr>\<rparr>)"
    using Suc.IH [of ?s "Suc a"] Suc.prems by auto
  then show ?case
    by (intro exI [of _ c']) (simp add: att count_defs algebra_simps)
qed

lemma rpc_dead:
  assumes "com_port p" "rpc_ok s" "plen \<le> 512" "plen \<le> length payload" "length (rxq (hw s)) \<le> 64"
  shows "\<exists>s'. serial_rpc dead_ops p cmd payload plen s = Some (SERRPC_ERR_TIMEOUT, s') \<and> rpc_ok s' \<and>
    rxq (hw s') = [] \<and>
    txq (hw s') = txq (hw s) @ concat (replicate 10 (sent_frame cmd payload plen s)) \<and>
    rstats s' = (rstats s)\<lparr>stat_tx_bytes := stat_tx_bytes (rstats s) + of_nat (10 * (12 + plen)),
      stat_timeouts := stat_timeouts (rstats s) + 10, stat_retries := stat_retries (rstats s) + 9\<rparr>"
proof -
  let ?req = "sent_frame cmd payload plen s"
  let ?sq = "next_seq (serrpc_seq s)"
  have len: "length ?req = 12 + plen" using assms(4) by (simp add: sent_frame_def)
  obtain c where c: "crc_ok c" and enc: "frame_encode cmd ?sq 0 0 payload plen (serrpc_txbuf s) (crc_st s) =
     (12 + plen, ?req @ drop (12 + plen) (serrpc_txbuf s), c)"
    using frame_encode_spec [of "crc_st s" plen payload "serrpc_txbuf s" cmd ?sq 0 0] assms(2-4)
    by (auto simp: rpc_ok_def sent_frame_def)
  let ?s = "s\<lparr>serrpc_seq := ?sq, serrpc_txbuf := ?req @ drop (12 + plen) (serrpc_txbuf s), crc_st := c\<rparr>"
  have tx: "12 + plen \<le> length (serrpc_txbuf ?s)" using len by simp
  obtain cl where att: "rpc_attempt dead_ops p (12 + plen) 0 ?s = Some (Retry,
    ?s\<lparr>hw := (hw s)\<lparr>rxq := [], txq := txq (hw s) @ ?req, clock := cl\<rparr>,
      rstats := count_timeout (count_tx (12 + plen) (rstats s))\<rparr>)" (is "_ = Some (Retry, ?s1)")
    using rpc_attempt_dead [OF assms(1) _ _ tx, of 0] assms(5) len by auto
  obtain s' where s': "rpc_loop dead_ops p (12 + plen) 9 1 ?s1 = Some (SERRPC_ERR_TIMEOUT, s')"
    "hw s' = (hw s)\<lparr>rxq := [], txq := txq (hw s) @ ?req @ concat (replicate 9 ?req), clock := clock (hw s')\<rparr>"
    "rstats s' = (rstats s)\<lparr>stat_tx_bytes := stat_tx_bytes (rstats s) + of_nat (10 * (12 + plen)),
      stat_timeouts := stat_timeouts (rstats s) + 10, stat_retries := stat_retries (rstats s) + 9\<rparr>"
    "serrpc_txbuf s' = serrpc_txbuf ?s" "serrpc_rxbuf s' = serrpc_rxbuf s" "crc_st s' = c"
    using rpc_loop_dead [OF assms(1), of ?s1 "12 + plen" 1 9] tx len
    by (auto simp: count_defs algebra_simps)
  have "rpc_loop dead_ops p (12 + plen) (Suc 9) 0 ?s = Some (SERRPC_ERR_TIMEOUT, s')"
    using s'(1) by (simp only: rpc_loop.simps att bind.bind_lunit prod.case attempt_result.case One_nat_def)
  then have "serial_rpc dead_ops p cmd payload plen s = Some (SERRPC_ERR_TIMEOUT, s')"
    by (simp add: serial_rpc_def enc)
  moreover have "txq (hw s') = txq (hw s) @ concat (replicate 10 ?req)"
    using arg_cong [OF s'(2), of txq] by (simp add: eval_nat_numeral)
  moreover have "rxq (hw s') = []" using arg_cong [OF s'(2), of rxq] by simp
  moreover have "rpc_ok s'" using s' assms(2,3) c len by (simp add: rpc_ok_def)
  ultimately show ?thesis using s'(3) by blast
qed

section \<open>What a call hears\<close>

text \<open>
  The reference for the counters, in terms of the driver and of the frame format only: what one
  attempt hears after it has sent the frame. \<open>Timed_out\<close> is a header or a body that does not
  arrive in full, \<open>Damaged\<close> a complete frame that is not well formed, \<open>Ignored\<close> something that
  is no frame of the protocol or has another sequence number, \<open>Answered\<close> the reply.
\<close>

datatype heard = Timed_out | Damaged | Ignored | Answered byte "byte list"

inductive attempt_hears ::
  "'h uart_ops \<Rightarrow> u16 \<Rightarrow> byte \<Rightarrow> byte list \<Rightarrow> 'h \<Rightarrow> heard \<Rightarrow> byte list \<Rightarrow> 'h \<Rightarrow> bool"
  for ops port sq rx h where
  no_header: "seruart_recv_block_timeout ops port rx 0 10 90 h = Some (got, rx1, h1) \<Longrightarrow> got < 10 \<Longrightarrow>
    attempt_hears ops port sq rx h Timed_out rx1 h1"
| no_frame: "seruart_recv_block_timeout ops port rx 0 10 90 h = Some (got, rx1, h1) \<Longrightarrow> 10 \<le> got \<Longrightarrow>
    rx1 ! 0 \<noteq> 0x53 \<or> rx1 ! 1 \<noteq> 0x44 \<or> unat (get_le16 (rx1 ! 8) (rx1 ! 9)) > 512 \<Longrightarrow>
    attempt_hears ops port sq rx h Ignored rx1 h1"
| body: "seruart_recv_block_timeout ops port rx 0 10 90 h = Some (got, rx1, h1) \<Longrightarrow> 10 \<le> got \<Longrightarrow>
    rx1 ! 0 = 0x53 \<Longrightarrow> rx1 ! 1 = 0x44 \<Longrightarrow> n = unat (get_le16 (rx1 ! 8) (rx1 ! 9)) \<Longrightarrow> n \<le> 512 \<Longrightarrow>
    seruart_recv_block_timeout ops port rx1 10 (n + 2) 90 h1 = Some (got', rx2, h2) \<Longrightarrow>
    e = (if got' < n + 2 then Timed_out
         else if \<not> frame_at rx2 n then Damaged
         else if rx2 ! 4 \<noteq> sq then Ignored
         else Answered (rx2 ! 6) (take n (drop 10 rx2))) \<Longrightarrow>
    attempt_hears ops port sq rx h e rx2 h2"

fun answered :: "heard \<Rightarrow> bool" where
  "answered (Answered _ _) = True"
| "answered _ = False"

text \<open>
  A call: the attempts, at most \<open>k\<close>, each of which empties the receiver and sends the first \<open>n\<close>
  bytes of \<open>tx\<close>; an answer ends the call.
\<close>

inductive call_hears ::
  "'h uart_ops \<Rightarrow> u16 \<Rightarrow> byte \<Rightarrow> byte list \<Rightarrow> nat \<Rightarrow> nat \<Rightarrow> byte list \<Rightarrow> 'h \<Rightarrow> heard list \<Rightarrow> byte list \<Rightarrow> 'h \<Rightarrow> bool"
  for ops port sq tx n where
  given_up: "call_hears ops port sq tx n 0 rx h [] rx h"
| attempt: "seruart_send_block ops port tx n (seruart_drain ops port h) = Some h1 \<Longrightarrow>
    attempt_hears ops port sq rx h1 e rx1 h2 \<Longrightarrow>
    (if answered e then es = [] \<and> rx' = rx1 \<and> h' = h2
     else call_hears ops port sq tx n k rx1 h2 es rx' h') \<Longrightarrow>
    call_hears ops port sq tx n (Suc k) rx h (e # es) rx' h'"

definition reply_bytes :: "heard \<Rightarrow> nat" where
  "reply_bytes e = (case e of Answered _ rp \<Rightarrow> 12 + length rp | _ \<Rightarrow> 0)"

text \<open>The counters after a call that has heard \<open>es\<close>, with \<open>r\<close> retries of an \<open>n\<close>-byte frame.\<close>

definition tally :: "nat \<Rightarrow> nat \<Rightarrow> heard list \<Rightarrow> rpc_stats \<Rightarrow> rpc_stats" where
  "tally n r es t = \<lparr>
     stat_tx_bytes = stat_tx_bytes t + of_nat (length es * n),
     stat_rx_bytes = stat_rx_bytes t + of_nat (sum_list (map reply_bytes es)),
     stat_crc_errs = stat_crc_errs t + of_nat (count_list es Damaged),
     stat_timeouts = stat_timeouts t + of_nat (count_list es Timed_out),
     stat_retries = stat_retries t + of_nat r\<rparr>"

lemma tally_Nil [simp]: "tally n 0 [] t = t"
  by (cases t) (simp add: tally_def)

lemma tally_tally: "tally n r' es' (tally n r es t) = tally n (r + r') (es @ es') t"
  by (simp add: tally_def algebra_simps)

definition result_of :: "heard \<Rightarrow> attempt_result" where
  "result_of e = (case e of Answered st rp \<Rightarrow> Reply st rp | _ \<Rightarrow> Retry)"

text \<open>\<open>tallied\<close>: the counters of \<open>t'\<close> are those of \<open>t\<close> with one thing heard.\<close>

definition tallied :: "heard \<Rightarrow> rpc_stats \<Rightarrow> rpc_stats" where
  "tallied e t = t\<lparr>
     stat_rx_bytes := stat_rx_bytes t + of_nat (reply_bytes e),
     stat_crc_errs := stat_crc_errs t + (if e = Damaged then 1 else 0),
     stat_timeouts := stat_timeouts t + (if e = Timed_out then 1 else 0)\<rparr>"

lemma frame_decode_heard:
  assumes "crc_ok c" "12 + n \<le> length rx" "n = unat (get_le16 (rx ! 8) (rx ! 9))"
  shows "fst (frame_decode rx (12 + n) c) =
    (if frame_at rx n then Inr (hdr_at rx, 10, n) else Inl (projl (fst (frame_decode rx (12 + n) c))))"
proof (cases "fst (frame_decode rx (12 + n) c)")
  case (Inl e)
  then show ?thesis
    using frame_decode_accepts [OF assms(1,2), of "hdr_at rx" 10 n] by auto
next
  case (Inr x)
  then obtain hd off m where x: "fst (frame_decode rx (12 + n) c) = Inr (hd, off, m)"
    by (cases x) auto
  then have "frame_at rx m" "hd = hdr_at rx" "off = 10"
    using frame_decode_accepts [OF assms(1,2), of hd off m] by auto
  moreover from this(1) assms(3) have "m = n" by (simp add: frame_at_def)
  ultimately show ?thesis using x by simp
qed

lemma rpc_receive_body_heard:
  assumes "rpc_receive_body ops port n s = Some (r, s')" "rpc_ok s"
    and "n = unat (get_le16 (serrpc_rxbuf s ! 8) (serrpc_rxbuf s ! 9))" "n \<le> 512"
  shows "\<exists>got' e. seruart_recv_block_timeout ops port (serrpc_rxbuf s) 10 (n + 2) 90 (hw s) =
      Some (got', serrpc_rxbuf s', hw s') \<and>
    e = (if got' < n + 2 then Timed_out
         else if \<not> frame_at (serrpc_rxbuf s') n then Damaged
         else if serrpc_rxbuf s' ! 4 \<noteq> serrpc_seq s then Ignored
         else Answered (serrpc_rxbuf s' ! 6) (take n (drop 10 (serrpc_rxbuf s')))) \<and>
    r = result_of e \<and> rstats s' = tallied e (rstats s)"
proof -
  from assms(1) obtain got rx h where
    rcv: "seruart_recv_block_timeout ops port (serrpc_rxbuf s) 10 (n + 2) 90 (hw s) = Some (got, rx, h)"
    by (auto simp: rpc_receive_body_def split: bind_splits)
  have len: "length rx = 524" and same: "\<forall>j<10. rx ! j = serrpc_rxbuf s ! j"
    using recv_block_bounds [OF rcv] assms(2) by (auto simp: rpc_ok_def)
  obtain rc c where d: "frame_decode rx (12 + n) (crc_st s) = (rc, c)" by fastforce
  have rc: "rc = (if frame_at rx n then Inr (hdr_at rx, 10, n) else Inl (projl rc))"
  proof -
    have "crc_ok (crc_st s)" "12 + n \<le> length rx" "n = unat (get_le16 (rx ! 8) (rx ! 9))"
      using assms(2-4) len same by (simp_all add: rpc_ok_def)
    from frame_decode_heard [OF this] show ?thesis unfolding d fst_conv .
  qed
  show ?thesis
  proof (cases "got < n + 2")
    case True
    with assms(1) have "Some (Retry, s\<lparr>hw := h, serrpc_rxbuf := rx, rstats := count_timeout (rstats s)\<rparr>) = Some (r, s')"
      by (simp add: rpc_receive_body_def rcv Let_def)
    then show ?thesis using True
      by (auto simp: rcv result_of_def tallied_def reply_bytes_def count_timeout_def)
  next
    case False
    show ?thesis
    proof (cases "frame_at rx n")
      case fa: True
      then have ok: "rc = Inr (hdr_at rx, 10, n)" using rc by simp
      show ?thesis
      proof (cases "rx ! 4 = serrpc_seq s")
        case True
        have "r = Reply (rx ! 6) (take n (drop 10 rx)) \<and>
          s' = s\<lparr>hw := h, serrpc_rxbuf := rx, crc_st := c, rstats := count_rx (12 + n) (rstats s)\<rparr>"
          using False assms(1) True by (auto simp: rpc_receive_body_def rcv d Let_def hdr_at_def ok)
        then show ?thesis using False fa True len assms(4)
          by (auto simp: rcv result_of_def tallied_def reply_bytes_def count_rx_def)
      next
        case stale: False
        have "r = Retry \<and> s' = s\<lparr>hw := h, serrpc_rxbuf := rx, crc_st := c\<rparr>"
          using False assms(1) stale by (auto simp: rpc_receive_body_def rcv d Let_def hdr_at_def ok)
        then show ?thesis using False fa stale
          by (auto simp: rcv result_of_def tallied_def reply_bytes_def)
      qed
    next
      case fa: False
      then obtain e where "rc = Inl e" using rc by metis
      with False assms(1) have "Some (Retry, s\<lparr>hw := h, serrpc_rxbuf := rx, crc_st := c,
          rstats := count_crc_err (rstats s)\<rparr>) = Some (r, s')"
        by (simp add: rpc_receive_body_def rcv d Let_def)
      then show ?thesis using False fa
        by (auto simp: rcv result_of_def tallied_def reply_bytes_def count_crc_err_def)
    qed
  qed
qed

lemma rpc_receive_heard:
  assumes "rpc_receive ops port s = Some (r, s')" "rpc_ok s"
  shows "\<exists>e. attempt_hears ops port (serrpc_seq s) (serrpc_rxbuf s) (hw s) e (serrpc_rxbuf s') (hw s') \<and>
    r = result_of e \<and> rstats s' = tallied e (rstats s)"
proof -
  from assms(1) obtain got rx h where
    rcv: "seruart_recv_block_timeout ops port (serrpc_rxbuf s) 0 10 90 (hw s) = Some (got, rx, h)"
    by (auto simp: rpc_receive_def split: bind_splits)
  let ?s = "s\<lparr>hw := h, serrpc_rxbuf := rx\<rparr>"
  let ?n = "unat (get_le16 (rx ! 8) (rx ! 9))"
  have ok: "rpc_ok ?s" using recv_block_bounds [OF rcv] assms(2) by (simp add: rpc_ok_def)
  consider (short) "got < 10"
    | (noise) "10 \<le> got" "rx ! 0 \<noteq> 0x53 \<or> rx ! 1 \<noteq> 0x44 \<or> ?n > 512"
    | (body) "10 \<le> got" "rx ! 0 = 0x53" "rx ! 1 = 0x44" "?n \<le> 512"
    by linarith
  then show ?thesis
  proof cases
    case short
    have "attempt_hears ops port (serrpc_seq s) (serrpc_rxbuf s) (hw s) Timed_out rx h"
      by (rule no_header [OF rcv short])
    with short assms(1) show ?thesis
      by (intro exI [of _ Timed_out])
        (auto simp: rpc_receive_def rcv result_of_def tallied_def reply_bytes_def count_defs)
  next
    case noise
    have "attempt_hears ops port (serrpc_seq s) (serrpc_rxbuf s) (hw s) Ignored rx h"
      by (rule no_frame [OF rcv noise])
    with noise assms(1) show ?thesis
      by (intro exI [of _ Ignored])
        (auto simp: rpc_receive_def rcv result_of_def tallied_def reply_bytes_def frame_consts Let_def
           split: if_splits)
  next
    case body
    have "rpc_receive_body ops port ?n ?s = Some (r, s')"
      using assms(1) body by (simp add: rpc_receive_def rcv frame_consts Let_def)
    from rpc_receive_body_heard [OF this ok] body(4)
    obtain got' e where b: "seruart_recv_block_timeout ops port rx 10 (?n + 2) 90 h =
        Some (got', serrpc_rxbuf s', hw s')"
      "e = (if got' < ?n + 2 then Timed_out
         else if \<not> frame_at (serrpc_rxbuf s') ?n then Damaged
         else if serrpc_rxbuf s' ! 4 \<noteq> serrpc_seq s then Ignored
         else Answered (serrpc_rxbuf s' ! 6) (take ?n (drop 10 (serrpc_rxbuf s'))))"
      "r = result_of e" "rstats s' = tallied e (rstats s)" by auto
    have "attempt_hears ops port (serrpc_seq s) (serrpc_rxbuf s) (hw s) e (serrpc_rxbuf s') (hw s')"
      by (rule attempt_hears.body [OF rcv body(1-3) refl body(4) b(1,2)])
    with b show ?thesis by blast
  qed
qed

lemma result_of_answered: "result_of e = Retry \<longleftrightarrow> \<not> answered e"
  by (cases e) (simp_all add: result_of_def)

lemma result_of_Reply: "result_of e = Reply st rp \<longleftrightarrow> e = Answered st rp"
  by (cases e) (auto simp: result_of_def)

definition hears_result :: "heard list \<Rightarrow> nat \<Rightarrow> rpc_result \<Rightarrow> bool" where
  "hears_result es k r = (case r of
     SERRPC_OK st rp \<Rightarrow> (\<exists>es'. es = es' @ [Answered st rp] \<and> list_all (\<lambda>e. \<not> answered e) es')
   | SERRPC_ERR_TIMEOUT \<Rightarrow> length es = k \<and> list_all (\<lambda>e. \<not> answered e) es
   | SERRPC_ERR_PAYLOAD \<Rightarrow> False)"

lemma rpc_loop_heard:
  assumes "rpc_loop ops port n k a s = Some (r, s')" "rpc_ok s"
  shows "\<exists>es. call_hears ops port (serrpc_seq s) (serrpc_txbuf s) n k (serrpc_rxbuf s) (hw s) es
      (serrpc_rxbuf s') (hw s') \<and>
    rstats s' = tally n (if a = 0 then length es - 1 else length es) es (rstats s) \<and>
    hears_result es k r"
  using assms
proof (induction k arbitrary: a s)
  case 0
  then show ?case by (intro exI [of _ "[]"]) (simp add: given_up hears_result_def)
next
  case (Suc k)
  from Suc.prems(1) obtain s1 ar s2 where send: "rpc_send ops port n a s = Some s1"
    and rcv: "rpc_receive ops port s1 = Some (ar, s2)"
    and rest: "case ar of Reply st rp \<Rightarrow> r = SERRPC_OK st rp \<and> s' = s2
      | Retry \<Rightarrow> rpc_loop ops port n k (Suc a) s2 = Some (r, s')"
    by (auto simp: rpc_attempt_def split: bind_splits attempt_result.splits)
  from send obtain h1 where h1: "seruart_send_block ops port (serrpc_txbuf s) n (seruart_drain ops port (hw s)) = Some h1"
    and s1: "s1 = s\<lparr>hw := h1, rstats := count_tx n (if a > 0 then count_retry (rstats s) else rstats s)\<rparr>"
    by (auto simp: rpc_send_def Let_def split: bind_splits if_splits)
  have ok1: "rpc_ok s1" using Suc.prems(2) by (simp add: s1 rpc_ok_def)
  from rpc_receive_heard [OF rcv ok1] obtain e where
    e: "attempt_hears ops port (serrpc_seq s) (serrpc_rxbuf s) h1 e (serrpc_rxbuf s2) (hw s2)"
    "ar = result_of e" "rstats s2 = tallied e (rstats s1)" by (auto simp: s1)
  have t2: "rstats s2 = tally n (if a = 0 then 0 else 1) [e] (rstats s)"
    by (simp add: e(3) s1 tally_def tallied_def count_defs)
  have s2: "rpc_ok s2" "serrpc_seq s2 = serrpc_seq s" "serrpc_txbuf s2 = serrpc_txbuf s"
    using rpc_receive_post [OF rcv ok1] by (simp_all add: receive_post_def s1)
  show ?case
  proof (cases ar)
    case (Reply st rp)
    then have "e = Answered st rp" using e(2) result_of_Reply by metis
    with rest Reply t2 h1 e(1) show ?thesis
      by (intro exI [of _ "[e]"]) (auto simp: hears_result_def intro!: attempt)
  next
    case Retry
    then have "\<not> answered e" using e(2) result_of_answered by metis
    moreover from rest Retry have "rpc_loop ops port n k (Suc a) s2 = Some (r, s')" by simp
    from Suc.IH [OF this s2(1)] obtain es where
      "call_hears ops port (serrpc_seq s) (serrpc_txbuf s) n k (serrpc_rxbuf s2) (hw s2) es (serrpc_rxbuf s') (hw s')"
      "rstats s' = tally n (length es) es (rstats s2)" "hears_result es k r"
      by (auto simp: s2)
    ultimately show ?thesis using h1 e(1) t2
      by (intro exI [of _ "e # es"])
        (auto simp: tally_tally hears_result_def split: rpc_result.splits intro!: attempt [OF h1 e(1)])
  qed
qed

lemma serial_rpc_heard:
  assumes "serial_rpc ops port cmd payload plen s = Some (r, s')" "rpc_ok s"
    and "plen \<le> 512" "plen \<le> length payload"
  shows "\<exists>es. call_hears ops port (next_seq (serrpc_seq s)) (serrpc_txbuf s') (12 + plen) 10
      (serrpc_rxbuf s) (hw s) es (serrpc_rxbuf s') (hw s') \<and>
    rstats s' = tally (12 + plen) (length es - 1) es (rstats s) \<and> hears_result es 10 r"
proof -
  let ?sq = "next_seq (serrpc_seq s)"
  obtain txlen tx c where enc: "frame_encode cmd ?sq 0 0 payload plen (serrpc_txbuf s) (crc_st s) = (txlen, tx, c)"
    by (metis prod_cases3)
  with frame_encode_spec [of "crc_st s" plen payload "serrpc_txbuf s" cmd ?sq 0 0] assms(2-4)
  have c: "crc_ok c" "txlen = 12 + plen" "length tx = 524" by (auto simp: rpc_ok_def)
  let ?s = "s\<lparr>serrpc_seq := ?sq, serrpc_txbuf := tx, crc_st := c\<rparr>"
  have loop: "rpc_loop ops port (12 + plen) 10 0 ?s = Some (r, s')"
    using assms(1) c by (simp add: serial_rpc_def enc)
  have ok: "rpc_ok ?s" using assms(2) c by (simp add: rpc_ok_def)
  have "serrpc_txbuf s' = tx"
    using rpc_loop_post [OF loop ok] by (simp add: same_frame_def)
  then show ?thesis using rpc_loop_heard [OF loop ok] by simp
qed

section \<open>Properties\<close>

definition line_start :: "line rpc_state" where
  "line_start = \<lparr>hw = \<lparr>rxq = [], txq = [], clock = 0\<rparr>, serrpc_seq = 0,
     serrpc_txbuf = replicate 524 0, serrpc_rxbuf = replicate 524 0, crc_st = crc_image,
     rstats = \<lparr>stat_tx_bytes = 0, stat_rx_bytes = 0, stat_crc_errs = 0, stat_timeouts = 0, stat_retries = 0\<rparr>\<rparr>"

lemma line_start_ok: "rpc_ok line_start"
  by (simp add: rpc_ok_def line_start_def)

text \<open>
  C9: \<open>serial_rpc\<close> always returns, whatever the UART does, as long as the tick counter goes on:
  no polling loop of the driver can hang the machine.
\<close>

theorem serial_rpc_returns:
  assumes "timer_live ops"
  shows "\<exists>r. serial_rpc ops port cmd payload plen s = Some r"
  using assms by (rule serial_rpc_total)

theorem serial_rpc_returns_witness:
  "\<exists>r. serial_rpc (line_ops (\<lambda>_. None)) 1 CMD_PING [] 0 line_start = Some r"
  by (rule serial_rpc_returns) (rule line_timer_live)

text \<open>
  C21: what a call returns and counts. Let \<open>es\<close> be what the attempts of the call hear on the line,
  by the driver and the frame format alone. Every attempt sends the same frame, the request with
  the sequence number of this call; a call that returns a reply has heard it last and nothing else
  that answers it, a call that gives up has heard ten times something else; and the five counters
  go up by exactly the bytes sent, the bytes of the reply, the damaged frames, the timeouts, and
  the attempts after the first.
\<close>

theorem serial_rpc_accounts:
  assumes "serial_rpc ops port cmd payload plen s = Some (r, s')" "rpc_ok s"
    and "plen \<le> 512" "plen \<le> length payload"
  shows "rpc_ok s' \<and> serrpc_seq s' = next_seq (serrpc_seq s) \<and>
    take (12 + plen) (serrpc_txbuf s') = sent_frame cmd payload plen s \<and>
    (\<exists>es. call_hears ops port (next_seq (serrpc_seq s)) (serrpc_txbuf s') (12 + plen) 10
        (serrpc_rxbuf s) (hw s) es (serrpc_rxbuf s') (hw s') \<and>
      stat_tx_bytes (rstats s') = stat_tx_bytes (rstats s) + of_nat (length es * (12 + plen)) \<and>
      stat_rx_bytes (rstats s') = stat_rx_bytes (rstats s) +
        (case r of SERRPC_OK st rp \<Rightarrow> of_nat (12 + length rp) | _ \<Rightarrow> 0) \<and>
      stat_crc_errs (rstats s') = stat_crc_errs (rstats s) + of_nat (count_list es Damaged) \<and>
      stat_timeouts (rstats s') = stat_timeouts (rstats s) + of_nat (count_list es Timed_out) \<and>
      stat_retries (rstats s') = stat_retries (rstats s) + of_nat (length es - 1) \<and>
      (case r of
         SERRPC_OK st rp \<Rightarrow> (\<exists>es'. es = es' @ [Answered st rp] \<and> list_all (\<lambda>e. \<not> answered e) es') \<and>
           genuine s' st rp
       | SERRPC_ERR_TIMEOUT \<Rightarrow> length es = 10 \<and> list_all (\<lambda>e. \<not> answered e) es
       | SERRPC_ERR_PAYLOAD \<Rightarrow> False))"
proof -
  obtain es where es: "call_hears ops port (next_seq (serrpc_seq s)) (serrpc_txbuf s') (12 + plen) 10
      (serrpc_rxbuf s) (hw s) es (serrpc_rxbuf s') (hw s')"
    "rstats s' = tally (12 + plen) (length es - 1) es (rstats s)" "hears_result es 10 r"
    using serial_rpc_heard [OF assms] by blast
  have gen: "genuine s' st rp" if "r = SERRPC_OK st rp" for st rp
    using serial_rpc_post [OF assms] that by (auto simp: loop_post_def)
  have zero: "sum_list (map reply_bytes es') = 0" if "list_all (\<lambda>e. \<not> answered e) es'" for es'
    using that by (induction es') (auto simp: reply_bytes_def split: heard.splits)
  from serial_rpc_post [OF assms] es gen show ?thesis
    by (intro conjI exI [of _ es])
      (auto simp: tally_def hears_result_def zero reply_bytes_def split: rpc_result.splits)
qed

theorem serial_rpc_accounts_witness:
  "\<exists>s'. serial_rpc (line_ops (\<lambda>_. None)) 1 CMD_PING [] 0 line_start = Some (SERRPC_ERR_TIMEOUT, s') \<and> rpc_ok s'"
proof -
  obtain s' where s': "serial_rpc (line_ops (\<lambda>_. None)) 1 CMD_PING [] 0 line_start = Some (SERRPC_ERR_TIMEOUT, s')"
    using rpc_dead [of 1 line_start 0 "[]" CMD_PING] line_start_ok by (auto simp: com_port_def line_start_def)
  from serial_rpc_accounts [OF s' line_start_ok] s' show ?thesis by auto
qed

text \<open>
  Sequence numbers. A call never uses the number 0, and the number of a call differs from
  that of the call before it.
\<close>

theorem next_seq_fresh: "next_seq q \<noteq> 0 \<and> next_seq q \<noteq> q"
  by (auto simp: next_seq_def)

text \<open>
  A call that the peer answers at once succeeds at the first attempt, with the peer's status
  and payload; the transmitted bytes are the frame of the request and nothing is left in
  either direction.
\<close>

theorem serial_rpc_answered:
  assumes "com_port p" "rpc_ok s" "plen \<le> 512" "plen \<le> length payload" "length rp \<le> 512"
    "txq (hw s) = []" "length (rxq (hw s)) \<le> 64"
    and "\<forall>j. 0 < j \<and> j < 12 + plen \<longrightarrow> peer (take j (sent_frame cmd payload plen s)) = None"
    and "peer (sent_frame cmd payload plen s) = Some (frame_wire cmd' (next_seq (serrpc_seq s)) fl st rp)"
  shows "\<exists>s'. serial_rpc (line_ops peer) p cmd payload plen s = Some (SERRPC_OK st rp, s') \<and>
    rpc_ok s' \<and> serrpc_seq s' = next_seq (serrpc_seq s) \<and> rxq (hw s') = [] \<and> txq (hw s') = [] \<and>
    rstats s' = count_rx (12 + length rp) (count_tx (12 + plen) (rstats s))"
  using assms by (rule rpc_answered)

definition ping_peer :: peer where
  "ping_peer bs = (if length bs = 12 then Some (frame_wire CMD_PING 1 0 0 [42]) else None)"

theorem serial_rpc_answered_witness:
  "\<exists>s'. serial_rpc (line_ops ping_peer) 1 CMD_PING [] 0 line_start = Some (SERRPC_OK 0 [42], s')"
proof -
  have "length (sent_frame CMD_PING [] 0 line_start) = 12" by (simp add: sent_frame_def)
  then have "\<exists>s'. serial_rpc (line_ops ping_peer) 1 CMD_PING [] 0 line_start = Some (SERRPC_OK 0 [42], s') \<and>
    rpc_ok s' \<and> serrpc_seq s' = next_seq (serrpc_seq line_start) \<and> rxq (hw s') = [] \<and> txq (hw s') = [] \<and>
    rstats s' = count_rx (12 + length [42 :: byte]) (count_tx (12 + 0) (rstats line_start))"
    by (intro serial_rpc_answered [where cmd' = CMD_PING and fl = 0])
      (auto simp: rpc_ok_def com_port_def ping_peer_def line_start_def next_seq_def)
  then show ?thesis by blast
qed

text \<open>
  C22: against a peer that never answers, a call sends ten identical copies of the frame, counts
  ten timeouts and nine retries and fails. The copies are identical: the retry flag of the
  protocol is never set.
\<close>

theorem serial_rpc_dead_peer:
  assumes "com_port p" "rpc_ok s" "plen \<le> 512" "plen \<le> length payload" "length (rxq (hw s)) \<le> 64"
  shows "\<exists>s'. serial_rpc (line_ops (\<lambda>_. None)) p cmd payload plen s = Some (SERRPC_ERR_TIMEOUT, s') \<and>
    txq (hw s') = txq (hw s) @ concat (replicate 10 (sent_frame cmd payload plen s)) \<and>
    rstats s' = (rstats s)\<lparr>stat_tx_bytes := stat_tx_bytes (rstats s) + of_nat (10 * (12 + plen)),
      stat_timeouts := stat_timeouts (rstats s) + 10, stat_retries := stat_retries (rstats s) + 9\<rparr>"
  using rpc_dead [OF assms, of cmd] by blast

theorem serial_rpc_dead_peer_witness:
  "\<exists>s'. serial_rpc (line_ops (\<lambda>_. None)) 2 CMD_PING [] 0 line_start = Some (SERRPC_ERR_TIMEOUT, s') \<and>
    stat_timeouts (rstats s') = 10"
  using serial_rpc_dead_peer [of 2 line_start 0 "[]" CMD_PING] line_start_ok
  by (auto simp: com_port_def line_start_def)

text \<open>
  A payload of more than 512 bytes is refused without sending anything; only the sequence
  number is used up.
\<close>

theorem serial_rpc_refuses_long:
  assumes "plen > 512"
  shows "serial_rpc ops port cmd payload plen s =
     Some (SERRPC_ERR_PAYLOAD, s\<lparr>serrpc_seq := next_seq (serrpc_seq s)\<rparr>)"
  using assms by (rule serial_rpc_too_long)

theorem serial_rpc_refuses_long_witness:
  "serial_rpc (line_ops (\<lambda>_. None)) 1 CMD_WRITE [] 513 line_start =
     Some (SERRPC_ERR_PAYLOAD, line_start\<lparr>serrpc_seq := 1\<rparr>)"
  using serial_rpc_refuses_long [of 513 "line_ops (\<lambda>_. None)" 1 CMD_WRITE "[]" line_start]
  by (simp add: line_start_def next_seq_def)

end
