(* ===== verification/Sdf_Status.thy ===== *)
theory Sdf_Status
  imports Sdf_IntHandler
begin

text \<open>
  The status bar of \<open>dos/src/serdfs.c\<close>: the VGA helpers, \<open>status_render_if_safe\<close> and the two
  interrupt handlers that drive it, and the decimal conversion that the bar and the \<open>/STATS\<close>
  report share. The counters belong to the link state; \<open>counters\<close> reads them.
\<close>

section \<open>Decimal conversion\<close>

text \<open>The \<open>do\<close> loop of \<open>vga_putnum\<close> and \<open>appendulong\<close>: digits from the lowest, at most ten.\<close>

function digit_loop :: "u32 \<Rightarrow> nat \<Rightarrow> byte list" where
  "digit_loop val n =
     (let d = 0x30 + ucast (val mod 10); val = val div 10; n = n + 1
      in d # (if val > 0 \<and> n < 10 then digit_loop val n else []))"
  by pat_completeness auto
termination by (relation "measure (\<lambda>(val, n). 10 - n)") auto

declare digit_loop.simps [simp del]

definition appendulong :: "byte list \<Rightarrow> nat \<Rightarrow> u32 \<Rightarrow> nat \<times> byte list" where
  "appendulong buf k val =
     (let tmp = digit_loop val 0; n = length tmp in (n, copy_at buf k (rev tmp) n))"

section \<open>The VGA row\<close>

definition vga_putch :: "fp \<Rightarrow> byte \<Rightarrow> memory \<times> byte \<Rightarrow> memory \<times> byte" where
  "vga_putch row ch = (\<lambda>(m, col).
     if col < 80 then (poke16 m (fadd row (2 * ucast col)) (0x1E00 OR ucast ch), col + 1) else (m, col))"

primrec vga_run :: "fp \<Rightarrow> byte list \<Rightarrow> memory \<times> byte \<Rightarrow> memory \<times> byte" where
  "vga_run row [] s = s"
| "vga_run row (c # cs) s = (if snd s < 80 then vga_run row cs (vga_putch row c s) else s)"

definition vga_putnum :: "fp \<Rightarrow> u32 \<Rightarrow> memory \<times> byte \<Rightarrow> memory \<times> byte" where
  "vga_putnum row val = vga_run row (rev (digit_loop val 0))"

definition vga_putstr :: "fp \<Rightarrow> string \<Rightarrow> memory \<times> byte \<Rightarrow> memory \<times> byte" where
  "vga_putstr row s = vga_run row (map of_char s)"

function vga_fill :: "fp \<Rightarrow> memory \<times> byte \<Rightarrow> memory \<times> byte" where
  "vga_fill row s = (if snd s < 80 then vga_fill row (vga_putch row 0x20 s) else s)"
  by pat_completeness auto
termination
  by (relation "measure (\<lambda>(row, s). 80 - unat (snd s))")
    (auto simp: vga_putch_def word_less_nat_alt unat_word_ariths split: prod.splits)

declare vga_fill.simps [simp del]

definition status_row :: fp where
  "status_row = (0xB800, 24 * 80 * 2)"

definition status_render_if_safe :: "('l \<Rightarrow> rpc_stats) \<Rightarrow> 'l tsr \<Rightarrow> 'l tsr" where
  "status_render_if_safe counters s =
     (if peek8 (mem s) (indos (glob_data s)) \<noteq> 0 then s
      else if peek8 (mem s) (0x40, 0x49) \<noteq> 3 then s
      else let s = s\<lparr>stat_dirty := False\<rparr>; c = counters (link s); row = status_row;
        b = (mem s, 0);
        b = vga_putstr row ''SDF TX:'' b;
        b = vga_putnum row (stat_tx_bytes c) b;
        b = vga_putstr row '' RX:'' b;
        b = vga_putnum row (stat_rx_bytes c) b;
        b = vga_putstr row '' TO:'' b;
        b = vga_putnum row (ucast (stat_timeouts c)) b;
        b = vga_putstr row '' RT:'' b;
        b = vga_putnum row (ucast (stat_retries c)) b;
        b = vga_putstr row '' CE:'' b;
        b = vga_putnum row (ucast (stat_crc_errs c)) b;
        b = vga_fill row b
      in s\<lparr>mem := fst b\<rparr>)"

definition int1ch_handler :: "'l tsr \<Rightarrow> outcome \<times> 'l tsr" where
  "int1ch_handler s =
     (let s = (if stat_enabled s then s\<lparr>stat_dirty := True\<rparr> else s)
      in (Chain (prev_int1ch (glob_data s)), s))"

definition int28h_handler :: "('l \<Rightarrow> rpc_stats) \<Rightarrow> 'l tsr \<Rightarrow> outcome \<times> 'l tsr" where
  "int28h_handler counters s =
     (let s = (if stat_dirty s \<and> stat_enabled s then status_render_if_safe counters s else s)
      in (Chain (prev_int28h (glob_data s)), s))"

section \<open>Decimal numbers are right\<close>

definition dec_val :: "byte list \<Rightarrow> nat" where
  "dec_val ds = foldl (\<lambda>n d. 10 * n + (unat d - 0x30)) 0 ds"

definition decimal :: "u32 \<Rightarrow> byte list" where
  "decimal v = rev (digit_loop v 0)"

lemma u32_less: "unat (v :: u32) < 4294967296"
  using unsigned_less [of v] by simp

lemma digit_code: "unat (0x30 + ucast ((v :: u32) mod 10) :: byte) = 0x30 + unat v mod 10"
proof -
  have "unat (ucast (v mod 10) :: byte) = unat v mod 10"
    by (simp add: unsigned_ucast_eq unat_mod take_bit_nat_eq_self_iff less_trans [of _ 10])
  moreover have "unat v mod 10 < 10" by simp
  ultimately show ?thesis by (simp add: unat_word_ariths)
qed

lemma dec_val_snoc: "dec_val (ds @ [d]) = 10 * dec_val ds + (unat d - 0x30)"
  by (simp add: dec_val_def)

lemma digit_loop_value:
  "n < 10 \<Longrightarrow> unat v < 10 ^ (10 - n) \<Longrightarrow> dec_val (rev (digit_loop v n)) = unat v"
proof (induction v n rule: digit_loop.induct)
  case (1 v n)
  have q: "unat (v div 10) = unat v div 10" by (simp add: unat_div)
  have ten: "10 - n = Suc (10 - Suc n)" using 1(2) by simp
  have small: "unat v div 10 < 10 ^ (10 - Suc n)"
    using 1(3) by (simp add: ten less_mult_imp_div_less mult.commute)
  have z: "v div 10 > 0 \<longleftrightarrow> unat v div 10 > 0" by (simp add: word_less_nat_alt q)
  show ?case
  proof (cases "unat v div 10 > 0 \<and> n + 1 < 10")
    case True
    then show ?thesis
      using 1(1) [OF refl refl refl] small z q
      by (subst digit_loop.simps) (simp add: Let_def dec_val_snoc digit_code)
  next
    case False
    then have "unat v div 10 = 0" using small 1(2) by (cases "n + 1 < 10") auto
    then show ?thesis
      using z by (subst digit_loop.simps) (simp add: Let_def, simp add: dec_val_def digit_code)
  qed
qed

lemma digit_loop_length: "n < 10 \<Longrightarrow> length (digit_loop v n) \<le> 10 - n \<and> digit_loop v n \<noteq> []"
proof (induction v n rule: digit_loop.induct)
  case (1 v n)
  then show ?case
    by (subst (1 2) digit_loop.simps) (auto simp: Let_def, fastforce)
qed

lemma digit_loop_small:
  "n < 10 \<Longrightarrow> unat v < 10 ^ k \<Longrightarrow> 0 < k \<Longrightarrow> length (digit_loop v n) \<le> k"
proof (induction v n arbitrary: k rule: digit_loop.induct)
  case (1 v n)
  have q: "unat (v div 10) = unat v div 10" by (simp add: unat_div)
  show ?case
  proof (cases "v div 10 > 0 \<and> n + 1 < 10")
    case True
    then have "0 < unat v div 10" by (simp add: word_less_nat_alt q)
    with 1(3,4) have "k \<noteq> 1" by auto
    with 1(4) obtain j where k: "k = Suc j" "0 < j" by (cases k) auto
    have "unat v div 10 < 10 ^ j" using 1(3) k by (simp add: less_mult_imp_div_less mult.commute)
    then show ?thesis
      using 1(1) [OF refl refl refl, of j] True k q by (subst digit_loop.simps) (simp add: Let_def)
  next
    case False
    then show ?thesis using 1(4) by (subst digit_loop.simps) (auto simp: Let_def)
  qed
qed

lemma digits_are_digits: "\<forall>d \<in> set (digit_loop v n). 0x30 \<le> unat d \<and> unat d \<le> 0x39"
proof (induction v n rule: digit_loop.induct)
  case (1 v n)
  have "unat v mod 10 \<le> 9" by (simp add: less_Suc_eq_le flip: Suc_le_eq)
  then show ?case
    using 1 by (subst digit_loop.simps) (auto simp: Let_def digit_code)
qed

lemma decimal_value: "dec_val (decimal v) = unat v"
proof -
  have "unat v < 10 ^ (10 - 0)" using u32_less [of v] by (rule less_trans) simp
  then show ?thesis unfolding decimal_def by (rule digit_loop_value [rotated]) simp
qed

lemma decimal_length: "length (decimal v) \<le> 10"
  using digit_loop_length [of 0 v] by (simp add: decimal_def)

lemma decimal_length_u16: "length (decimal (ucast (w :: u16))) \<le> 5"
proof -
  have "unat (ucast w :: u32) < 10 ^ 5"
    by (simp add: less_trans [OF u16_less])
  then show ?thesis
    using digit_loop_small [of 0 "ucast w" 5] by (simp add: decimal_def)
qed

section \<open>The bar as a whole\<close>

definition bar_text :: "rpc_stats \<Rightarrow> byte list" where
  "bar_text c = map of_char ''SDF TX:'' @ decimal (stat_tx_bytes c) @ map of_char '' RX:'' @
     decimal (stat_rx_bytes c) @ map of_char '' TO:'' @ decimal (ucast (stat_timeouts c)) @
     map of_char '' RT:'' @ decimal (ucast (stat_retries c)) @ map of_char '' CE:'' @
     decimal (ucast (stat_crc_errs c))"

text \<open>Text as the bytes of VGA cells: the character, then yellow on blue.\<close>

definition vga_cells :: "byte list \<Rightarrow> byte list" where
  "vga_cells cs = concat (map (\<lambda>c. [c, 0x1E]) cs)"

lemma le16_pack: "le16 (push_bit 8 (ucast (a :: byte)) OR ucast (c :: byte)) = [c, a]"
proof -
  have "(ucast (push_bit 8 (ucast a) OR ucast c :: u16) :: byte) = c"
    by (rule bit_word_eqI) (auto simp: bit_simps)
  moreover have "(ucast (drop_bit 8 (push_bit 8 (ucast a) OR ucast c :: u16)) :: byte) = a"
    by (rule bit_word_eqI) (auto simp: bit_simps dest: bit_imp_le_length)
  ultimately show ?thesis by (simp add: le16_def)
qed

lemma vga_cell: "le16 (0x1E00 OR ucast (c :: byte)) = [c, 0x1E]"
  using le16_pack [of "0x1E" c] by simp

lemma length_vga_cells [simp]: "length (vga_cells cs) = 2 * length cs"
  by (induction cs) (simp_all add: vga_cells_def)

lemma vga_run_append: "vga_run row (xs @ ys) s = vga_run row ys (vga_run row xs s)"
proof (induction xs arbitrary: s)
  case (Cons x xs)
  then show ?case by (cases ys) auto
qed simp

lemma vga_fill_run: "vga_fill row s = vga_run row (replicate (80 - unat (snd s)) 0x20) s"
proof (induction row s rule: vga_fill.induct)
  case (1 row s)
  show ?case
  proof (cases "snd s < 80")
    case True
    then have n: "80 - unat (snd s) = Suc (80 - unat (snd (vga_putch row 0x20 s)))"
      by (cases s) (auto simp: vga_putch_def word_less_nat_alt unat_word_ariths)
    show ?thesis using 1 True by (subst vga_fill.simps) (simp add: n)
  next
    case False
    then show ?thesis by (subst vga_fill.simps) (simp add: word_less_nat_alt)
  qed
qed

lemma vga_run_eq:
  "unat col + length cs \<le> 80 \<Longrightarrow> vga_run row cs (m, col) =
     (poke_bytes m (fadd row (2 * ucast col)) (vga_cells cs), col + of_nat (length cs))"
proof (induction cs arbitrary: m col)
  case Nil
  then show ?case by (simp add: vga_cells_def)
next
  case (Cons c cs)
  have col: "col < 80" "unat (col + 1) = unat col + 1"
    using Cons.prems by (auto simp: word_less_nat_alt unat_word_ariths)
  have "(2 * ucast (col + 1) :: u16) = 2 * ucast col + 2"
    by (rule word_unat_eq_iff [THEN iffD2]) (use col in \<open>simp add: unat_word_ariths word_less_nat_alt\<close>)
  then show ?case
    using Cons.IH [of "col + 1"] Cons.prems col
    by (simp add: vga_putch_def vga_cells_def poke16_def vga_cell add.assoc)
qed

lemma bar_text_length: "length (bar_text c) \<le> 58"
  using decimal_length [of "stat_tx_bytes c"] decimal_length [of "stat_rx_bytes c"]
    decimal_length_u16 [of "stat_timeouts c"] decimal_length_u16 [of "stat_retries c"]
    decimal_length_u16 [of "stat_crc_errs c"]
  by (simp add: bar_text_def)

definition bar_row :: "rpc_stats \<Rightarrow> byte list" where
  "bar_row c = bar_text c @ replicate (80 - length (bar_text c)) 0x20"

lemma bar_row_length [simp]: "length (bar_row c) = 80"
  using bar_text_length [of c] by (simp add: bar_row_def)

lemma status_render_eq:
  assumes "peek8 (mem s) (indos (glob_data s)) = 0" "peek8 (mem s) (0x40, 0x49) = 3"
  shows "status_render_if_safe counters s =
    s\<lparr>stat_dirty := False, mem := poke_bytes (mem s) status_row (vga_cells (bar_row (counters (link s))))\<rparr>"
proof -
  let ?c = "counters (link s)" and ?t = "bar_text (counters (link s))"
  have run: "vga_run status_row ?t (mem s, 0) =
      (poke_bytes (mem s) (fadd status_row (2 * ucast (0 :: byte))) (vga_cells ?t), of_nat (length ?t))"
    using bar_text_length [of ?c] vga_run_eq [of 0 ?t status_row "mem s"] by simp
  have n: "unat (of_nat (length ?t) :: byte) = length ?t"
    using bar_text_length [of ?c] by (intro byte_of_nat) simp
  have "vga_fill status_row (vga_run status_row ?t (mem s, 0)) = vga_run status_row (bar_row ?c) (mem s, 0)"
    by (simp only: vga_fill_run bar_row_def vga_run_append) (simp add: run n)
  also have "\<dots> = (poke_bytes (mem s) (fadd status_row (2 * ucast (0 :: byte))) (vga_cells (bar_row ?c)), 0 + of_nat 80)"
    using vga_run_eq [of 0 "bar_row ?c" status_row "mem s"] by simp
  finally have "fst (vga_fill status_row (vga_run status_row ?t (mem s, 0))) =
      poke_bytes (mem s) status_row (vga_cells (bar_row ?c))" by simp
  moreover have "vga_run status_row ?t b =
      vga_putnum status_row (ucast (stat_crc_errs ?c)) (vga_putstr status_row '' CE:''
     (vga_putnum status_row (ucast (stat_retries ?c)) (vga_putstr status_row '' RT:''
     (vga_putnum status_row (ucast (stat_timeouts ?c)) (vga_putstr status_row '' TO:''
     (vga_putnum status_row (stat_rx_bytes ?c) (vga_putstr status_row '' RX:''
     (vga_putnum status_row (stat_tx_bytes ?c) (vga_putstr status_row ''SDF TX:'' b)))))))))" for b
    by (simp only: bar_text_def vga_run_append vga_putstr_def vga_putnum_def decimal_def)
  ultimately show ?thesis
    using assms by (simp add: status_render_if_safe_def Let_def)
qed

section \<open>Properties\<close>

text \<open>
  \<open>appendulong\<close> appends the decimal representation of its argument: between one and ten
  digits whose value is the number, and nothing else in the buffer changes.
\<close>

theorem appendulong_decimal:
  assumes "appendulong buf k v = (n, buf')" "k + 10 \<le> length buf"
  shows "0 < n \<and> n \<le> 10 \<and> dec_val (take n (drop k buf')) = unat v \<and>
    (\<forall>d \<in> set (take n (drop k buf')). 0x30 \<le> unat d \<and> unat d \<le> 0x39) \<and>
    take k buf' = take k buf \<and> drop (k + n) buf' = drop (k + n) buf"
proof -
  have n: "n = length (decimal v)" "buf' = copy_at buf k (decimal v) n"
    using assms(1) by (auto simp: appendulong_def Let_def decimal_def)
  have l: "0 < n" "n \<le> 10" using digit_loop_length [of 0 v] n by (auto simp: decimal_def)
  have b: "buf' = take k buf @ decimal v @ drop (k + n) buf"
    using n(2) l(2) assms(2) by (simp add: copy_at_eq n(1))
  have "take n (drop k buf') = decimal v" "take k buf' = take k buf" "drop (k + n) buf' = drop (k + n) buf"
    using assms(2) l(2) n(1) by (simp_all add: b)
  moreover have "\<forall>d \<in> set (decimal v). 0x30 \<le> unat d \<and> unat d \<le> 0x39"
    using digits_are_digits [of v 0] by (simp add: decimal_def)
  ultimately show ?thesis using l decimal_value by simp
qed

theorem appendulong_decimal_witness:
  "\<exists>n buf'. appendulong (replicate 20 0) 3 65535 = (n, buf') \<and> dec_val (take n (drop 3 buf')) = 65535"
proof -
  obtain n buf' where a: "appendulong (replicate 20 0) 3 65535 = (n, buf')" by fastforce
  from appendulong_decimal [OF a] show ?thesis using a by auto
qed

text \<open>
  The DOS idle handler draws the status bar when a refresh is due, DOS is idle and the screen
  is in text mode 3, and does nothing otherwise; drawing writes the 80 cells of row 24, no byte
  more, with the five counters in decimal followed by blanks, and clears the refresh flag. The
  call goes on to the previous handler in any case.
\<close>

theorem int28h_draws_bar:
  "int28h_handler counters s =
     (Chain (prev_int28h (glob_data s)),
      if stat_dirty s \<and> stat_enabled s \<and> peek8 (mem s) (indos (glob_data s)) = 0 \<and> peek8 (mem s) (0x40, 0x49) = 3
      then s\<lparr>stat_dirty := False, mem := poke_bytes (mem s) status_row (vga_cells (bar_row (counters (link s))))\<rparr>
      else s) \<and>
   length (vga_cells (bar_row (counters (link s)))) = 80 * 2 \<and> fits status_row (80 * 2)"
  using status_render_eq [of s counters]
  by (auto simp: int28h_handler_def Let_def status_render_if_safe_def fits_def status_row_def)

end
