(* ===== verification/Sdf_Entry.thy ===== *)
theory Sdf_Entry
  imports Sdf_Sample Sdf_Line Sdf_Status
begin

text \<open>
  What \<open>inthandler\<close> does on the way to the dispatcher, for calls whose strings are terminated: the
  FCB name it rebuilds from the path is the one \<open>name83_to_fcb\<close> makes of the same name, and the
  call itself is \<open>process2f\<close> on the state with that name. The last part shows that the handlers
  return.
\<close>

section \<open>The last component of a path\<close>

fun base_name :: "byte list \<Rightarrow> byte list" where
  "base_name [] = []"
| "base_name (c # cs) =
     (if ch_backslash \<in> set cs then base_name cs else if c = ch_backslash then cs else c # cs)"

lemma base_name_split: "ch_backslash \<notin> set b \<Longrightarrow> base_name (pre @ ch_backslash # b) = b"
  by (induction pre) auto

lemma base_name_suffix: "\<exists>pre. bs = pre @ base_name bs"
proof (induction bs)
  case (Cons c cs)
  then obtain pre where "cs = pre @ base_name cs" by blast
  then show ?case by (auto intro: exI [of _ "c # pre"] exI [of _ "[c]"])
qed simp

lemma cstring_Cons:
  assumes "cstring m p (c # cs)"
  shows "c \<noteq> 0" "peek8 m p = c" "cstring m (fadd p 1) cs"
proof -
  show "c \<noteq> 0" using assms by (auto simp: cstring_def)
  show "peek8 m p = c" using cstring_nth [OF assms, of 0] by simp
  have "peek_bytes m (fadd p 1) (length cs + 1) = drop 1 (peek_bytes m p (length (c # cs) + 1))"
    using peek_bytes_sub [of 1 "length cs + 1" "length (c # cs) + 1" m p] by simp
  then show "cstring m (fadd p 1) cs" using assms by (simp add: cstring_def)
qed

lemma last_component_cstring:
  "cstring m (fadd p i) bs \<Longrightarrow>
   last_component m p i path =
     Some (if ch_backslash \<in> set bs then fadd p (i + of_nat (length bs - length (base_name bs))) else path)"
proof (induction bs arbitrary: i path)
  case Nil
  then have "peek8 m (fadd p i) = 0" using cstring_nth [OF Nil, of 0] by simp
  then show ?case by (subst last_component.simps) simp
next
  case (Cons c cs)
  note c = cstring_Cons [OF Cons.prems]
  obtain pre where pre: "cs = pre @ base_name cs" using base_name_suffix by blast
  have l: "length (base_name cs) \<le> length cs" by (subst pre) simp
  have "cstring m (fadd p (i + 1)) cs" using c(3) by simp
  then show ?case
    using c(1,2) l Cons.IH [of "i + 1" path] Cons.IH [of "i + 1" "fadd p (i + 1)"]
    by (subst last_component.simps)
      (auto simp: Let_def base_name.simps Suc_diff_le add.assoc simp del: of_nat_diff)
qed

section \<open>The name written to the FCB field\<close>

fun fcb_fill :: "byte list \<Rightarrow> nat \<Rightarrow> byte list \<Rightarrow> byte list" where
  "fcb_fill f i [] = f"
| "fcb_fill f i (c # cs) =
     (if c = ch_dot then fcb_fill f 8 cs else if i < 11 then fcb_fill (f[i := c]) (i + 1) cs
      else fcb_fill f i cs)"

lemma length_fcb_fill [simp]: "length (fcb_fill f i bs) = length f"
  by (induction f i bs rule: fcb_fill.induct) auto

lemma poke_peek: "fits p n \<Longrightarrow> n \<le> 65536 \<Longrightarrow> poke_bytes m p (peek_bytes m p n) = m"
  by (rule ext) (auto simp: poke_bytes_at peek_bytes_eq)

lemma poke_poke_same:
  "fits p (length bs) \<Longrightarrow> length as = length bs \<Longrightarrow> poke_bytes (poke_bytes m p as) p bs = poke_bytes m p bs"
  by (rule ext) (auto simp: poke_bytes_at)

lemma poke8_region:
  assumes "fits p n" "n \<le> 65536" "i < n"
  shows "poke8 m (fadd p (of_nat i)) c = poke_bytes m p ((peek_bytes m p n)[i := c])"
proof -
  have "lin (fadd p (of_nat i)) = lin p + i"
    using assms lin_fadd [of p n "of_nat i"] by (simp add: u16_of_nat)
  then show ?thesis
    using assms by (intro ext) (auto simp: poke8_def poke_bytes_at peek_bytes_eq nth_list_update)
qed

lemma cstring_poke:
  assumes "cstring m p bs" "fits p (length bs + 1)" "fits q (length xs)" "apart p (length bs + 1) q (length xs)"
  shows "cstring (poke_bytes m q xs) p bs"
  using assms peek_poke_bytes_apart [OF assms(2) _ assms(3,4), of m] by (simp add: cstring_def)

lemma fcb_name_loop_eq:
  assumes "fits fcb 11"
  shows "cstring m path bs \<Longrightarrow> fits path (length bs + 1) \<Longrightarrow> apart path (length bs + 1) fcb 11 \<Longrightarrow> i \<le> 11 \<Longrightarrow>
    fcb_name_loop m fcb path (of_nat i) = Some (poke_bytes m fcb (fcb_fill (peek_bytes m fcb 11) i bs))"
proof (induction bs arbitrary: m path i)
  case Nil
  have "peek8 m path = 0" using cstring_nth [OF Nil(1), of 0] by simp
  then show ?case using assms by (subst fcb_name_loop.simps) (simp add: poke_peek)
next
  case (Cons c cs)
  note c = cstring_Cons [OF Cons.prems(1)]
  have f: "fits (fadd path 1) (length cs + 1)" "lin (fadd path 1) = lin path + 1"
    using Cons.prems(2) fits_fadd [of path "length (c # cs) + 1" 1 "length cs + 1"]
      lin_fadd [of path "length (c # cs) + 1" 1] by simp_all
  have a: "apart (fadd path 1) (length cs + 1) fcb 11"
    using Cons.prems(3) f(2) by (auto simp: apart_def)
  have less: "of_nat i < (11 :: u16) \<longleftrightarrow> i < 11" if "i \<le> 11" for i
    using that by (simp add: word_less_nat_alt u16_of_nat)
  show ?case
  proof (cases "c = ch_dot \<or> \<not> i < 11")
    case True
    then show ?thesis
      using c Cons.prems(4) Cons.IH [OF c(3) f(1) a, of 8] Cons.IH [OF c(3) f(1) a, of i]
      by (subst fcb_name_loop.simps) (auto simp: Let_def less)
  next
    case False
    let ?f = "(peek_bytes m fcb 11)[i := c]" and ?m = "poke8 m (fadd fcb (of_nat i)) c"
    have m: "?m = poke_bytes m fcb ?f"
      using False assms by (intro poke8_region) auto
    have p: "peek_bytes ?m fcb 11 = ?f"
      unfolding m using peek_poke_bytes_same [of fcb ?f m] assms by simp
    have "cstring ?m (fadd path 1) cs"
      unfolding m using assms a f(1) by (intro cstring_poke c(3)) simp_all
    from Cons.IH [OF this f(1) a, of "i + 1"] have
      "fcb_name_loop ?m fcb (fadd path 1) (of_nat i + 1) = Some (poke_bytes m fcb (fcb_fill ?f (i + 1) cs))"
      using False p by (simp add: m poke_poke_same assms add.commute)
    then show ?thesis
      using False c Cons.prems(4) by (subst fcb_name_loop.simps) (simp add: Let_def less)
  qed
qed

text \<open>A name in 8.3 form: at most eight characters before the first dot, and no second dot.\<close>

definition name83 :: "byte list \<Rightarrow> bool" where
  "name83 bs \<longleftrightarrow> length (name_base bs) \<le> 8 \<and> ch_dot \<notin> set (name_ext bs)"

lemma fcb_fill_plain: "ch_dot \<notin> set bs \<Longrightarrow> i \<le> 11 \<Longrightarrow> length f = 11 \<Longrightarrow> fcb_fill f i bs = fill f i 11 bs"
  by (induction f i bs rule: fcb_fill.induct) (auto simp: fill_Cons fill_full)

lemma fcb_fill_append:
  "ch_dot \<notin> set as \<Longrightarrow> fcb_fill f i (as @ ch_dot # bs) = fcb_fill (fcb_fill f i as) 8 bs"
  by (induction f i as rule: fcb_fill.induct) auto

lemma fill_base_11: "length bs \<le> 8 \<Longrightarrow> fill (replicate 11 ch_space) 0 11 bs = pad 8 bs @ replicate 3 ch_space"
  by (simp add: fill_def pad_alt flip: replicate_add)

lemma fcb_fill_name:
  assumes "0 \<notin> set bs" "name83 bs"
  shows "fcb_fill (replicate 11 ch_space) 0 bs = fcb_of bs"
proof -
  have nb: "name_base bs = takeWhile (\<lambda>c. c \<noteq> ch_dot) bs"
    unfolding name_base_def by (rule takeWhile_cong) (use assms(1) in auto)
  have dots: "ch_dot \<notin> set (name_base bs)" by (auto simp: nb dest: set_takeWhileD)
  show ?thesis
  proof (cases "ch_dot \<in> set bs")
    case False
    then have b: "name_base bs = bs" by (auto simp: nb takeWhile_eq_all_conv)
    have x: "name_ext bs = []" using name_ext_at [OF refl, of bs] by (simp only: b) simp
    have "fcb_fill (replicate 11 ch_space) 0 bs = fill (replicate 11 ch_space) 0 11 bs"
      using False by (simp add: fcb_fill_plain)
    then show ?thesis using assms(2) by (simp add: fill_base_11 fcb_of_def pad_Nil name83_def b x)
  next
    case True
    then obtain b e where be: "bs = b @ ch_dot # e" "ch_dot \<notin> set b"
      using split_list_first [OF True] by blast
    have "takeWhile (\<lambda>c. c \<noteq> ch_dot) b = b" using be(2) by (auto simp: takeWhile_eq_all_conv)
    then have e: "bs = name_base bs @ ch_dot # e" unfolding nb by (simp add: be(1) takeWhile_tail)
    then have "0 \<notin> set e" using assms(1) by (metis UnCI set_append set_subset_Cons subsetD)
    then have "takeWhile (\<lambda>c. c \<noteq> 0) e = e" by (auto simp: takeWhile_eq_all_conv)
    moreover have "name_ext bs = takeWhile (\<lambda>c. c \<noteq> 0) e"
      using name_ext_at [OF refl, of bs] arg_cong [OF e, of "\<lambda>x. x ! length (name_base bs)"]
        arg_cong [OF e, of length] arg_cong [OF e, of "drop (Suc (length (name_base bs)))"] by simp
    ultimately have x: "name_ext bs = e" by simp
    have "fcb_fill (replicate 11 ch_space) 0 bs = fcb_fill (fcb_fill (replicate 11 ch_space) 0 (name_base bs)) 8 e"
      by (subst e) (rule fcb_fill_append [OF dots])
    also have "\<dots> = fill (pad 8 (name_base bs) @ replicate 3 ch_space) 8 11 e"
      using assms(2) dots x by (simp add: fcb_fill_plain fill_base_11 name83_def)
    finally show ?thesis by (simp add: fill_ext fcb_of_def x)
  qed
qed

section \<open>From the entry point to the dispatcher\<close>

text \<open>\<open>path_there s bs\<close>: the path \<open>bs\<close> is in the field \<open>fn1\<close> of a swap area within one segment.\<close>

definition path_there :: "'l tsr \<Rightarrow> byte list \<Rightarrow> bool" where
  "path_there s bs \<longleftrightarrow> sda_fits s \<and> cstring (mem s) (sda s SDA_FN1) bs \<and> length bs < 128"

text \<open>The state in which \<open>process2f\<close> is entered.\<close>

definition entered :: "u16 \<Rightarrow> byte \<Rightarrow> byte list \<Rightarrow> intpack \<Rightarrow> 'l tsr \<Rightarrow> 'l tsr" where
  "entered w drv bs r s = s\<lparr>glob_reqstkword := w, glob_reqdrv := drv,
     mem := poke_bytes (mem s) (sda s SDA_FCB_FN1) (fcb_fill (replicate 11 ch_space) 0 (base_name bs)),
     glob_intregs := r\<rparr>"

lemma base_name_place:
  assumes "cstring m p bs"
  shows "last_component m p 0 p = Some (fadd p (of_nat (length bs - length (base_name bs))))"
    "cstring m (fadd p (of_nat (length bs - length (base_name bs)))) (base_name bs)"
proof -
  have none: "ch_backslash \<notin> set bs \<Longrightarrow> base_name bs = bs" by (induction bs) auto
  show "last_component m p 0 p = Some (fadd p (of_nat (length bs - length (base_name bs))))"
    using last_component_cstring [of m p 0 bs p] assms none by (auto simp del: of_nat_diff)
  obtain pre where pre: "bs = pre @ base_name bs" using base_name_suffix by blast
  then have l: "length bs - length (base_name bs) = length pre"
    by (metis add_diff_cancel_right' length_append)
  have "peek_bytes m (fadd p (of_nat (length pre))) (length (base_name bs) + 1) =
      take (length (base_name bs) + 1) (drop (length pre) (bs @ [0]))"
    using assms arg_cong [OF pre, of length] peek_bytes_sub [of "length pre" "length (base_name bs) + 1" "length bs + 1" m p]
    by (simp add: cstring_def)
  also have "\<dots> = base_name bs @ [0]" by (subst (2) pre) simp
  finally show "cstring m (fadd p (of_nat (length bs - length (base_name bs)))) (base_name bs)"
    unfolding l using assms arg_cong [OF pre, of set] arg_cong [OF pre, of length] by (simp add: cstring_def)
qed

lemma normalise_fcb_path:
  assumes "path_there s bs"
  shows "normalise_fcb (mem s) (glob_sdaptr s) =
    Some (poke_bytes (mem s) (sda s SDA_FCB_FN1) (fcb_fill (replicate 11 ch_space) 0 (base_name bs)))"
proof -
  let ?p = "sda s SDA_FN1" and ?f = "sda s SDA_FCB_FN1"
  let ?k = "length bs - length (base_name bs)" and ?m = "poke_bytes (mem s) (sda s SDA_FCB_FN1) (replicate 11 ch_space)"
  have s: "sda_fits s" "cstring (mem s) ?p bs" "length bs < 128" using assms by (simp_all add: path_there_def)
  obtain pre where "bs = pre @ base_name bs" using base_name_suffix by blast
  then have l: "length (base_name bs) \<le> length bs" by (metis le_add2 length_append)
  have k: "?k + length (base_name bs) = length bs" "unat (of_nat ?k :: u16) = ?k"
    using l s(3) by (simp_all add: u16_of_nat del: of_nat_diff)
  have lin: "lin ?f = lin (glob_sdaptr s) + 0x22B" "lin ?p = lin (glob_sdaptr s) + 0x9E"
    using s(1) by (simp_all add: sda_lin)
  have fp: "fits ?p 129" using s(1) fits_fadd [of "glob_sdaptr s" "0x300" SDA_FN1 129] by (simp add: sda_fits_def)
  have ff: "fits ?f 11" using s(1) fits_fadd [of "glob_sdaptr s" "0x300" SDA_FCB_FN1 11] by (simp add: sda_fits_def)
  let ?q = "fadd ?p (of_nat ?k)"
  have q: "lin ?q = lin ?p + ?k" "fits ?q (length (base_name bs) + 1)"
    using k s(3) lin_fadd [OF fp, of "of_nat ?k"] fits_fadd [OF fp, of "of_nat ?k" "length (base_name bs) + 1"] by simp_all
  have a: "apart ?q (length (base_name bs) + 1) ?f 11"
    unfolding apart_def q(1) lin using k s(3) by simp
  note b = base_name_place [OF s(2)]
  have "cstring ?m ?q (base_name bs)"
    using cstring_poke [OF b(2) q(2), of ?f "replicate 11 ch_space"] ff a by simp
  from fcb_name_loop_eq [OF ff this q(2) a, of 0] b(1) show ?thesis
    using peek_poke_bytes_same [of ?f "replicate 11 ch_space" "mem s"] ff
    by (simp add: normalise_fcb_def poke_poke_same del: of_nat_diff)
qed

lemma inthandler_dispatches:
  assumes "glob_multiplexid s \<noteq> 0x11" "\<not> not_redirector r" "reg_al r \<noteq> AL_DISKSPACE"
    and "path_there s bs" "drv = requested_drive r s" "\<not> drv > 25" "ldrv (glob_data s) ! unat drv \<noteq> 0xFF"
  shows "inthandler rpc rst w ds off r s =
    do { s \<leftarrow> process2f rpc rst (entered w drv bs r s); Some (Return, glob_intregs s, s) }"
proof -
  let ?s = "s\<lparr>glob_reqstkword := w\<rparr>"
  have d: "requested_drive r ?s = drv" using assms(5) by (simp add: requested_drive_def Let_def)
  have ah: "reg_ah r = 0x11" using assms(2) by (simp add: not_redirector_def)
  show ?thesis
    using assms(1-3,6,7) ah normalise_fcb_path [OF assms(4)] d
    by (simp add: inthandler_def entered_def Let_def)
qed

section \<open>The handlers return\<close>

text \<open>
  \<open>returns P c\<close>: \<open>c\<close> returns, with a result that satisfies \<open>P\<close>. The calls of a handler return
  when the tick counter is live, and its loops over strings when these are terminated.
\<close>

definition returns :: "('a \<Rightarrow> bool) \<Rightarrow> 'a option \<Rightarrow> bool" where
  "returns P c \<longleftrightarrow> (\<exists>x. c = Some x \<and> P x)"

named_theorems returns_rules

lemma returns_Some [simp]: "returns P (Some x) \<longleftrightarrow> P x"
  by (simp add: returns_def)

lemma returns_seq: "returns Q c \<Longrightarrow> (\<And>x. Q x \<Longrightarrow> returns P (f x)) \<Longrightarrow> returns P (c \<bind> f)"
  by (auto simp: returns_def)

lemma returns_ifI [returns_rules]:
  "(b \<Longrightarrow> returns P c) \<Longrightarrow> (\<not> b \<Longrightarrow> returns P d) \<Longrightarrow> returns P (if b then c else d)"
  by simp

locale live_handlers = handlers rpc link_ok fixed
  for rpc :: "'l rpc_fun" and link_ok :: "'l \<Rightarrow> bool" and fixed +
  fixes live :: bool
  assumes rpc_returns: "live \<Longrightarrow> link_ok l \<Longrightarrow> plen \<le> 512 \<Longrightarrow> plen \<le> length payload \<Longrightarrow>
      \<exists>r. rpc port cmd payload plen l = Some r"
begin

abbreviation fn_at :: "'l tsr \<Rightarrow> u16 \<Rightarrow> bool" where
  "fn_at s k \<equiv> \<exists>bs. cstring (mem s) (sda s k) bs"

lemma call_returns [returns_rules]:
  assumes "live" "inv s" "plen \<le> 512" "plen \<le> length buf"
    and "\<And>ok st n s'. inv s' \<Longrightarrow> n \<le> 512 \<Longrightarrow> glob_intregs s' = glob_intregs s \<Longrightarrow> returns P (f (ok, st, n, s'))"
  shows "returns P (call_rpc rpc cmd buf plen rst s \<bind> f)"
proof -
  have "link_ok (link s)" using assms(2) unfolding resident_ok_def tsr_ok_def by blast
  from rpc_returns [OF assms(1) this assms(3,4)] obtain x
    where "rpc (comport (glob_data s)) cmd buf plen (link s) = Some x" by blast
  then obtain r l where r: "rpc (comport (glob_data s)) cmd buf plen (link s) = Some (r, l)" by (cases x) simp
  then obtain ok st n s' where c: "call_rpc rpc cmd buf plen rst s = Some (ok, st, n, s')"
    by (cases r) (auto simp: call_rpc_def)
  moreover have "glob_intregs s' = glob_intregs s"
    using c by (auto simp: call_rpc_def split: bind_splits rpc_result.splits)
  ultimately show ?thesis using call_keeps [OF c assms(2-4)] assms(5) by simp
qed

lemma path_request_returns [returns_rules]:
  assumes "inv s" "\<And>n s'. inv s' \<Longrightarrow> n \<le> 511 \<Longrightarrow> glob_intregs s' = glob_intregs s \<Longrightarrow> returns P (f n s')"
  shows "returns P (case path_request b s of (n, s') \<Rightarrow> f n s')"
proof -
  obtain n s' where p: "path_request b s = (n, s')" by fastforce
  then have g: "glob_intregs s' = glob_intregs s" by (auto simp: path_request_def split: prod.splits)
  have "inv s' \<and> n \<le> 511"
    using assms(1) tsr_ok_path_request [OF _ p, of link_ok] statics_requests(1) [OF p] by (simp add: resident_ok_def)
  then show ?thesis using assms(2) g by (simp add: p)
qed

lemma copy_fn1_path_returns [returns_rules]:
  assumes "length buf = 512" "off \<le> 510"
    and "\<And>n b. length b = 512 \<Longrightarrow> off + n \<le> 511 \<Longrightarrow> off = 0 \<longrightarrow> n \<le> 510 \<Longrightarrow> returns P (f n b)"
  shows "returns P (case copy_fn1_path buf off m p of (n, b) \<Rightarrow> f n b)"
  using assms copy_fn1_path_bounds [of buf off m p] by (cases "copy_fn1_path buf off m p") auto

lemma strlen_returns [returns_rules]:
  assumes "\<exists>bs. cstring m p bs"
  shows "(\<And>n. returns P (f n)) \<Longrightarrow> returns P (mystrlen m p \<bind> f)"
    and "(\<And>n. returns P (g n)) \<Longrightarrow> returns P (len_if_no_wildcards m p \<bind> g)"
  using assms mystrlen_cstring len_if_no_wildcards_cstring by fastforce+

lemma path_command_returns: "live \<Longrightarrow> inv s \<Longrightarrow> fn_at s SDA_FN1 \<Longrightarrow> returns inv (path_command rpc cmd e rst s)"
  unfolding path_command_def Let_def by (auto intro!: returns_rules)

lemma al_chdir_returns: "live \<Longrightarrow> inv s \<Longrightarrow> fn_at s SDA_FN1 \<Longrightarrow> returns inv (al_chdir rpc rst s)"
  unfolding al_chdir_def Let_def by (auto intro!: returns_rules)

lemma al_clsfil_returns: "live \<Longrightarrow> inv s \<Longrightarrow> returns inv (al_clsfil rpc rst s)"
  unfolding al_clsfil_def Let_def by (auto intro!: returns_rules)

lemma al_cmmtfil_returns: "live \<Longrightarrow> inv s \<Longrightarrow> returns inv (al_cmmtfil rpc rst s)"
  unfolding al_cmmtfil_def Let_def by (auto intro!: returns_rules)

lemma al_getattr_returns: "live \<Longrightarrow> inv s \<Longrightarrow> fn_at s SDA_FN1 \<Longrightarrow> returns inv (al_getattr rpc rst s)"
  unfolding al_getattr_def Let_def by (auto intro!: returns_rules)

lemma al_setattr_returns: "live \<Longrightarrow> inv s \<Longrightarrow> fn_at s SDA_FN1 \<Longrightarrow> returns inv (al_setattr rpc rst s)"
  unfolding al_setattr_def Let_def by (auto intro!: returns_rules)

lemma attr_and_fill_returns: "live \<Longrightarrow> inv s \<Longrightarrow> returns inv (attr_and_fill rpc sft h om rst s)"
  unfolding attr_and_fill_def Let_def by (auto intro!: returns_rules)

lemma al_open_returns: "live \<Longrightarrow> inv s \<Longrightarrow> fn_at s SDA_FN1 \<Longrightarrow> returns inv (al_open rpc rst s)"
  unfolding al_open_def Let_def by (auto intro!: returns_rules attr_and_fill_returns)

lemma al_create_returns: "live \<Longrightarrow> inv s \<Longrightarrow> fn_at s SDA_FN1 \<Longrightarrow> returns inv (al_create rpc rst s)"
  unfolding al_create_def Let_def by (auto intro!: returns_rules attr_and_fill_returns)

lemma al_skfmend_returns: "live \<Longrightarrow> inv s \<Longrightarrow> returns inv (al_skfmend rpc rst s)"
  unfolding al_skfmend_def Let_def by (auto intro!: returns_rules)

lemma al_rename_returns:
  assumes "live" "inv s" "fn_at s SDA_FN1" "fn_at s SDA_FN2"
  shows "returns inv (al_rename rpc rst s)"
proof -
  obtain n1 n2 where "mystrlen (mem s) (sda s SDA_FN1) = Some n1" "mystrlen (mem s) (sda s SDA_FN2) = Some n2"
    using assms(3,4) mystrlen_cstring by blast
  with assms(1,2) show ?thesis
    unfolding al_rename_def Let_def by (auto intro!: returns_rules)
qed

lemma spop_create_returns: "live \<Longrightarrow> inv s \<Longrightarrow> returns inv (spop_create rpc sft om hi lo fe rst s)"
  unfolding spop_create_def Let_def by (auto intro!: returns_rules attr_and_fill_returns)

lemma spop_probe_returns: "live \<Longrightarrow> inv s \<Longrightarrow> returns (\<lambda>(p, rst, s). inv s) (spop_probe rpc om hi rst s)"
  unfolding spop_probe_def Let_def by (auto intro!: returns_rules)

lemma al_spopnfil_returns:
  assumes "live" "inv s" "fn_at s SDA_FN1"
  shows "returns inv (al_spopnfil rpc rst s)"
  unfolding al_spopnfil_def Let_def
  using assms
  by (auto intro!: returns_rules returns_seq [OF spop_probe_returns] attr_and_fill_returns
      spop_create_returns split: probe_result.split)

lemma loop_regs [simp]:
  "glob_intregs (read_store t g s) = glob_intregs s" "glob_intregs (read_request sft t s) = glob_intregs s"
  by (simp_all add: read_store_def read_request_def)

lemma read_loop_returns:
  assumes "live"
  shows "inv s \<Longrightarrow> tot < cx (glob_intregs s) \<Longrightarrow> unat (cx (glob_intregs s)) \<le> 65024 \<Longrightarrow>
    returns inv (read_loop rpc sft rst tot s)"
proof (induction "unat (cx (glob_intregs s)) - unat tot" arbitrary: tot rst s rule: less_induct)
  case less
  have next_turn: "returns inv (read_loop rpc sft rst' (tot + of_nat n) (read_store tot (of_nat n) s'))"
    if s': "inv s'" "n \<le> 512" "glob_intregs s' = glob_intregs s"
      and n: "\<not> of_nat n < read_chunk tot s" "\<not> cx (glob_intregs s) \<le> tot + of_nat n" for rst' n s'
  proof -
    have t: "unat tot < unat (cx (glob_intregs s))" using less.prems(2) by (simp add: word_less_nat_alt)
    have "cx (glob_intregs s) - tot \<noteq> 0" using less.prems(2) by auto
    then have "read_chunk tot s \<noteq> 0" by (simp add: read_chunk_def Let_def)
    with n(1) have "n \<noteq> 0" by (cases n) (simp_all add: word_neq_0_conv)
    moreover have u: "unat (tot + of_nat n) = unat tot + n"
      using t less.prems(3) s'(2) by (simp add: unat_word_ariths u16_of_nat)
    ultimately show ?thesis
      using less.hyps [of "read_store tot (of_nat n) s'" "tot + of_nat n" rst'] n(2) t less.prems(3) s'
      by (simp add: not_le)
  qed
  show ?case
    using assms less.prems
    by (subst read_loop.simps) (auto simp: Let_def intro!: returns_rules next_turn)
qed

lemma write_loop_returns:
  assumes "live"
  shows "inv s \<Longrightarrow> returns (\<lambda>(w, s). inv s) (write_loop rpc sft n rst t s)"
proof (induction "unat n - unat t" arbitrary: t rst s rule: less_induct)
  case less
  have chunk: "unat (write_chunk n t) \<le> 511"
    by (auto simp: write_chunk_def Let_def word_less_nat_alt)
  have next_turn: "returns (\<lambda>(w, s). inv s) (write_loop rpc sft n rst' (t + write_chunk n t) (write_advance sft (write_chunk n t) s'))"
    if "t < n" "inv s'" for rst' s'
  proof -
    have l: "unat t < unat n" using that(1) by (simp add: word_less_nat_alt)
    have d: "unat (n - t) = unat n - unat t" using l by (simp add: unat_sub word_le_nat_alt)
    have c: "0 < unat (write_chunk n t)" "unat (write_chunk n t) \<le> unat n - unat t"
      using l d by (auto simp: write_chunk_def Let_def word_less_nat_alt)
    have "unat n < 65536" by simp
    then have "unat (t + write_chunk n t) = unat t + unat (write_chunk n t)"
      using c l by (simp add: unat_word_ariths del: u16_less)
    then show ?thesis using less.hyps that(2) c l by simp
  qed
  show ?case
    using assms less.prems chunk
    by (subst write_loop.simps) (auto simp: Let_def intro!: returns_rules next_turn)
qed

lemma al_readfil_returns:
  "live \<Longrightarrow> inv s \<Longrightarrow> unat (cx (glob_intregs s)) \<le> 65024 \<Longrightarrow> returns inv (al_readfil rpc rst s)"
  unfolding al_readfil_def Let_def by (auto intro!: returns_rules read_loop_returns simp: word_neq_0_conv)

lemma al_writefil_returns: "live \<Longrightarrow> inv s \<Longrightarrow> returns inv (al_writefil rpc rst s)"
  unfolding al_writefil_def Let_def
  by (auto intro!: returns_rules returns_seq [OF write_loop_returns])

lemmas handler_returns = path_command_returns al_chdir_returns al_clsfil_returns al_cmmtfil_returns
  al_readfil_returns al_writefil_returns al_getattr_returns al_setattr_returns al_rename_returns
  al_open_returns al_create_returns al_spopnfil_returns al_skfmend_returns

lemma process2f_returns:
  assumes "live" "inv s" "fn_at s SDA_FN1" "fn_at s SDA_FN2"
    and "reg_al (glob_intregs s) \<notin> {AL_FINDFIRST, AL_FINDNEXT}"
    and "reg_al (glob_intregs s) = AL_READFIL \<Longrightarrow> unat (cx (glob_intregs s)) \<le> 65024"
  shows "returns inv (process2f rpc rst s)"
proof -
  let ?s = "SUCCESSFLAG s"
  have s: "inv ?s" "fn_at ?s SDA_FN1" "fn_at ?s SDA_FN2" "cx (glob_intregs ?s) = cx (glob_intregs s)"
    using assms(2-4) by (simp_all add: SUCCESSFLAG_def)
  show ?thesis
    using assms(5,6) handler_returns [OF assms(1) s(1)] s
    by (simp add: process2f_def Let_def al_rmdir_def al_mkdir_def al_delete_def al_lockfil_def
        al_diskspace_def al_unknown_2d_def)
qed

end

interpretation live_serial: live_handlers "serial_rpc ops" rpc_ok fixed "timer_live ops"
  for ops :: "'h uart_ops" and fixed
  by unfold_locales (rule serial_rpc_total)

lemma fn_at_entered:
  assumes "sda_fits s" "cstring (mem s) (sda s k) bs" "unat k + length bs < 0x22B" "length xs = 11"
  shows "cstring (poke_bytes (mem s) (sda s SDA_FCB_FN1) xs) (sda s k) bs"
proof (rule cstring_poke [OF assms(2)])
  have k: "lin (sda s k) = lin (glob_sdaptr s) + unat k" "lin (sda s SDA_FCB_FN1) = lin (glob_sdaptr s) + 0x22B"
    using assms(1,3) by (simp_all add: sda_lin)
  show "fits (sda s k) (length bs + 1)" "fits (sda s SDA_FCB_FN1) (length xs)"
    using assms(1,3,4) fits_fadd [of "glob_sdaptr s" "0x300" k "length bs + 1"]
      fits_fadd [of "glob_sdaptr s" "0x300" SDA_FCB_FN1 11] by (simp_all add: sda_fits_def)
  show "apart (sda s k) (length bs + 1) (sda s SDA_FCB_FN1) (length xs)"
    using k assms(3) by (simp add: apart_def)
qed

lemma name_padded:
  "0 \<notin> set b \<Longrightarrow> name_base (b @ replicate n 0) = name_base b \<and> name_ext (b @ replicate n 0) = name_ext b"
proof (induction b)
  case Nil
  then show ?case by (cases n) (simp_all add: name_base_def name_ext_def)
next
  case (Cons c b)
  have "takeWhile (\<lambda>c. c \<noteq> 0) (b @ replicate n 0) = takeWhile (\<lambda>c. c \<noteq> 0) b"
    using Cons.prems by (cases n) (auto simp: takeWhile_append takeWhile_eq_all_conv [THEN iffD2])
  then show ?case using Cons by (simp add: name_base_def name_ext_def)
qed

section \<open>Properties\<close>

text \<open>
  C35: the FCB name that the entry point rebuilds from the last component of the path is the name that
  \<open>name83_to_fcb\<close> makes of that component, for every path whose last component is in 8.3 form, and
  nothing else in memory changes: the template of a search and the names it is compared with are
  built alike.
\<close>

theorem entry_rebuilds_fcb_name:
  assumes "path_there s bs" "name83 (base_name bs)" "length (base_name bs) \<le> 12"
  shows "normalise_fcb (mem s) (glob_sdaptr s) = Some (poke_bytes (mem s) (sda s SDA_FCB_FN1)
    (name83_to_fcb (base_name bs @ replicate (12 - length (base_name bs)) 0)))"
proof -
  let ?b = "base_name bs" and ?z = "replicate (12 - length (base_name bs)) (0 :: byte)"
  obtain pre where "bs = pre @ ?b" using base_name_suffix by blast
  then have nz: "0 \<notin> set ?b" using assms(1) by (metis UnCI cstring_def path_there_def set_append)
  have "name_base (?b @ ?z) = name_base ?b" "name_ext (?b @ ?z) = name_ext ?b"
    using name_padded [OF nz] by blast+
  then have "name83_to_fcb (?b @ ?z) = fcb_of ?b"
    using assms(3) name83_to_fcb_eq [of "?b @ ?z"] by (simp add: fcb_of_def)
  then show ?thesis using normalise_fcb_path [OF assms(1)] fcb_fill_name [OF nz assms(2)] by simp
qed

lemma demo_path_there: "path_there (demo_on l al n dta om) demo_path"
  using demo_cstring [of dta om]
  by (simp add: path_there_def sda_fits_def demo_path_def) (simp add: fadd_def)

theorem entry_rebuilds_fcb_name_witness:
  "normalise_fcb (demo_mem (0, 0) 0) (0x1000, 0) = Some (poke_bytes (demo_mem (0, 0) 0) (0x1000, 0x22B) demo_fcb)"
proof -
  have b: "base_name demo_path = [0x41, 0x2E, 0x54, 0x58, 0x54]" by (simp add: demo_path_def)
  have r: "replicate 7 (0x20 :: byte) = [0x20, 0x20, 0x20, 0x20, 0x20, 0x20, 0x20]"
    "replicate 7 (0 :: byte) = [0, 0, 0, 0, 0, 0, 0]" by code_simp+
  have f: "name83 (base_name demo_path)" "length (base_name demo_path) \<le> 12"
    "name83_to_fcb (base_name demo_path @ replicate (12 - length (base_name demo_path)) 0) = demo_fcb"
    unfolding b by (simp_all add: name83_def name_base_def name_ext_def name83_to_fcb_eq fcb_of_def pad_def
        demo_fcb_def r)
  show ?thesis
    using entry_rebuilds_fcb_name [OF demo_path_there [of demo_file 0 0 "(0, 0)" 0] f(1,2)] f(3) by (simp add: fadd_def)
qed

text \<open>
  C11: the INT 2Fh handler returns from every call other than a directory search, whatever the UART
  delivers, as long as the tick counter goes on and the two path fields of the swap area are
  terminated, and it keeps the invariant of the resident state. A READ of more than 65024 bytes is
  outside this bound: over-long replies could make its 16-bit byte count wrap.
\<close>

theorem inthandler_returns:
  assumes "timer_live ops" "tsr_ok rpc_ok s" "path_there s bs"
    and "cstring (mem s) (sda s SDA_FN2) bs'" "length bs' < 128"
    and "reg_al r \<notin> {AL_FINDFIRST, AL_FINDNEXT}" "reg_al r = AL_READFIL \<Longrightarrow> unat (cx r) \<le> 65024"
  shows "\<exists>out r' s'. inthandler (serial_rpc ops) rst w ds off r s = Some (out, r', s') \<and>
    tsr_ok rpc_ok s' \<and> statics s' = statics s"
proof -
  let ?inv = "resident_ok rpc_ok (statics s)" and ?ok = "\<lambda>(out, r', s'). resident_ok rpc_ok (statics s) s'"
  let ?s = "\<lambda>m. s\<lparr>glob_reqstkword := w, glob_reqdrv := requested_drive r (s\<lparr>glob_reqstkword := w\<rparr>), mem := m, glob_intregs := r\<rparr>"
  have inv: "?inv s" using assms(2) by (simp add: resident_ok_def)
  have p: "sda_fits s" "cstring (mem s) (sda s SDA_FN1) bs" "length bs < 128"
    using assms(3) by (simp_all add: path_there_def)
  have disp: "returns ?inv (process2f (serial_rpc ops) rst (?s m))"
    if "cstring m (sda s SDA_FN1) bs" "cstring m (sda s SDA_FN2) bs'" for m
    using live_serial.process2f_returns [of ops "statics s" "?s m" rst] assms(1,6,7) inv that by auto
  let ?m = "poke_bytes (mem s) (sda s SDA_FCB_FN1) (fcb_fill (replicate 11 ch_space) 0 (base_name bs))"
  have m: "cstring ?m (sda s SDA_FN1) bs" "cstring ?m (sda s SDA_FN2) bs'"
    using fn_at_entered [OF p(1) p(2)] fn_at_entered [OF p(1) assms(4)] p(3) assms(5) by simp_all
  have fin: "returns ?ok (process2f (serial_rpc ops) rst (?s m) \<bind> (\<lambda>s. Some (Return, glob_intregs s, s)))"
    if "cstring m (sda s SDA_FN1) bs" "cstring m (sda s SDA_FN2) bs'" for m
    using disp [OF that] by (rule returns_seq) simp
  have "returns ?ok (inthandler (serial_rpc ops) rst w ds off r s)"
    unfolding inthandler_def Let_def
    using inv normalise_fcb_path [OF assms(3)] fin [OF m] fin [OF p(2) assms(4)]
    by (intro returns_ifI) simp_all
  then show ?thesis by (auto simp: returns_def resident_ok_def)
qed

theorem inthandler_returns_witness:
  "\<exists>out r' s'. inthandler (serial_rpc (line_ops ping_peer)) 0 0 0 0
     \<lparr>ax = 0x1106, bx = 0, cx = 0, dx = 0, di = 0, es = 0x2000, flags = 1\<rparr> (demo_on line_start 0 0 (0, 0) 0) = Some (out, r', s')"
proof -
  let ?s = "demo_on line_start 0 0 (0, 0) 0"
  have "tsr_ok rpc_ok ?s" using line_start_ok by (simp add: tsr_ok_def)
  moreover have "cstring (mem ?s) (sda ?s SDA_FN2) []"
    by (simp add: cstring_def peek_bytes_def demo_eval)
  ultimately show ?thesis
    using inthandler_returns [OF line_timer_live _ demo_path_there [of line_start 0 0 "(0, 0)" 0], of "[]"
        "\<lparr>ax = 0x1106, bx = 0, cx = 0, dx = 0, di = 0, es = 0x2000, flags = 1\<rparr>" ping_peer 0 0 0 0]
    by (auto simp: reg_al_def)
qed

end
