(* ===== verification/Sdf_Args.thy ===== *)
theory Sdf_Args
  imports Sdf_IntHandler
begin

text \<open>
  The command line of the resident program, \<open>parseargv\<close> in \<open>dos/src/serdfs.c\<close>. An argument is
  the list of its characters; reading at its length gives the terminating NUL. The negative return
  codes are the left summand, with the state as the failed call leaves it.
\<close>

section \<open>Definitions\<close>

abbreviation (input) ARGFL_QUIET :: byte where "ARGFL_QUIET \<equiv> 1"
abbreviation (input) ARGFL_UNLOAD :: byte where "ARGFL_UNLOAD \<equiv> 2"
abbreviation (input) ARGFL_STATUS :: byte where "ARGFL_STATUS \<equiv> 4"
abbreviation (input) ARGFL_STATS :: byte where "ARGFL_STATS \<equiv> 8"

abbreviation (input) SERUART_DIV_9600 :: u16 where "SERUART_DIV_9600 \<equiv> 12"

text \<open>\<open>struct argstruct\<close>, with the drive table of \<open>glob_data\<close> that \<open>parseargv\<close> fills.\<close>

record args =
  comport_arg :: byte
  baudiv :: u16
  argflags :: byte
  drive_map :: "byte list"
  drivemapflag :: bool

definition at :: "string \<Rightarrow> nat \<Rightarrow> char" where
  "at a i = (if i < length a then a ! i else CHR 0x00)"

definition upper :: "char \<Rightarrow> bool" where
  "upper c \<longleftrightarrow> c \<in> set ''ABCDEFGHIJKLMNOPQRSTUVWXYZ''"

definition digit :: "char \<Rightarrow> bool" where
  "digit c \<longleftrightarrow> c \<in> set ''0123456789''"

text \<open>
  The digits of \<open>/BAUD:\<close> accumulate in a 32-bit \<open>long\<close>; the result is the number and the rest.
\<close>

fun baud_loop :: "u32 \<Rightarrow> string \<Rightarrow> u32 \<times> string" where
  "baud_loop baud [] = (baud, [])"
| "baud_loop baud (c # p) = (if digit c then baud_loop (baud * 10 + (of_char c - 0x30)) p else (baud, c # p))"

definition parse_map :: "string \<Rightarrow> args \<Rightarrow> int \<times> args" where
  "parse_map a s =
     (let rdrv = DRIVETONUM (of_char (at a 0)); ldrv = DRIVETONUM (of_char (at a 2)) in
      if ldrv > 25 \<or> rdrv > 25 then (-2, s)
      else if drive_map s ! unat ldrv \<noteq> 0xFF then (-2, s)
      else (0, s\<lparr>drive_map := (drive_map s)[unat ldrv := rdrv], drivemapflag := True\<rparr>))"

definition parse_option :: "string \<Rightarrow> args \<Rightarrow> int \<times> args" where
  "parse_option a s =
     (if take 3 a = ''COM'' then
        (if drop 3 a = ''1'' then (0, s\<lparr>comport_arg := 1\<rparr>)
         else if drop 3 a = ''2'' then (0, s\<lparr>comport_arg := 2\<rparr>)
         else (-4, s))
      else if take 5 a = ''BAUD:'' then
        (if drop 5 a = [] then (-4, s)
         else let (baud, p) = baud_loop 0 (drop 5 a) in
           if p \<noteq> [] then (-4, s)
           else let s = s\<lparr>baudiv := seruart_baud_to_div (sint baud)\<rparr> in
             if baudiv s = 0 then (-4, s) else (0, s))
      else if a = ''STATS'' then (0, s\<lparr>argflags := argflags s OR ARGFL_STATS\<rparr>)
      else if a = ''STATUS'' then (0, s\<lparr>argflags := argflags s OR ARGFL_STATUS\<rparr>)
      else if a = ''NOSTATUS'' then (0, s\<lparr>argflags := argflags s AND NOT ARGFL_STATUS\<rparr>)
      else if a = ''q'' \<or> a = ''Q'' then (0, s\<lparr>argflags := argflags s OR ARGFL_QUIET\<rparr>)
      else if a = ''u'' \<or> a = ''U'' then (0, s\<lparr>argflags := argflags s OR ARGFL_UNLOAD\<rparr>)
      else (-5, s))"

definition parse_arg :: "string \<Rightarrow> args \<Rightarrow> int \<times> args" where
  "parse_arg a s =
     (if upper (at a 0) \<and> at a 1 = CHR ''-'' \<and> upper (at a 2) \<and> length a = 3 then parse_map a s
      else if at a 0 \<noteq> CHR ''/'' then (-3, s)
      else parse_option (drop 1 a) s)"

primrec parse_loop :: "string list \<Rightarrow> args \<Rightarrow> int \<times> args" where
  "parse_loop [] s = (0, s)"
| "parse_loop (a # as) s = (case parse_arg a s of (rc, s) \<Rightarrow> if rc \<noteq> 0 then (rc, s) else parse_loop as s)"

definition parse_final :: "args \<Rightarrow> int \<times> args" where
  "parse_final s =
     (if argflags s AND ARGFL_UNLOAD \<noteq> 0 then (if drivemapflag s then (-1, s) else (0, s))
      else if argflags s AND ARGFL_STATS \<noteq> 0 then (0, s)
      else if \<not> drivemapflag s then (-6, s)
      else if comport_arg s = 0 then (-7, s)
      else (0, if baudiv s = 0 then s\<lparr>baudiv := SERUART_DIV_9600\<rparr> else s))"

definition parseargv :: "string list \<Rightarrow> args \<Rightarrow> int \<times> args" where
  "parseargv argv s =
     (case parse_loop (drop 1 argv) s of (rc, s) \<Rightarrow> if rc \<noteq> 0 then (rc, s) else parse_final s)"

text \<open>The state \<open>main\<close> starts the parse with: no drive mapped, everything else zero.\<close>

definition args_start :: args where
  "args_start = \<lparr>comport_arg = 0, baudiv = 0, argflags = 0, drive_map = replicate 26 0xFF, drivemapflag = False\<rparr>"

section \<open>What a parse leaves behind\<close>

definition args_ok :: "args \<Rightarrow> bool" where
  "args_ok s \<longleftrightarrow> comport_arg s \<in> {0, 1, 2} \<and> baudiv s \<in> {0, 1, 2, 3, 6, 12} \<and> length (drive_map s) = 26 \<and>
     (\<forall>d \<in> set (drive_map s). d = 0xFF \<or> d < 26) \<and> (drivemapflag s \<longleftrightarrow> (\<exists>d \<in> set (drive_map s). d \<noteq> 0xFF))"

lemma args_start_ok: "args_ok args_start"
  by (simp add: args_ok_def args_start_def)

lemma parse_map_ok:
  assumes "parse_map a s = (rc, s')" "args_ok s"
  shows "args_ok s'"
proof -
  let ?l = "DRIVETONUM (of_char (at a 2))" and ?r = "DRIVETONUM (of_char (at a 0))"
  show ?thesis
  proof (cases "?l > 25 \<or> ?r > 25 \<or> drive_map s ! unat ?l \<noteq> 0xFF")
    case True
    then show ?thesis using assms by (auto simp: parse_map_def Let_def split: if_splits)
  next
    case False
    then have r: "?r < 26" "unat ?l < 26" by (auto simp: word_less_nat_alt word_le_nat_alt not_less)
    then have f: "?r \<noteq> 0xFF" by auto
    have s': "s' = s\<lparr>drive_map := (drive_map s)[unat ?l := ?r], drivemapflag := True\<rparr>"
      using assms(1) False by (auto simp: parse_map_def Let_def split: if_splits)
    have "?r \<in> set ((drive_map s)[unat ?l := ?r])"
      using r assms(2) by (intro set_update_memI) (simp add: args_ok_def)
    then show ?thesis
      using assms(2) r f set_update_subset_insert [of "drive_map s" "unat ?l" ?r]
      by (auto simp: s' args_ok_def)
  qed
qed

lemma args_ok_updates:
  "args_ok s \<Longrightarrow> args_ok (s\<lparr>comport_arg := 1\<rparr>)" "args_ok s \<Longrightarrow> args_ok (s\<lparr>comport_arg := 2\<rparr>)"
  "args_ok (s\<lparr>argflags := f\<rparr>) = args_ok s" "args_ok s \<Longrightarrow> args_ok (s\<lparr>baudiv := 12\<rparr>)"
  "args_ok s \<Longrightarrow> args_ok (s\<lparr>baudiv := seruart_baud_to_div b\<rparr>)"
  by (simp_all add: args_ok_def seruart_baud_to_div_def)

lemma parse_option_ok:
  assumes "parse_option a s = (rc, s')" "args_ok s"
  shows "args_ok s'"
proof -
  have ifI: "args_ok (snd x) \<Longrightarrow> args_ok (snd y) \<Longrightarrow> args_ok (snd (if b then x else y))" for b x y
    by simp
  have caseI: "(\<And>x y. args_ok (snd (f x y))) \<Longrightarrow> args_ok (snd (case p of (x, y) \<Rightarrow> f x y))"
    for f :: "u32 \<Rightarrow> string \<Rightarrow> int \<times> args" and p
    by (cases p) simp
  have "args_ok (snd (parse_option a s))"
    unfolding parse_option_def Let_def
    by (intro ifI caseI) (simp_all only: snd_conv args_ok_updates assms(2))
  then show ?thesis by (simp add: assms(1))
qed

lemma parse_loop_ok: "parse_loop as s = (rc, s') \<Longrightarrow> args_ok s \<Longrightarrow> args_ok s'"
proof (induction as arbitrary: s)
  case (Cons a as)
  obtain rc1 s1 where p: "parse_arg a s = (rc1, s1)" by fastforce
  then have "args_ok s1"
    using Cons.prems(2) parse_map_ok parse_option_ok by (auto simp: parse_arg_def split: if_splits)
  then show ?case using Cons.prems(1) Cons.IH p by (auto split: if_splits)
qed auto

lemma parse_final_ok:
  assumes "parse_final s = (0, s')" "args_ok s" "argflags s' AND ARGFL_UNLOAD = 0" "argflags s' AND ARGFL_STATS = 0"
  shows "args_ok s' \<and> comport_arg s' \<noteq> 0 \<and> baudiv s' \<noteq> 0 \<and> drivemapflag s'"
  using assms args_ok_updates(4) [OF assms(2)]
  by (auto simp: parse_final_def split: if_splits)

lemma parseargv_ok:
  assumes "parseargv argv args_start = (0, s)" "argflags s AND ARGFL_UNLOAD = 0" "argflags s AND ARGFL_STATS = 0"
  shows "args_ok s \<and> comport_arg s \<noteq> 0 \<and> baudiv s \<noteq> 0 \<and> drivemapflag s"
proof -
  obtain s1 where p: "parse_loop (drop 1 argv) args_start = (0, s1)" "parse_final s1 = (0, s)"
    using assms(1) by (auto simp: parseargv_def split: prod.splits if_splits)
  have "args_ok s1" using parse_loop_ok [OF p(1) args_start_ok] .
  from parse_final_ok [OF p(2) this assms(2,3)] show ?thesis .
qed

section \<open>The documented command line\<close>

definition letter :: "nat \<Rightarrow> char" where
  "letter i = ''ABCDEFGHIJKLMNOPQRSTUVWXYZ'' ! i"

lemma letters: "\<forall>i \<in> set [0..<26]. upper (letter i) \<and> DRIVETONUM (of_char (letter i)) = of_nat i"
  by code_simp

lemma parse_drive_arg:
  assumes "r < 26" "l < 26" "drive_map s ! l = 0xFF"
  shows "parse_arg [letter r, CHR ''-'', letter l] s =
    (0, s\<lparr>drive_map := (drive_map s)[l := of_nat r], drivemapflag := True\<rparr>)"
proof -
  have "\<not> (of_nat k :: byte) > 25" if "k < 26" for k
    using that by (simp add: word_less_nat_alt byte_of_nat)
  then show ?thesis
    using assms letters by (simp add: parse_arg_def at_def parse_map_def byte_of_nat)
qed

definition baud_table :: "(string \<times> u16) list" where
  "baud_table = [(''9600'', 12), (''19200'', 6), (''38400'', 3), (''57600'', 2), (''115200'', 1)]"

lemma baud_digits:
  "\<forall>(b, d) \<in> set baud_table. b \<noteq> [] \<and> snd (baud_loop 0 b) = [] \<and>
     seruart_baud_to_div (sint (fst (baud_loop 0 b))) = d \<and> d \<noteq> 0"
  by code_simp

lemma parse_baud_arg:
  assumes "(b, d) \<in> set baud_table"
  shows "parse_arg (''/BAUD:'' @ b) s = (0, s\<lparr>baudiv := d\<rparr>)"
proof -
  obtain n p where n: "baud_loop 0 b = (n, p)" by fastforce
  with assms baud_digits have "b \<noteq> []" "p = []" "seruart_baud_to_div (sint n) = d" "d \<noteq> 0"
    by auto
  then show ?thesis
    using n by (simp add: parse_arg_def at_def upper_def parse_option_def)
qed

lemma parse_com_arg:
  "parse_arg ''/COM1'' s = (0, s\<lparr>comport_arg := 1\<rparr>)" "parse_arg ''/COM2'' s = (0, s\<lparr>comport_arg := 2\<rparr>)"
  by (simp_all add: parse_arg_def at_def upper_def parse_option_def)

section \<open>Properties\<close>

text \<open>
  C28: the documented command line, a drive mapping, a port and a baud rate, is accepted for every
  pair of drive letters, either port and every supported rate, and yields exactly that mapping, port
  and divisor; without a port option the program refuses to install (-7), although the help text
  names COM1 as the default.
\<close>

theorem parseargv_documented:
  assumes "r < 26" "l < 26" "(b, d) \<in> set baud_table" "(com, p) \<in> {(''/COM1'', 1), (''/COM2'', 2)}"
  shows "parseargv [exe, [letter r, CHR ''-'', letter l], com, ''/BAUD:'' @ b] args_start =
      (0, \<lparr>comport_arg = p, baudiv = d, argflags = 0, drive_map = (replicate 26 0xFF)[l := of_nat r], drivemapflag = True\<rparr>) \<and>
    fst (parseargv [exe, [letter r, CHR ''-'', letter l], ''/BAUD:'' @ b] args_start) = -7"
proof -
  have m: "parse_arg [letter r, CHR ''-'', letter l] args_start =
      (0, args_start\<lparr>drive_map := (drive_map args_start)[l := of_nat r], drivemapflag := True\<rparr>)"
    using assms(1,2) by (intro parse_drive_arg) (simp_all add: args_start_def)
  have "d \<noteq> 0" using assms(3) baud_digits by auto
  then show ?thesis
    using assms(4)
    by (auto simp: parseargv_def m parse_baud_arg [OF assms(3), simplified] parse_com_arg parse_final_def)
      (simp_all add: args_start_def)
qed

theorem parseargv_documented_witness:
  "parseargv [''SERDFS'', ''C-X'', ''/COM2'', ''/BAUD:19200''] args_start =
     (0, \<lparr>comport_arg = 2, baudiv = 6, argflags = 0, drive_map = (replicate 26 0xFF)[23 := 2], drivemapflag = True\<rparr>)"
  using parseargv_documented [of 2 23 "''19200''" 6 "''/COM2''" 2 "''SERDFS''"]
  by (simp add: letter_def baud_table_def)

text \<open>
  C29: a command line that is accepted for installation, whatever its arguments and their order,
  leaves a state the installer can rely on: a port, a supported divisor, a drive table of 26
  entries that are unused or a drive number, and at least one drive mapped.
\<close>

theorem parseargv_accepts_sound:
  assumes "parseargv argv args_start = (0, s)"
    and "argflags s AND ARGFL_UNLOAD = 0" "argflags s AND ARGFL_STATS = 0"
  shows "comport_arg s \<in> {1, 2} \<and> baudiv s \<in> {1, 2, 3, 6, 12} \<and> length (drive_map s) = 26 \<and>
    (\<forall>x \<in> set (drive_map s). x = 0xFF \<or> x < 26) \<and> (\<exists>x \<in> set (drive_map s). x \<noteq> 0xFF)"
  using parseargv_ok [OF assms] by (auto simp: args_ok_def)

theorem parseargv_accepts_sound_witness:
  "\<exists>s. parseargv [''SERDFS'', ''/COM1'', ''C-X''] args_start = (0, s) \<and> baudiv s \<in> {1, 2, 3, 6, 12}"
proof -
  let ?r = "parseargv [''SERDFS'', ''/COM1'', ''C-X''] args_start"
  have r: "fst ?r = 0 \<and> argflags (snd ?r) AND ARGFL_UNLOAD = 0 \<and> argflags (snd ?r) AND ARGFL_STATS = 0"
    by code_simp
  then have "?r = (0, snd ?r)" by (simp add: prod_eq_iff)
  from parseargv_accepts_sound [OF this] r show ?thesis by (auto simp: prod_eq_iff)
qed

end
