(* ===== verification/Sdf_Install.thy ===== *)
theory Sdf_Install
  imports Sdf_Args Sdf_Status
begin

text \<open>
  The transient part of \<open>dos/src/serdfs.c\<close>: the helpers that talk to DOS and \<open>main\<close>, which
  reports the counters of a resident copy, unloads one or installs the program. The state is the
  resident state with what only \<open>main\<close> uses: the environment \<open>dos\<close>, the data segment in use, the
  statics of \<open>getcds\<close> and the console. The services of DOS and the INT 2Fh chain are the functions
  of \<open>dos_ops\<close>, the addresses the linker gives the handlers those of \<open>code_map\<close>.
\<close>

section \<open>Environment\<close>

record 'd dos_ops =
  get_vect :: "byte \<Rightarrow> 'd \<Rightarrow> fp"
  set_vect :: "byte \<Rightarrow> fp \<Rightarrow> 'd \<Rightarrow> 'd"
  int2f :: "intpack \<Rightarrow> 'd \<Rightarrow> intpack \<times> 'd"
  scratch_regs :: "'d \<Rightarrow> intpack"
  true_version :: "'d \<Rightarrow> byte \<times> byte"
  list_of_lists :: "'d \<Rightarrow> fp"
  sda_ptr :: "'d \<Rightarrow> fp"
  indos_ptr :: "'d \<Rightarrow> fp"
  get_strategy :: "'d \<Rightarrow> u16"
  set_strategy :: "u16 \<Rightarrow> 'd \<Rightarrow> 'd"
  alloc_paras :: "u16 \<Rightarrow> 'd \<Rightarrow> u16 option \<times> 'd"
  free_seg :: "u16 \<Rightarrow> 'd \<Rightarrow> 'd"
  psp_seg :: "'d \<Rightarrow> u16"

record code_map =
  inthandler_at :: fp
  int28h_at :: fp
  int1ch_at :: fp
  begtextend :: u16

datatype shown = Notice string | Line "byte list"

record ('l, 'd) loader = "'l tsr" +
  dos :: 'd
  dseg :: u16
  cds_ok :: int
  cds_dir :: fp
  cds_lastdrv :: byte
  console :: "shown list"

datatype ending = Exit nat | StayResident u16

abbreviation (input) CDSFLAG_PHY :: u16 where "CDSFLAG_PHY \<equiv> 0x4000"
abbreviation (input) CDSFLAG_NET :: u16 where "CDSFLAG_NET \<equiv> 0x8000"
abbreviation (input) CDS_FLAGS :: u16 where "CDS_FLAGS \<equiv> 67"
abbreviation (input) DATASEGSZ :: u16 where "DATASEGSZ \<equiv> 4096"

text \<open>The messages of \<open>msg/*.c\<close>, by the name of the file.\<close>

definition notice :: "string \<Rightarrow> ('l, 'd) loader \<Rightarrow> ('l, 'd) loader" where
  "notice f s = s\<lparr>console := console s @ [Notice f]\<rparr>"

text \<open>\<open>outmsg\<close> prints up to the dollar sign.\<close>

definition outmsg :: "byte list \<Rightarrow> ('l, 'd) loader \<Rightarrow> ('l, 'd) loader" where
  "outmsg buf s = s\<lparr>console := console s @ [Line (takeWhile (\<lambda>b. b \<noteq> 0x24) buf)]\<rparr>"

section \<open>Helpers\<close>

definition getsda :: "'d dos_ops \<Rightarrow> ('l, 'd) loader \<Rightarrow> fp" where
  "getsda ops s = sda_ptr ops (dos s)"

definition getcds :: "'d dos_ops \<Rightarrow> u16 \<Rightarrow> ('l, 'd) loader \<Rightarrow> fp \<times> ('l, 'd) loader" where
  "getcds ops drive s =
     (let s = (if cds_ok s = -1
               then let p = list_of_lists ops (dos s); dir = peek_fp (mem s) (fadd p 0x16)
                    in s\<lparr>cds_ok := (if dir = (0xFFFF, 0xFFFF) then 0 else 1), cds_dir := dir,
                         cds_lastdrv := peek8 (mem s) (fadd p 0x21)\<rparr>
               else s)
      in (if cds_ok s = 0 \<or> drive > ucast (cds_lastdrv s) then NULL else fadd (cds_dir s) (drive * 0x58), s))"

text \<open>The allocation strategy is set to last fit for the call and restored; 0 is a failure.\<close>

definition allocseg :: "'d dos_ops \<Rightarrow> u16 \<Rightarrow> ('l, 'd) loader \<Rightarrow> u16 \<times> ('l, 'd) loader" where
  "allocseg ops sz s =
     (let strategy = get_strategy ops (dos s);
          (res, d) = alloc_paras ops (drop_bit 4 (sz + 15)) (set_strategy ops 2 (dos s))
      in (case res of None \<Rightarrow> 0 | Some g \<Rightarrow> g, s\<lparr>dos := set_strategy ops strategy d\<rparr>))"

definition freeseg :: "'d dos_ops \<Rightarrow> u16 \<Rightarrow> ('l, 'd) loader \<Rightarrow> ('l, 'd) loader" where
  "freeseg ops g s = s\<lparr>dos := free_seg ops g (dos s)\<rparr>"

text \<open>The scan for a four-byte signature in the first bytes of a handler: its offset.\<close>

function sig_scan :: "memory \<Rightarrow> fp \<Rightarrow> byte list \<Rightarrow> nat \<Rightarrow> nat option" where
  "sig_scan m h sg i =
     (if i \<le> 28 then if peek_bytes m (fadd h (of_nat i)) 4 = sg then Some i else sig_scan m h sg (i + 1) else None)"
  by pat_completeness auto
termination by (relation "measure (\<lambda>(m, h, sg, i). 29 - i)") auto

declare sig_scan.simps [simp del]

definition patchhandlerds :: "fp \<Rightarrow> string \<Rightarrow> ('l, 'd) loader \<Rightarrow> bool \<times> ('l, 'd) loader" where
  "patchhandlerds h sg s =
     (case sig_scan (mem s) h (map of_char sg) 0 of
        None \<Rightarrow> (False, s)
      | Some i \<Rightarrow> (True, s\<lparr>mem := poke16 (mem s) (fadd h (of_nat i + 6)) (dseg s)\<rparr>))"

definition updatetsrds :: "code_map \<Rightarrow> ('l, 'd) loader \<Rightarrow> bool \<times> ('l, 'd) loader" where
  "updatetsrds code s = patchhandlerds (inthandler_at code) ''SDFS'' s"

text \<open>
  The scan of the multiplex numbers: \<open>freeid\<close> is the AH that came back with the last AL of 0. The
  result is the number and whether a resident copy answered. BX and CX are those of the call before.
\<close>

function checkid :: "'d dos_ops \<Rightarrow> byte \<Rightarrow> byte \<Rightarrow> intpack \<Rightarrow> 'd \<Rightarrow> (byte \<times> bool) \<times> 'd" where
  "checkid ops id' freeid r d =
     (let (r, d) = int2f ops (r\<lparr>ax := push_bit 8 (ucast id')\<rparr>) d in
      if reg_al r = 0xFF \<and> bx r = SDF_MUXBX \<and> cx r = SDF_MUXCX then ((id', True), d)
      else let freeid = (if reg_al r = 0 then reg_ah r else freeid); id' = id' + 1
        in if id' = 0 then ((freeid, False), d) else checkid ops id' freeid r d)"
  by pat_completeness auto
termination
proof (relation "measure (\<lambda>(ops, id', freeid, r, d). 256 - unat id')", goal_cases)
  case (2 ops id' freeid r d x r' d' freeid' id'')
  then have "unat id'' = Suc (unat id')" by (simp add: unat_word_ariths unat_eq_0 [symmetric] mod_Suc split: if_splits)
  moreover have "unat id'' < 2 ^ LENGTH(8)" by (rule unsigned_less)
  ultimately show ?case by simp
qed simp

declare checkid.simps [simp del]

definition findfreemultiplex :: "'d dos_ops \<Rightarrow> ('l, 'd) loader \<Rightarrow> (byte \<times> bool) \<times> ('l, 'd) loader" where
  "findfreemultiplex ops s =
     (let (res, d) = checkid ops 0xC0 0 (scratch_regs ops (dos s)) (dos s) in (res, s\<lparr>dos := d\<rparr>))"

text \<open>The address of the data of the resident copy, segment \<open>0xFFFF\<close> when it does not answer.\<close>

definition query_shared :: "'d dos_ops \<Rightarrow> byte \<Rightarrow> ('l, 'd) loader \<Rightarrow> fp \<times> ('l, 'd) loader" where
  "query_shared ops serdfsid s =
     (let (r, d) = int2f ops ((scratch_regs ops (dos s))\<lparr>ax := push_bit 8 (ucast serdfsid) OR 1, bx := SDF_MUXBX\<rparr>) (dos s)
      in (if ax r = 0 then (bx r, cx r) else (0xFFFF, 0), s\<lparr>dos := d\<rparr>))"

section \<open>The report of \<open>/STATS\<close>\<close>

text \<open>Appending to the 48-byte line at \<open>k\<close>, as \<open>line[k++] = c\<close> and \<open>k += appendulong(line + k, v)\<close>.\<close>

definition put_str :: "string \<Rightarrow> nat \<times> byte list \<Rightarrow> nat \<times> byte list" where
  "put_str cs = (\<lambda>(k, buf). (k + length cs, copy_at buf k (map of_char cs) (length cs)))"

definition put_num :: "u32 \<Rightarrow> nat \<times> byte list \<Rightarrow> nat \<times> byte list" where
  "put_num v = (\<lambda>(k, buf). let (n, buf) = appendulong buf k v in (k + n, buf))"

abbreviation crlf :: string where "crlf \<equiv> [CHR 0x0D, CHR 0x0A]"

text \<open>Every byte of the line up to the dollar sign is written before it is printed.\<close>

definition stats_line1 :: "memory \<Rightarrow> fp \<Rightarrow> byte list \<Rightarrow> byte list" where
  "stats_line1 m tsrdata line =
     snd (put_str (crlf @ ''$'') (put_num (peek32 m (fadd tsrdata 52)) (put_str '' RX:''
         (put_num (peek32 m (fadd tsrdata 48)) (put_str ''TX:'' (0, line))))))"

definition stats_line2 :: "memory \<Rightarrow> fp \<Rightarrow> byte list \<Rightarrow> byte list" where
  "stats_line2 m tsrdata line =
     snd (put_str (crlf @ ''$'') (put_num (ucast (peek16 m (fadd tsrdata 56))) (put_str '' CE:''
         (put_num (ucast (peek16 m (fadd tsrdata 60))) (put_str '' RT:''
         (put_num (ucast (peek16 m (fadd tsrdata 58))) (put_str ''TO:'' (0, line))))))))"

definition main_stats :: "'d dos_ops \<Rightarrow> ('l, 'd) loader \<Rightarrow> ending \<times> ('l, 'd) loader" where
  "main_stats ops s =
     (let ((serdfsid, present), s) = findfreemultiplex ops s in
      if \<not> present then (Exit 1, outmsg (map of_char (''SerialDFS not loaded.'' @ crlf @ ''$'')) s)
      else let (tsrdata, s) = query_shared ops serdfsid s in
        if fst tsrdata = 0xFFFF then (Exit 1, notice ''tsrcomfa'' s)
        else let line = stats_line1 (mem s) tsrdata (replicate 48 0); s = outmsg line s
          in (Exit 0, outmsg (stats_line2 (mem s) tsrdata line) s))"

section \<open>Unloading\<close>

text \<open>The data of the resident copy at a far address: \<open>struct tsrshareddata\<close>.\<close>

definition shared_fp :: "memory \<Rightarrow> fp \<Rightarrow> u16 \<Rightarrow> fp" where
  "shared_fp m p k = (peek16 m (fadd p k), peek16 m (fadd p (k + 2)))"

primrec clear_drives :: "'d dos_ops \<Rightarrow> fp \<Rightarrow> nat list \<Rightarrow> ('l, 'd) loader \<Rightarrow> ('l, 'd) loader" where
  "clear_drives ops tsrdata [] s = s"
| "clear_drives ops tsrdata (i # is) s =
     clear_drives ops tsrdata is
       (if peek8 (mem s) (fadd tsrdata (14 + of_nat i)) = 0xFF then s
        else let (cds, s) = getcds ops (of_nat i) s in
          if cds \<noteq> NULL then s\<lparr>mem := poke16 (mem s) (fadd cds CDS_FLAGS) 0\<rparr> else s)"

definition restore_vect :: "'d dos_ops \<Rightarrow> byte \<Rightarrow> fp \<Rightarrow> ('l, 'd) loader \<Rightarrow> ('l, 'd) loader" where
  "restore_vect ops n p s = s\<lparr>dos := set_vect ops n p (dos s)\<rparr>"

definition unload_resident :: "'d dos_ops \<Rightarrow> fp \<Rightarrow> ('l, 'd) loader \<Rightarrow> ('l, 'd) loader" where
  "unload_resident ops tsrdata s =
     (let s = restore_vect ops 0x2F (shared_fp (mem s) tsrdata 0) s;
          p28 = shared_fp (mem s) tsrdata 40; s = (if p28 \<noteq> NULL then restore_vect ops 0x28 p28 s else s);
          p1c = shared_fp (mem s) tsrdata 44; s = (if p1c \<noteq> NULL then restore_vect ops 0x1C p1c s else s);
          s = freeseg ops (fst tsrdata) (clear_drives ops tsrdata [0..<26] s)
      in freeseg ops (peek16 (mem s) (fadd tsrdata 4)) s)"

definition main_unload :: "'d dos_ops \<Rightarrow> args \<Rightarrow> ('l, 'd) loader \<Rightarrow> ending \<times> ('l, 'd) loader" where
  "main_unload ops a s =
     (let ((serdfsid, present), s) = findfreemultiplex ops s in
      if \<not> present then (Exit 1, notice ''notload'' s)
      else if sig_scan (mem s) (get_vect ops 0x2F (dos s)) (map of_char ''SDFS'') 0 = None
      then (Exit 1, notice ''othertsr'' s)
      else let (tsrdata, s) = query_shared ops serdfsid s in
        if fst tsrdata = 0xFFFF then (Exit 1, notice ''tsrcomfa'' s)
        else let s = unload_resident ops tsrdata s
          in (Exit 0, if argflags a AND ARGFL_QUIET = 0 then notice ''unloaded'' s else s))"

section \<open>Installing\<close>

text \<open>The checks before anything is changed; the left summand is the message before \<open>return 1\<close>.\<close>

primrec check_drives :: "'d dos_ops \<Rightarrow> nat list \<Rightarrow> ('l, 'd) loader \<Rightarrow> string option \<times> ('l, 'd) loader" where
  "check_drives ops [] s = (None, s)"
| "check_drives ops (i # is) s =
     (if ldrv (glob_data s) ! i = 0xFF then check_drives ops is s
      else let (cds, s) = getcds ops (of_nat i) s in
        if cds = NULL then (Some ''mapfail'', s)
        else if peek16 (mem s) (fadd cds CDS_FLAGS) \<noteq> 0 then (Some ''drvactiv'', s)
        else check_drives ops is s)"

definition install_checks :: "'d dos_ops \<Rightarrow> ('l, 'd) loader \<Rightarrow> string option \<times> ('l, 'd) loader" where
  "install_checks ops s =
     (let s = s\<lparr>glob_data := (glob_data s)\<lparr>prev_2f_handler := get_vect ops 0x2F (dos s)\<rparr>\<rparr>;
          ((freeid, present), s) = findfreemultiplex ops s; s = s\<lparr>glob_multiplexid := freeid\<rparr>
      in if present then (Some ''alrload'', s)
         else if glob_multiplexid s = 0 then (Some ''nomultpx'', s)
         else check_drives ops [0..<26] s)"

text \<open>
  The permanent data segment. The copy of the statics into it is the identity on the state; what
  changes is the segment in use.
\<close>

definition install_segment :: "'d dos_ops \<Rightarrow> code_map \<Rightarrow> ('l, 'd) loader \<Rightarrow> string option \<times> ('l, 'd) loader" where
  "install_segment ops code s =
     (let (newdataseg, s) = allocseg ops DATASEGSZ s in
      if newdataseg = 0 then (Some ''memfail'', s)
      else let (ok, s) = updatetsrds code (s\<lparr>dseg := newdataseg\<rparr>) in
        if ok then (None, s) else (Some ''relfail'', freeseg ops newdataseg s))"

text \<open>The hooks of the status bar: both handlers are patched before a vector is changed.\<close>

definition install_status :: "'d dos_ops \<Rightarrow> code_map \<Rightarrow> ('l, 'd) loader \<Rightarrow> ('l, 'd) loader" where
  "install_status ops code s =
     (let p28 = get_vect ops 0x28 (dos s); p1c = get_vect ops 0x1C (dos s);
          (ok, s) = patchhandlerds (int28h_at code) ''SD28'' s in
      if \<not> ok then s
      else let (ok, s) = patchhandlerds (int1ch_at code) ''SD1C'' s in
        if \<not> ok then s
        else s\<lparr>glob_data := (glob_data s)\<lparr>prev_int28h := p28, prev_int1ch := p1c\<rparr>,
               dos := set_vect ops 0x1C (int1ch_at code) (set_vect ops 0x28 (int28h_at code) (dos s)),
               stat_enabled := True\<rparr>)"

definition mark_cds :: "fp \<Rightarrow> nat \<Rightarrow> memory \<Rightarrow> memory" where
  "mark_cds cds i m =
     (let m = poke16 m (fadd cds CDS_FLAGS) (CDSFLAG_NET OR CDSFLAG_PHY);
          m = poke8 m cds (0x41 + of_nat i); m = poke8 m (fadd cds 1) 0x3A;
          m = poke8 m (fadd cds 2) 0x5C
      in poke8 m (fadd cds 3) 0)"

primrec mark_drives :: "'d dos_ops \<Rightarrow> nat list \<Rightarrow> ('l, 'd) loader \<Rightarrow> ('l, 'd) loader" where
  "mark_drives ops [] s = s"
| "mark_drives ops (i # is) s =
     mark_drives ops is
       (if ldrv (glob_data s) ! i = 0xFF then s
        else let (cds, s) = getcds ops (of_nat i) s in s\<lparr>mem := mark_cds cds i (mem s)\<rparr>)"

definition install_statics :: "'d dos_ops \<Rightarrow> (u16 \<Rightarrow> u16 \<Rightarrow> 'l \<Rightarrow> 'l) \<Rightarrow> args \<Rightarrow> ('l, 'd) loader \<Rightarrow> ('l, 'd) loader" where
  "install_statics ops uart_init a s =
     (let s = s\<lparr>glob_sdaptr := getsda ops s, glob_data := (glob_data s)\<lparr>indos := indos_ptr ops (dos s)\<rparr>\<rparr>;
          s = s\<lparr>glob_data := (glob_data s)\<lparr>comport := ucast (comport_arg a), baudcode := baudiv a\<rparr>\<rparr>
      in s\<lparr>link := uart_init (ucast (comport_arg a)) (baudiv a) (link s)\<rparr>)"

text \<open>The two kinds of lines of the installation message, in a buffer of 24 bytes.\<close>

definition baud_of :: "u16 \<Rightarrow> u32" where
  "baud_of dv = (if dv = 12 then 9600 else if dv = 6 then 19200 else if dv = 3 then 38400
     else if dv = 2 then 57600 else 115200)"

definition port_line :: "args \<Rightarrow> byte list \<Rightarrow> byte list" where
  "port_line a buff =
     snd (put_str (''baud)'' @ crlf @ ''$'') (put_num (baud_of (baudiv a))
       (put_str '' @ '' (4, (copy_at buff 0 (map of_char ''COM'') 3)[3 := 0x30 + comport_arg a]))))"

definition drive_line :: "nat \<Rightarrow> byte \<Rightarrow> byte list \<Rightarrow> byte list" where
  "drive_line i r buff =
     copy_at buff 0 ([0x20, 0x41 + of_nat i] @ map of_char '': -> ['' @ [0x41 + r] @ map of_char ('':]'' @ crlf @ ''$'')) 14"

primrec print_drives :: "nat list \<Rightarrow> byte list \<Rightarrow> ('l, 'd) loader \<Rightarrow> ('l, 'd) loader" where
  "print_drives [] buff s = s"
| "print_drives (i # is) buff s =
     (if ldrv (glob_data s) ! i = 0xFF then print_drives is buff s
      else let buff = drive_line i (ldrv (glob_data s) ! i) buff in print_drives is buff (outmsg buff s))"

definition install_report :: "args \<Rightarrow> ('l, 'd) loader \<Rightarrow> ('l, 'd) loader" where
  "install_report a s =
     (if argflags a AND ARGFL_QUIET \<noteq> 0 then s
      else let buff = port_line a (replicate 24 0)
        in print_drives [0..<26] buff (outmsg buff (notice ''instlled'' s)))"

text \<open>The last steps: the environment block is freed, INT 2Fh is hooked and the program stays.\<close>

definition go_resident :: "'d dos_ops \<Rightarrow> code_map \<Rightarrow> ('l, 'd) loader \<Rightarrow> ending \<times> ('l, 'd) loader" where
  "go_resident ops code s =
     (let s = s\<lparr>glob_data := (glob_data s)\<lparr>pspseg := psp_seg ops (dos s)\<rparr>\<rparr>;
          s = freeseg ops (peek16 (mem s) (pspseg (glob_data s), 0x2C)) s
      in (StayResident (drop_bit 4 (begtextend code + 256 + 15)),
          restore_vect ops 0x2F (inthandler_at code) s))"

definition main_install ::
  "'d dos_ops \<Rightarrow> code_map \<Rightarrow> (u16 \<Rightarrow> u16 \<Rightarrow> 'l \<Rightarrow> 'l) \<Rightarrow> args \<Rightarrow> ('l, 'd) loader \<Rightarrow> ending \<times> ('l, 'd) loader" where
  "main_install ops code uart_init a s =
     (let (e, s) = install_checks ops s in
      case e of Some f \<Rightarrow> (Exit 1, notice f s)
      | None \<Rightarrow>
          let (e, s) = install_segment ops code s in
          case e of Some f \<Rightarrow> (Exit 1, notice f s)
          | None \<Rightarrow>
              let s = (if argflags a AND ARGFL_STATUS \<noteq> 0 then install_status ops code s else s)
              in go_resident ops code
                   (install_report a (mark_drives ops [0..<26] (install_statics ops uart_init a s))))"

section \<open>\<open>main\<close>\<close>

definition main_prog ::
  "'d dos_ops \<Rightarrow> code_map \<Rightarrow> (u16 \<Rightarrow> u16 \<Rightarrow> 'l \<Rightarrow> 'l) \<Rightarrow> string list \<Rightarrow> ('l, 'd) loader \<Rightarrow> ending \<times> ('l, 'd) loader" where
  "main_prog ops code uart_init argv s =
     (let (rc, a) = parseargv argv args_start; s = s\<lparr>glob_data := (glob_data s)\<lparr>ldrv := drive_map a\<rparr>\<rparr> in
      if rc \<noteq> 0 then (Exit 1, notice ''help'' s)
      else if argflags a AND ARGFL_STATS \<noteq> 0 then main_stats ops s
      else let (al, bl) = true_version ops (dos s); version = (if al = 0xFF then 0 else bl) in
        if version < 5 then (Exit 1, notice ''unsupdos'' s)
        else let (r, d) = int2f ops ((scratch_regs ops (dos s))\<lparr>ax := 0x1100\<rparr>) (dos s); s = s\<lparr>dos := d\<rparr> in
          if ax r = 1 then (Exit 1, notice ''noredir'' s)
          else if argflags a AND ARGFL_UNLOAD \<noteq> 0 then main_unload ops a s
          else main_install ops code uart_init a s)"

end
