(* ===== verification/Sdf_Effects.thy ===== *)
theory Sdf_Effects
  imports Sdf_Install
begin

text \<open>
  What the operations of \<open>Sdf_Install\<close> do to the rest of the machine: what DOS promises, the frame
  of every helper, the stores to the drive table, the phases of an installation, how a resident copy
  is found and what unloading it restores.
\<close>

section \<open>What DOS promises\<close>

text \<open>
  INT 21h AX=25xx sets one vector and AH=35h reads it back; an INT 2Fh query, an allocation, a
  release and the strategy call change no vector; the list of lists does not move.
\<close>

definition vects :: "'d dos_ops \<Rightarrow> 'd \<Rightarrow> byte \<Rightarrow> fp" where
  "vects ops d = (\<lambda>n. get_vect ops n d)"

definition dos_laws :: "'d dos_ops \<Rightarrow> bool" where
  "dos_laws ops \<longleftrightarrow>
     (\<forall>n p d. vects ops (set_vect ops n p d) = (vects ops d)(n := p)) \<and>
     (\<forall>r d. vects ops (snd (int2f ops r d)) = vects ops d) \<and>
     (\<forall>n d. vects ops (snd (alloc_paras ops n d)) = vects ops d) \<and>
     (\<forall>g d. vects ops (free_seg ops g d) = vects ops d) \<and>
     (\<forall>n d. vects ops (set_strategy ops n d) = vects ops d) \<and>
     (\<forall>d d'. list_of_lists ops d = list_of_lists ops d')"

lemma get_vect_eq: "get_vect ops n d = vects ops d n"
  by (simp add: vects_def)

lemma dos_lawsD [simp]:
  assumes "dos_laws ops"
  shows "vects ops (set_vect ops n p d) = (vects ops d)(n := p)"
    "vects ops (free_seg ops g d) = vects ops d" "vects ops (set_strategy ops k d) = vects ops d"
  using assms by (simp_all only: dos_laws_def)

lemma list_of_lists_fixed: "dos_laws ops \<Longrightarrow> list_of_lists ops d = list_of_lists ops d'"
  unfolding dos_laws_def by blast

lemma int2f_vects: "dos_laws ops \<Longrightarrow> int2f ops r d = (r', d') \<Longrightarrow> vects ops d' = vects ops d"
  by (metis dos_laws_def snd_conv)

lemma alloc_vects: "dos_laws ops \<Longrightarrow> alloc_paras ops n d = (g, d') \<Longrightarrow> vects ops d' = vects ops d"
  by (metis dos_laws_def snd_conv)

section \<open>Frames\<close>

text \<open>
  \<open>same ops s s'\<close>: memory, the serial link and every vector are as they were, and so are the drive
  table and the statics of \<open>getcds\<close> once they are set.
\<close>

definition same :: "'d dos_ops \<Rightarrow> ('l, 'd) loader \<Rightarrow> ('l, 'd) loader \<Rightarrow> bool" where
  "same ops s s' \<longleftrightarrow> mem s' = mem s \<and> link s' = link s \<and> vects ops (dos s') = vects ops (dos s)"

lemma same_refl [simp]: "same ops s s"
  by (simp add: same_def)

lemma same_trans: "same ops s s' \<Longrightarrow> same ops s' s'' \<Longrightarrow> same ops s s''"
  by (simp add: same_def)

lemma same_simps [simp]:
  "same ops s (notice f s') = same ops s s'" "same ops s (outmsg b s') = same ops s s'"
  "dos_laws ops \<Longrightarrow> same ops s (freeseg ops g s') = same ops s s'"
  "same ops s (s'\<lparr>glob_data := gd\<rparr>) = same ops s s'" "same ops s (s'\<lparr>glob_multiplexid := i\<rparr>) = same ops s s'"
  "same ops s (s'\<lparr>dseg := g\<rparr>) = same ops s s'" "same ops (s\<lparr>glob_data := gd\<rparr>) s' = same ops s s'"
  by (simp_all add: same_def notice_def outmsg_def freeseg_def)

lemma checkid_vects:
  "dos_laws ops \<Longrightarrow> checkid ops i f r d = (x, d') \<Longrightarrow> vects ops d' = vects ops d"
proof (induction ops i f r d rule: checkid.induct)
  case (1 ops i f r d)
  obtain r1 d1 where c: "int2f ops (r\<lparr>ax := push_bit 8 (ucast i)\<rparr>) d = (r1, d1)" by fastforce
  note v = int2f_vects [OF "1.prems"(1) c]
  show ?case
  proof (cases "reg_al r1 = 0xFF \<and> bx r1 = SDF_MUXBX \<and> cx r1 = SDF_MUXCX \<or> i + 1 = 0")
    case True
    then show ?thesis using "1.prems"(2) v by (subst (asm) checkid.simps) (auto simp: c Let_def split: if_splits)
  next
    case False
    then have "checkid ops (i + 1) (if reg_al r1 = 0 then reg_ah r1 else f) r1 d1 = (x, d')"
      using "1.prems"(2) by (subst (asm) checkid.simps) (auto simp: c Let_def split: if_splits)
    with "1.IH" [OF c [symmetric]] False "1.prems"(1) v show ?thesis by auto
  qed
qed

lemma findfree_same:
  "dos_laws ops \<Longrightarrow> findfreemultiplex ops s = (x, s') \<Longrightarrow> same ops s s'"
  by (auto simp: findfreemultiplex_def same_def split: prod.splits dest: checkid_vects)

lemma query_same: "dos_laws ops \<Longrightarrow> query_shared ops i s = (x, s') \<Longrightarrow> same ops s s'"
  by (auto simp: query_shared_def same_def split: prod.splits dest: int2f_vects)

lemma getcds_same: "getcds ops k s = (p, s') \<Longrightarrow> same ops s s'"
  by (auto simp: getcds_def same_def Let_def split: if_splits)

lemma allocseg_same: "dos_laws ops \<Longrightarrow> allocseg ops n s = (g, s') \<Longrightarrow> same ops s s'"
  by (auto simp: allocseg_def same_def split: prod.splits) (metis alloc_vects dos_lawsD(3))

lemma check_drives_same: "check_drives ops is s = (e, s') \<Longrightarrow> same ops s s'"
proof (induction "is" arbitrary: s)
  case (Cons i "is")
  then show ?case
    by (auto split: if_splits prod.splits intro: same_trans dest: getcds_same)
qed simp

lemma install_checks_same:
  assumes "dos_laws ops" "install_checks ops s = (e, s')"
  shows "same ops s s'"
proof -
  let ?s = "s\<lparr>glob_data := (glob_data s)\<lparr>prev_2f_handler := get_vect ops 0x2F (dos s)\<rparr>\<rparr>"
  obtain f p s1 where f: "findfreemultiplex ops ?s = ((f, p), s1)" by (metis prod.exhaust)
  have "same ops s s1" using findfree_same [OF assms(1) f] by simp
  then show ?thesis
    using assms(2) check_drives_same [of ops "[0..<26]" "s1\<lparr>glob_multiplexid := f\<rparr>" e s']
    by (auto simp: install_checks_def f Let_def same_def split: if_splits simp del: upt_rec_numeral)
qed

lemma install_segment_refused:
  assumes "dos_laws ops" "install_segment ops code s = (Some f, s')"
  shows "same ops s s'"
proof -
  obtain g s1 where a: "allocseg ops DATASEGSZ s = (g, s1)" by fastforce
  then show ?thesis
    using assms allocseg_same [OF assms(1) a]
    by (auto simp: install_segment_def updatetsrds_def patchhandlerds_def split: if_splits option.splits)
qed

lemma main_stats_same:
  assumes "dos_laws ops" "main_stats ops s = (e, s')"
  shows "same ops s s'"
proof -
  obtain i p s1 where f: "findfreemultiplex ops s = ((i, p), s1)" by (metis prod.exhaust)
  obtain t s2 where q: "query_shared ops i s1 = (t, s2)" by fastforce
  show ?thesis
    using assms(2) findfree_same [OF assms(1) f] query_same [OF assms(1) q]
    by (auto simp: main_stats_def f q Let_def split: if_splits intro: same_trans)
qed

lemma main_install_refused:
  assumes "dos_laws ops" "main_install ops code u a s = (Exit c, s')"
  shows "same ops s s' \<and> c = 1"
proof -
  obtain e1 s1 where c: "install_checks ops s = (e1, s1)" by fastforce
  obtain e2 s2 where g: "install_segment ops code s1 = (e2, s2)" by fastforce
  note s1 = install_checks_same [OF assms(1) c]
  show ?thesis
  proof (cases e1)
    case (Some f)
    then show ?thesis using assms(2) s1 by (auto simp: main_install_def c)
  next
    case None
    then obtain f where "e2 = Some f" using assms(2)
      by (auto simp: main_install_def c g go_resident_def Let_def split: option.splits)
    with None show ?thesis
      using assms(2) s1 install_segment_refused [OF assms(1) g [unfolded \<open>e2 = Some f\<close>]]
      by (auto simp: main_install_def c g intro: same_trans)
  qed
qed

section \<open>Stores to several apart regions\<close>

lemma fold_outside:
  assumes "\<And>i m. i \<in> set is \<Longrightarrow> same_outside [(c i, n)] m (f i m)" "set is \<subseteq> J"
  shows "(\<And>j. j \<in> J \<Longrightarrow> a < lin (c j) \<or> lin (c j) + n \<le> a) \<Longrightarrow> fold f is m a = m a"
  using assms
proof (induction "is" arbitrary: m)
  case (Cons i "is")
  have "f i m a = m a"
    using Cons.prems by (intro same_outsideD [OF Cons.prems(2) [of i]]) auto
  with Cons show ?case by simp
qed simp

lemma fold_regions:
  assumes "\<And>i m. i \<in> set is \<Longrightarrow> same_outside [(c i, n)] m (f i m)"
    and "\<And>i m. i \<in> set is \<Longrightarrow> P i (f i m)"
    and "\<And>i m m'. i \<in> set is \<Longrightarrow> (\<And>a. lin (c i) \<le> a \<Longrightarrow> a < lin (c i) + n \<Longrightarrow> m' a = m a) \<Longrightarrow> P i m \<Longrightarrow> P i m'"
    and "\<And>i j. i \<in> set is \<Longrightarrow> j \<in> set is \<Longrightarrow> i \<noteq> j \<Longrightarrow> apart (c i) n (c j) n" "distinct is" "i \<in> set is"
  shows "P i (fold f is m)"
  using assms
proof (induction "is" arbitrary: m)
  case (Cons k "is")
  note touch = Cons.prems(1) and est = Cons.prems(2) and local = Cons.prems(3) and apart = Cons.prems(4)
  show ?case
  proof (cases "i = k")
    case True
    have k: "k \<notin> set is" "k \<in> set (k # is)" using Cons.prems(5) by auto
    have "fold f is (f k m) a = f k m a" if "lin (c k) \<le> a" "a < lin (c k) + n" for a
    proof (rule fold_outside [where c = c and n = n and J = "set is"])
      fix j assume "j \<in> set is"
      with k(1) have "apart (c k) n (c j) n" by (intro apart) auto
      then show "a < lin (c j) \<or> lin (c j) + n \<le> a" using that by (auto simp: apart_def)
    qed (use touch in auto)
    from local [OF k(2) this est [OF k(2)]] True show ?thesis by simp
  next
    case False
    then have i: "i \<in> set is" using Cons.prems(6) by simp
    have "P i (fold f is (f k m))"
    proof (rule Cons.IH)
      fix i' j' assume "i' \<in> set is" "j' \<in> set is" "i' \<noteq> j'"
      then show "apart (c i') n (c j') n" by (intro apart) auto
    next
      fix i' m1 m2
      assume "i' \<in> set is" "\<And>a. lin (c i') \<le> a \<Longrightarrow> a < lin (c i') + n \<Longrightarrow> m2 a = m1 a" "P i' m1"
      then show "P i' m2" by (intro local [of i' m2 m1]) auto
    qed (use touch est Cons.prems(5) i in auto)
    then show ?thesis by simp
  qed
qed simp

section \<open>The drive table of DOS\<close>

definition cds_at :: "('l, 'd) loader \<Rightarrow> nat \<Rightarrow> fp" where
  "cds_at s i = fadd (cds_dir s) (of_nat i * 0x58)"

text \<open>The statics of \<open>getcds\<close> are set and drive \<open>i\<close> is within the table.\<close>

definition cds_known :: "('l, 'd) loader \<Rightarrow> nat \<Rightarrow> bool" where
  "cds_known s i \<longleftrightarrow> cds_ok s = 1 \<and> of_nat i \<le> (ucast (cds_lastdrv s) :: u16)"

lemma getcds_known: "cds_known s i \<Longrightarrow> getcds ops (of_nat i) s = (cds_at s i, s)"
  by (auto simp: getcds_def cds_known_def cds_at_def not_less)

lemma getcds_statics:
  assumes "getcds ops k s = (p, s')"
  shows "s' = s\<lparr>cds_ok := cds_ok s', cds_dir := cds_dir s', cds_lastdrv := cds_lastdrv s'\<rparr>"
    "cds_ok s \<noteq> -1 \<Longrightarrow> s' = s" "cds_ok s \<in> {-1, 0, 1} \<Longrightarrow> cds_ok s' \<in> {0, 1}"
    "p \<noteq> NULL \<Longrightarrow> cds_ok s \<in> {-1, 0, 1} \<Longrightarrow> k = of_nat i \<Longrightarrow> cds_known s' i \<and> p = cds_at s' i"
  using assms by (auto simp: getcds_def Let_def cds_known_def cds_at_def split: if_splits)

lemma lin_cds_at:
  assumes "fits (cds_dir s) (26 * 88)" "i < 26"
  shows "lin (cds_at s i) = lin (cds_dir s) + 88 * i" "fits (cds_at s i) 88"
proof -
  have u: "unat (of_nat i * 0x58 :: u16) = 88 * i"
    using assms(2) by (simp add: unat_word_ariths unat_of_nat)
  show "lin (cds_at s i) = lin (cds_dir s) + 88 * i"
    using assms lin_fadd [OF assms(1), of "of_nat i * 0x58"] by (simp add: cds_at_def u)
  show "fits (cds_at s i) 88"
    using assms fits_fadd [OF assms(1), of "of_nat i * 0x58" 88] by (simp add: cds_at_def u)
qed

lemma cds_apart:
  assumes "fits (cds_dir s) (26 * 88)" "i < 26" "j < 26" "i \<noteq> j"
  shows "apart (cds_at s i) 88 (cds_at s j) 88"
  using assms by (cases "i < j") (simp_all add: apart_def lin_cds_at)

text \<open>A word of the structure at \<open>c\<close> depends on the 88 bytes only.\<close>

lemma peek8_local:
  assumes "fits c 88" "unat k < 88" "\<And>a. lin c \<le> a \<Longrightarrow> a < lin c + 88 \<Longrightarrow> m' a = m a"
  shows "peek8 m' (fadd c k) = peek8 m (fadd c k)"
  using assms(2,3) lin_fadd [OF assms(1,2)] by (simp add: peek8_def)

lemma flags_local:
  assumes "fits c 88" "\<And>a. lin c \<le> a \<Longrightarrow> a < lin c + 88 \<Longrightarrow> m' a = m a"
  shows "peek16 m' (fadd c CDS_FLAGS) = peek16 m (fadd c CDS_FLAGS)"
  using peek8_local [OF assms(1) _ assms(2), of CDS_FLAGS] peek8_local [OF assms(1) _ assms(2), of 68]
  by (simp add: peek16_def)

lemma flags_store: "fits c 88 \<Longrightarrow> same_outside [(c, 88)] m (poke16 m (fadd c CDS_FLAGS) w)"
  unfolding poke16_def
  by (rule same_outside_poke [OF same_outside_refl]) (auto simp: le16_def lin_fadd fits_fadd)

lemma flags_read: "fits c 88 \<Longrightarrow> peek16 (poke16 m (fadd c CDS_FLAGS) w) (fadd c CDS_FLAGS) = w"
  by (rule peek16_poke16) (simp add: fits_fadd [of c 88])

lemma check_drives_stable: "check_drives ops is s = (e, s') \<Longrightarrow> cds_ok s \<noteq> -1 \<Longrightarrow> s' = s"
proof (induction "is" arbitrary: s)
  case (Cons i "is")
  then show ?case by (auto split: if_splits prod.splits dest: getcds_statics(2))
qed simp

lemma check_drives_ok:
  "check_drives ops is s = (None, s') \<Longrightarrow> cds_ok s \<in> {-1, 0, 1} \<Longrightarrow>
   s' = s\<lparr>cds_ok := cds_ok s', cds_dir := cds_dir s', cds_lastdrv := cds_lastdrv s'\<rparr> \<and>
   (\<forall>i \<in> set is. ldrv (glob_data s) ! i \<noteq> 0xFF \<longrightarrow>
      cds_known s' i \<and> peek16 (mem s) (fadd (cds_at s' i) CDS_FLAGS) = 0)"
proof (induction "is" arbitrary: s)
  case (Cons i "is")
  show ?case
  proof (cases "ldrv (glob_data s) ! i = 0xFF")
    case True
    with Cons show ?thesis by simp
  next
    case False
    obtain p s1 where g: "getcds ops (of_nat i) s = (p, s1)" by fastforce
    have r: "p \<noteq> NULL" "peek16 (mem s1) (fadd p CDS_FLAGS) = 0" "check_drives ops is s1 = (None, s')"
      using Cons.prems(1) False by (auto simp: g split: if_splits)
    note st = getcds_statics [OF g]
    have ok: "cds_ok s1 \<in> {0, 1}" using st(3) Cons.prems(2) by blast
    then have s': "s' = s1" using check_drives_stable [OF r(3)] by auto
    have k: "cds_known s1 i" "p = cds_at s1 i" using st(4) [OF r(1) Cons.prems(2) refl] by auto
    have m: "mem s1 = mem s" "glob_data s1 = glob_data s" by (subst st(1), simp)+
    show ?thesis
      using Cons.IH [OF r(3)] ok k st(1) m r(2) by (auto simp: s')
  qed
qed simp

lemma cds_at_upd [simp]:
  "cds_at (s\<lparr>mem := m\<rparr>) i = cds_at s i" "cds_known (s\<lparr>mem := m\<rparr>) i = cds_known s i"
  by (simp_all add: cds_at_def cds_known_def)

lemma mark_drives_eq:
  "(\<forall>i \<in> set is. ldrv (glob_data s) ! i \<noteq> 0xFF \<longrightarrow> cds_known s i) \<Longrightarrow>
   mark_drives ops is s =
     s\<lparr>mem := fold (\<lambda>i m. if ldrv (glob_data s) ! i = 0xFF then m else mark_cds (cds_at s i) i m) is (mem s)\<rparr>"
proof (induction "is" arbitrary: s)
  case (Cons i "is")
  show ?case
  proof (cases "ldrv (glob_data s) ! i = 0xFF")
    case False
    then have k: "cds_known s i" using Cons.prems by simp
    let ?s = "s\<lparr>mem := mark_cds (cds_at s i) i (mem s)\<rparr>"
    have "\<forall>i \<in> set is. ldrv (glob_data ?s) ! i \<noteq> 0xFF \<longrightarrow> cds_known ?s i"
      using Cons.prems by (simp add: cds_known_def)
    from Cons.IH [OF this] show ?thesis by (simp add: False getcds_known [OF k] cong: if_cong)
  qed (use Cons in simp)
qed simp

lemma mark_cds_store: "fits c 88 \<Longrightarrow> same_outside [(c, 88)] m (mark_cds c i m)"
  unfolding mark_cds_def Let_def poke8_eq
  by (intro same_outside_poke; (rule flags_store)?) (auto simp: lin_fadd fits_fadd fits_mono)

definition marked :: "nat \<Rightarrow> fp \<Rightarrow> memory \<Rightarrow> bool" where
  "marked i c m \<longleftrightarrow> peek16 m (fadd c CDS_FLAGS) = 0xC000 \<and>
     map (peek8 m) [c, fadd c 1, fadd c 2, fadd c 3] = [0x41 + of_nat i, 0x3A, 0x5C, 0]"

lemma marked_local:
  assumes "fits c 88" "\<And>a. lin c \<le> a \<Longrightarrow> a < lin c + 88 \<Longrightarrow> m' a = m a" "marked i c m"
  shows "marked i c m'"
  using assms(3) flags_local [OF assms(1,2)] peek8_local [OF assms(1) _ assms(2), of 0]
    peek8_local [OF assms(1) _ assms(2), of 1] peek8_local [OF assms(1) _ assms(2), of 2]
    peek8_local [OF assms(1) _ assms(2), of 3]
  by (simp add: marked_def)

lemma mark_cds_marked:
  assumes "fits c 88"
  shows "marked i c (mark_cds c i m)"
proof -
  let ?m = "poke16 m (fadd c CDS_FLAGS) (CDSFLAG_NET OR CDSFLAG_PHY)"
  have l: "lin (fadd c 1) = lin c + 1" "lin (fadd c 2) = lin c + 2" "lin (fadd c 3) = lin c + 3"
    "lin (fadd c 67) = lin c + 67" "lin (fadd c 68) = lin c + 68"
    using lin_fadd [OF assms] by simp_all
  have "peek16 (mark_cds c i m) (fadd c CDS_FLAGS) = peek16 ?m (fadd c CDS_FLAGS)"
    by (simp add: mark_cds_def Let_def peek16_def peek8_def poke8_def l)
  then show ?thesis
    using flags_read [OF assms, of m "CDSFLAG_NET OR CDSFLAG_PHY"]
    by (simp add: marked_def mark_cds_def Let_def peek8_def poke8_def l)
qed

text \<open>All drives of a list are marked when the table fits its segment.\<close>

lemma mark_drives_marked:
  assumes "\<forall>i \<in> set is. ldrv (glob_data s) ! i \<noteq> 0xFF \<longrightarrow> cds_known s i" "fits (cds_dir s) (26 * 88)"
    and "distinct is" "\<forall>i \<in> set is. i < 26" "i \<in> set is" "ldrv (glob_data s) ! i \<noteq> 0xFF"
  shows "marked i (cds_at s i) (mem (mark_drives ops is s))"
proof -
  let ?f = "\<lambda>i m. if ldrv (glob_data s) ! i = 0xFF then m else mark_cds (cds_at s i) i m"
  let ?P = "\<lambda>i m. ldrv (glob_data s) ! i = 0xFF \<or> marked i (cds_at s i) m"
  have fits: "fits (cds_at s j) 88" if "j \<in> set is" for j
    using lin_cds_at(2) [OF assms(2)] assms(4) that by blast
  have "?P i (fold ?f is (mem s))"
  proof (rule fold_regions [where c = "cds_at s" and n = 88])
    fix i j assume "i \<in> set is" "j \<in> set is" "i \<noteq> j"
    then show "apart (cds_at s i) 88 (cds_at s j) 88" using cds_apart [OF assms(2)] assms(4) by blast
  next
    fix i m m'
    assume "i \<in> set is" "\<And>a. lin (cds_at s i) \<le> a \<Longrightarrow> a < lin (cds_at s i) + 88 \<Longrightarrow> m' a = m a" "?P i m"
    then show "?P i m'" using marked_local [OF fits] by blast
  qed (use assms(3,5) in \<open>auto intro: mark_cds_store mark_cds_marked fits\<close>)
  then show ?thesis using assms(6) by (simp add: mark_drives_eq [OF assms(1)])
qed

lemma same_outside_mono: "same_outside rs m m' \<Longrightarrow> set rs \<subseteq> set rs' \<Longrightarrow> same_outside rs' m m'"
  unfolding same_outside_def by blast

lemma mark_drives_outside:
  assumes "\<forall>i \<in> set is. ldrv (glob_data s) ! i \<noteq> 0xFF \<longrightarrow> cds_known s i" "fits (cds_dir s) (26 * 88)"
    and "\<forall>i \<in> set is. i < 26"
  shows "same_outside [(cds_dir s, 26 * 88)] (mem s) (mem (mark_drives ops is s))"
proof -
  have "fold (\<lambda>i m. if ldrv (glob_data s) ! i = 0xFF then m else mark_cds (cds_at s i) i m) is (mem s) a = mem s a"
    if a: "a < lin (cds_dir s) \<or> lin (cds_dir s) + 26 * 88 \<le> a" for a
  proof (rule fold_outside [where c = "cds_at s" and n = 88 and J = "{..<26}"])
    fix j :: nat assume "j \<in> {..<26}"
    then show "a < lin (cds_at s j) \<or> lin (cds_at s j) + 88 \<le> a"
      using a lin_cds_at(1) [OF assms(2), of j] by auto
  next
    fix i m assume "i \<in> set is"
    then show "same_outside [(cds_at s i, 88)] m (if ldrv (glob_data s) ! i = 0xFF then m else mark_cds (cds_at s i) i m)"
      using mark_cds_store lin_cds_at(2) [OF assms(2)] assms(3) by auto
  qed (use assms(3) in auto)
  then show ?thesis by (simp add: mark_drives_eq [OF assms(1)] same_outside_def not_le not_less)
qed

section \<open>The phases of an installation\<close>

lemma sig_scan_le: "sig_scan m h sg i = Some j \<Longrightarrow> j \<le> 28"
  by (induction m h sg i rule: sig_scan.induct) (subst (asm) (2) sig_scan.simps, auto split: if_splits)

lemma patch_frame:
  assumes "patchhandlerds h sg s = (ok, s')"
  shows "s' = s\<lparr>mem := mem s'\<rparr>" "\<not> ok \<Longrightarrow> s' = s" "fits h 36 \<Longrightarrow> same_outside [(h, 36)] (mem s) (mem s')"
proof -
  show "s' = s\<lparr>mem := mem s'\<rparr>" "\<not> ok \<Longrightarrow> s' = s"
    using assms by (auto simp: patchhandlerds_def split: option.splits)
  show "same_outside [(h, 36)] (mem s) (mem s')" if f: "fits h 36"
  proof (cases "sig_scan (mem s) h (map of_char sg) 0")
    case (Some i)
    then have u: "unat (of_nat i + 6 :: u16) = i + 6"
      using sig_scan_le [OF Some] by (simp add: unat_word_ariths unat_of_nat)
    have "fits (fadd h (of_nat i + 6)) 2" "lin (fadd h (of_nat i + 6)) = lin h + i + 6"
      using f sig_scan_le [OF Some] fits_fadd [OF f, of "of_nat i + 6" 2] lin_fadd [OF f, of "of_nat i + 6"]
      by (simp_all add: u)
    then have "same_outside [(h, 36)] (mem s) (poke16 (mem s) (fadd h (of_nat i + 6)) (dseg s))"
      using sig_scan_le [OF Some] unfolding poke16_def
      by (intro same_outside_poke [OF same_outside_refl]) (auto simp: le16_def numeral_2_eq_2)
    then show ?thesis using assms Some by (auto simp: patchhandlerds_def)
  qed (use assms in \<open>auto simp: patchhandlerds_def\<close>)
qed

lemma install_checks_ok:
  assumes "install_checks ops s = (None, s')" "cds_ok s = -1"
  shows "glob_data s' = (glob_data s)\<lparr>prev_2f_handler := get_vect ops 0x2F (dos s)\<rparr>"
    "stat_enabled s' = stat_enabled s" "glob_multiplexid s' \<noteq> 0"
    "\<forall>i \<in> set [0..<26]. ldrv (glob_data s) ! i \<noteq> 0xFF \<longrightarrow>
       cds_known s' i \<and> peek16 (mem s) (fadd (cds_at s' i) CDS_FLAGS) = 0"
proof -
  let ?s = "s\<lparr>glob_data := (glob_data s)\<lparr>prev_2f_handler := get_vect ops 0x2F (dos s)\<rparr>\<rparr>"
  obtain f p d where f: "findfreemultiplex ops ?s = ((f, p), ?s\<lparr>dos := d\<rparr>)"
    by (cases "checkid ops 0xC0 0 (scratch_regs ops (dos ?s)) (dos ?s)") (auto simp: findfreemultiplex_def)
  let ?t = "?s\<lparr>dos := d, glob_multiplexid := f\<rparr>"
  have c: "check_drives ops [0..<26] ?t = (None, s')" and nz: "f \<noteq> 0"
    using assms(1) by (auto simp: install_checks_def f Let_def simp del: upt_rec_numeral split: if_splits)
  note ok = check_drives_ok [OF c]
  have s': "s' = ?t\<lparr>cds_ok := cds_ok s', cds_dir := cds_dir s', cds_lastdrv := cds_lastdrv s'\<rparr>"
    using ok assms(2) by simp
  show "glob_data s' = (glob_data s)\<lparr>prev_2f_handler := get_vect ops 0x2F (dos s)\<rparr>"
    "stat_enabled s' = stat_enabled s" "glob_multiplexid s' \<noteq> 0"
    using nz by (subst s', simp)+
  show "\<forall>i \<in> set [0..<26]. ldrv (glob_data s) ! i \<noteq> 0xFF \<longrightarrow>
       cds_known s' i \<and> peek16 (mem s) (fadd (cds_at s' i) CDS_FLAGS) = 0"
    using ok assms(2) by simp
qed

lemma install_segment_ok:
  assumes "dos_laws ops" "install_segment ops code s = (None, s')" "fits (inthandler_at code) 36"
  shows "s' = s\<lparr>dos := dos s', dseg := dseg s', mem := mem s'\<rparr>" "vects ops (dos s') = vects ops (dos s)"
    "same_outside [(inthandler_at code, 36)] (mem s) (mem s')"
proof -
  obtain g d where a: "allocseg ops DATASEGSZ s = (g, s\<lparr>dos := d\<rparr>)"
    by (cases "alloc_paras ops (drop_bit 4 (DATASEGSZ + 15)) (set_strategy ops 2 (dos s))") (simp add: allocseg_def)
  let ?s = "s\<lparr>dos := d, dseg := g\<rparr>"
  have u: "patchhandlerds (inthandler_at code) ''SDFS'' ?s = (True, s')"
    using assms(2) by (auto simp: install_segment_def updatetsrds_def a Let_def split: if_splits prod.splits)
  have s': "s' = ?s\<lparr>mem := mem s'\<rparr>" using patch_frame(1) [OF u] .
  show "s' = s\<lparr>dos := dos s', dseg := dseg s', mem := mem s'\<rparr>" by (subst (1) s', subst (2 3) s') simp
  show "vects ops (dos s') = vects ops (dos s)"
    using allocseg_same [OF assms(1) a] by (subst s') (simp add: same_def)
  show "same_outside [(inthandler_at code, 36)] (mem s) (mem s')"
    using patch_frame(3) [OF u assms(3)] by simp
qed

lemma install_status_frame:
  assumes "install_status ops code s = s'" "dos_laws ops" "fits (int28h_at code) 36" "fits (int1ch_at code) 36"
  shows "same_outside [(int28h_at code, 36), (int1ch_at code, 36)] (mem s) (mem s')"
    "stat_enabled s' = stat_enabled s \<and> glob_data s' = glob_data s \<and> vects ops (dos s') = vects ops (dos s) \<or>
     stat_enabled s' \<and>
     glob_data s' = (glob_data s)\<lparr>prev_int28h := get_vect ops 0x28 (dos s), prev_int1ch := get_vect ops 0x1C (dos s)\<rparr> \<and>
     vects ops (dos s') = (vects ops (dos s))(0x28 := int28h_at code, 0x1C := int1ch_at code)"
    "link s' = link s" "cds_dir s' = cds_dir s" "cds_known s' = cds_known s"
proof -
  obtain ok1 s1 where p1: "patchhandlerds (int28h_at code) ''SD28'' s = (ok1, s1)" by fastforce
  obtain m1 where s1: "s1 = s\<lparr>mem := m1\<rparr>" using patch_frame(1) [OF p1] by blast
  obtain ok2 s2 where p2: "patchhandlerds (int1ch_at code) ''SD1C'' s1 = (ok2, s2)" by fastforce
  obtain m2 where s2: "s2 = s1\<lparr>mem := m2\<rparr>" using patch_frame(1) [OF p2] by blast
  have m: "same_outside [(int28h_at code, 36)] (mem s) m1" "same_outside [(int1ch_at code, 36)] m1 m2"
    using patch_frame(3) [OF p1 assms(3)] patch_frame(3) [OF p2 assms(4)] by (simp_all add: s1 s2)
  have s': "s' = (if \<not> ok1 then s1 else if \<not> ok2 then s2
      else s2\<lparr>glob_data := (glob_data s)\<lparr>prev_int28h := get_vect ops 0x28 (dos s), prev_int1ch := get_vect ops 0x1C (dos s)\<rparr>,
              dos := set_vect ops 0x1C (int1ch_at code) (set_vect ops 0x28 (int28h_at code) (dos s)), stat_enabled := True\<rparr>)"
    using assms(1) p2 by (auto simp: install_status_def p1 Let_def s1 s2)
  have "same_outside [(int28h_at code, 36), (int1ch_at code, 36)] (mem s) m1"
    using same_outside_mono [OF m(1)] by simp
  moreover have "same_outside [(int28h_at code, 36), (int1ch_at code, 36)] m1 m2"
    using same_outside_mono [OF m(2)] by simp
  ultimately show "same_outside [(int28h_at code, 36), (int1ch_at code, 36)] (mem s) (mem s')"
    using same_outside_trans by (auto simp: s' s1 s2)
  show "link s' = link s" "cds_dir s' = cds_dir s" "cds_known s' = cds_known s"
    by (simp_all add: s' s1 s2 cds_known_def fun_eq_iff)
  show "stat_enabled s' = stat_enabled s \<and> glob_data s' = glob_data s \<and> vects ops (dos s') = vects ops (dos s) \<or>
     stat_enabled s' \<and>
     glob_data s' = (glob_data s)\<lparr>prev_int28h := get_vect ops 0x28 (dos s), prev_int1ch := get_vect ops 0x1C (dos s)\<rparr> \<and>
     vects ops (dos s') = (vects ops (dos s))(0x28 := int28h_at code, 0x1C := int1ch_at code)"
    using assms(2) by (simp add: s' s1 s2)
qed

lemma print_drives_frame: "\<exists>c. print_drives is b s = s\<lparr>console := c\<rparr>"
proof (induction "is" arbitrary: b s)
  case Nil
  show ?case by (rule exI [of _ "console s"]) simp
next
  case (Cons i "is")
  show ?case
  proof (cases "ldrv (glob_data s) ! i = 0xFF")
    case False
    obtain c where "print_drives is (drive_line i (ldrv (glob_data s) ! i) b)
        (outmsg (drive_line i (ldrv (glob_data s) ! i) b) s) = outmsg (drive_line i (ldrv (glob_data s) ! i) b) s\<lparr>console := c\<rparr>"
      using Cons.IH by blast
    then show ?thesis using False by (auto simp: Let_def outmsg_def)
  qed (use Cons in simp)
qed

lemma install_report_frame: "\<exists>c. install_report a s = s\<lparr>console := c\<rparr>"
proof -
  obtain c where "print_drives [0..<26] (port_line a (replicate 24 0)) (outmsg (port_line a (replicate 24 0)) (notice ''instlled'' s)) =
      outmsg (port_line a (replicate 24 0)) (notice ''instlled'' s)\<lparr>console := c\<rparr>"
    using print_drives_frame by blast
  then have "install_report a s = s\<lparr>console := if argflags a AND ARGFL_QUIET \<noteq> 0 then console s else c\<rparr>"
    by (simp add: install_report_def outmsg_def notice_def Let_def del: upt_rec_numeral)
  then show ?thesis by blast
qed

lemma main_install_phases:
  assumes "main_install ops code u a s = (StayResident n, s')"
  obtains s1 s2 where "install_checks ops s = (None, s1)" "install_segment ops code s1 = (None, s2)"
    "(StayResident n, s') = go_resident ops code (install_report a (mark_drives ops [0..<26]
       (install_statics ops u a (if argflags a AND ARGFL_STATUS \<noteq> 0 then install_status ops code s2 else s2))))"
proof -
  obtain e1 s1 where c: "install_checks ops s = (e1, s1)" by fastforce
  obtain e2 s2 where g: "install_segment ops code s1 = (e2, s2)" by fastforce
  have "e1 = None" using assms by (cases e1) (auto simp: main_install_def c)
  moreover have "e2 = None" using assms \<open>e1 = None\<close> by (cases e2) (auto simp: main_install_def c g)
  ultimately show thesis using that [of s1 s2] c g assms by (simp add: main_install_def Let_def)
qed

text \<open>The layout the theorem asks for: the table of drives and the three handlers do not overlap.\<close>

definition code_apart :: "code_map \<Rightarrow> fp \<Rightarrow> bool" where
  "code_apart code dir \<longleftrightarrow> fits dir (26 * 88) \<and> fits (inthandler_at code) 36 \<and> fits (int28h_at code) 36 \<and> fits (int1ch_at code) 36"

definition resident_regions :: "code_map \<Rightarrow> fp \<Rightarrow> (fp \<times> nat) list" where
  "resident_regions code dir = [(dir, 26 * 88), (inthandler_at code, 36), (int28h_at code, 36), (int1ch_at code, 36)]"

lemma install_effect:
  assumes "dos_laws ops" "main_install ops code u a s = (StayResident n, s')" "cds_ok s = -1"
    and "\<not> stat_enabled s" "code_apart code (cds_dir s')"
  shows "get_vect ops 0x2F (dos s') = inthandler_at code" (is ?v)
    and "prev_2f_handler (glob_data s') = get_vect ops 0x2F (dos s)" (is ?p)
    and "vects ops (dos s') = (if stat_enabled s'
           then (vects ops (dos s))(0x28 := int28h_at code, 0x1C := int1ch_at code, 0x2F := inthandler_at code)
           else (vects ops (dos s))(0x2F := inthandler_at code))" (is ?vs)
    and "(prev_int28h (glob_data s'), prev_int1ch (glob_data s')) =
      (if stat_enabled s' then (get_vect ops 0x28 (dos s), get_vect ops 0x1C (dos s))
       else (prev_int28h (glob_data s), prev_int1ch (glob_data s)))" (is ?h)
    and "ldrv (glob_data s') = ldrv (glob_data s) \<and> comport (glob_data s') = ucast (comport_arg a) \<and>
      baudcode (glob_data s') = baudiv a \<and> link s' = u (ucast (comport_arg a)) (baudiv a) (link s)" (is ?d)
    and "\<forall>i < 26. ldrv (glob_data s) ! i \<noteq> 0xFF \<longrightarrow>
      peek16 (mem s) (fadd (cds_at s' i) CDS_FLAGS) = 0 \<and> marked i (cds_at s' i) (mem s')" (is ?m)
    and "same_outside (resident_regions code (cds_dir s')) (mem s) (mem s')" (is ?o)
proof -
  let ?r = "resident_regions code (cds_dir s')"
  obtain s1 s2 where c: "install_checks ops s = (None, s1)" and g: "install_segment ops code s1 = (None, s2)"
    and f: "(StayResident n, s') = go_resident ops code (install_report a (mark_drives ops [0..<26]
       (install_statics ops u a (if argflags a AND ARGFL_STATUS \<noteq> 0 then install_status ops code s2 else s2))))"
    using main_install_phases [OF assms(2)] by blast
  define s3 where "s3 = (if argflags a AND ARGFL_STATUS \<noteq> 0 then install_status ops code s2 else s2)"
  define s4 where "s4 = install_statics ops u a s3"
  have fits: "fits (inthandler_at code) 36" "fits (int28h_at code) 36" "fits (int1ch_at code) 36" "fits (cds_dir s') (26 * 88)"
    using assms(5) by (auto simp: code_apart_def)
  note sg = install_segment_ok [OF assms(1) g fits(1)]
  have st: "same_outside [(int28h_at code, 36), (int1ch_at code, 36)] (mem s2) (mem s3)"
    "stat_enabled s3 = stat_enabled s2 \<and> glob_data s3 = glob_data s2 \<and> vects ops (dos s3) = vects ops (dos s2) \<or>
     stat_enabled s3 \<and>
     glob_data s3 = (glob_data s2)\<lparr>prev_int28h := get_vect ops 0x28 (dos s2), prev_int1ch := get_vect ops 0x1C (dos s2)\<rparr> \<and>
     vects ops (dos s3) = (vects ops (dos s2))(0x28 := int28h_at code, 0x1C := int1ch_at code)"
    "link s3 = link s2" "cds_dir s3 = cds_dir s2" "cds_known s3 = cds_known s2"
    using install_status_frame [OF refl assms(1) fits(2,3), of s2] by (auto simp: s3_def)
  note ck = install_checks_ok [OF c assms(3)] and cs = install_checks_same [OF assms(1) c]
  have s2: "glob_data s2 = glob_data s1" "stat_enabled s2 = stat_enabled s1" "link s2 = link s1" "cds_dir s2 = cds_dir s1"
    "cds_known s2 = cds_known s1"
    by (subst sg(1), simp add: cds_known_def fun_eq_iff)+
  have s4: "mem s4 = mem s3" "dos s4 = dos s3" "stat_enabled s4 = stat_enabled s3" "cds_dir s4 = cds_dir s3" "cds_known s4 = cds_known s3"
    "link s4 = u (ucast (comport_arg a)) (baudiv a) (link s3)"
    "glob_data s4 = (glob_data s3)\<lparr>indos := indos_ptr ops (dos s3), comport := ucast (comport_arg a), baudcode := baudiv a\<rparr>"
    by (simp_all add: s4_def install_statics_def cds_known_def fun_eq_iff)
  have ldrv: "ldrv (glob_data s4) = ldrv (glob_data s)" using st(2) by (auto simp: s4(7) s2(1) ck(1))
  have known: "\<forall>i \<in> set [0..<26]. ldrv (glob_data s4) ! i \<noteq> 0xFF \<longrightarrow> cds_known s4 i"
    using ck(4) by (simp only: ldrv s4(5) st(5) s2(5)) blast
  obtain m where mark: "mark_drives ops [0..<26] s4 = s4\<lparr>mem := m\<rparr>"
    using mark_drives_eq [OF known] by blast
  obtain k where k: "install_report a (s4\<lparr>mem := m\<rparr>) = s4\<lparr>mem := m, console := k\<rparr>"
    using install_report_frame by blast
  have m_def: "m = mem (mark_drives ops [0..<26] s4)" by (simp add: mark del: upt_rec_numeral)
  have s': "mem s' = m" "stat_enabled s' = stat_enabled s4" "cds_dir s' = cds_dir s4" "link s' = link s4"
    "\<exists>q. glob_data s' = (glob_data s4)\<lparr>pspseg := q\<rparr>"
    "vects ops (dos s') = (vects ops (dos s4))(0x2F := inthandler_at code)"
    using f assms(1) by (auto simp del: upt_rec_numeral simp: s3_def [symmetric] s4_def [symmetric] k mark go_resident_def Let_def restore_vect_def freeseg_def)
  have v: "vects ops (dos s2) = vects ops (dos s)" using sg(2) cs by (simp add: same_def)
  have off: "\<not> stat_enabled s2" using assms(4) by (simp add: s2(2) ck(2))
  show ?v by (simp add: get_vect_eq s'(6))
  show ?p using s'(5) st(2) by (auto simp: s4(7) s2(1) ck(1))
  show ?vs using st(2) v off by (auto simp: s'(2,6) s4(2,3))
  show ?h using s'(5) st(2) v off by (auto simp: s'(2) s4(3,7) s2(1) ck(1) get_vect_eq)
  show ?d using s'(5) ldrv cs by (auto simp: s'(4) s4(6,7) st(3) s2(3) same_def)
  have dir: "cds_dir s4 = cds_dir s'" by (simp add: s'(3))
  have at: "cds_at s' i = cds_at s4 i" "cds_at s4 i = cds_at s1 i" for i
    by (simp_all add: cds_at_def s'(3) s4(4) st(4) s2(4))
  show ?m
  proof (intro allI impI conjI)
    fix i :: nat assume i: "i < 26" "ldrv (glob_data s) ! i \<noteq> 0xFF"
    then have mem: "i \<in> set [0..<26]" by (simp del: upt_rec_numeral)
    show "peek16 (mem s) (fadd (cds_at s' i) CDS_FLAGS) = 0" using ck(4) mem i(2) by (simp only: at) blast
    show "marked i (cds_at s' i) (mem s')"
      using mark_drives_marked [OF known fits(4) [folded dir] _ _ mem] i(2)
      by (simp add: at(1) s'(1) m_def ldrv del: upt_rec_numeral)
  qed
  have "same_outside [(cds_dir s4, 26 * 88)] (mem s4) m"
    unfolding m_def by (rule mark_drives_outside [OF known fits(4) [folded dir]]) (simp del: upt_rec_numeral)
  then have "same_outside ?r (mem s4) m" by (rule same_outside_mono) (simp add: resident_regions_def dir)
  moreover have "same_outside ?r (mem s2) (mem s3)"
    using st(1) by (rule same_outside_mono) (simp add: resident_regions_def)
  moreover have "same_outside ?r (mem s1) (mem s2)"
    using sg(3) by (rule same_outside_mono) (simp add: resident_regions_def)
  moreover have "mem s1 = mem s" using cs by (simp add: same_def)
  ultimately show ?o using same_outside_trans by (metis s'(1) s4(1))
qed

section \<open>What an installation takes and what it leaves\<close>

text \<open>
  The layout in which an installation can be described handler by handler: the linker has put the
  three handlers at different places, and none lies in the drive table of DOS.
\<close>

definition handlers_apart :: "code_map \<Rightarrow> fp \<Rightarrow> bool" where
  "handlers_apart code dir \<longleftrightarrow>
     apart (int28h_at code) 36 (inthandler_at code) 36 \<and> apart (int1ch_at code) 36 (inthandler_at code) 36 \<and>
     apart (int1ch_at code) 36 (int28h_at code) 36 \<and> apart dir (26 * 88) (inthandler_at code) 36 \<and>
     apart dir (26 * 88) (int28h_at code) 36 \<and> apart dir (26 * 88) (int1ch_at code) 36"

text \<open>A handler carries its signature, so its data segment can be patched.\<close>

definition signed :: "memory \<Rightarrow> fp \<Rightarrow> string \<Rightarrow> bool" where
  "signed m h sg \<longleftrightarrow> (\<exists>i \<le> 28. peek_bytes m (fadd h (of_nat i)) 4 = map of_char sg)"

lemma sig_scan_found:
  "sig_scan m h sg i \<noteq> None \<longleftrightarrow> (\<exists>j \<le> 28. i \<le> j \<and> peek_bytes m (fadd h (of_nat j)) 4 = sg)"
proof (induction m h sg i rule: sig_scan.induct)
  case (1 m h sg i)
  let ?P = "\<lambda>j. peek_bytes m (fadd h (of_nat j)) 4 = sg"
  show ?case
  proof (cases "i \<le> 28 \<and> \<not> ?P i")
    case True
    then have "(\<exists>j \<le> 28. i \<le> j \<and> ?P j) \<longleftrightarrow> (\<exists>j \<le> 28. i + 1 \<le> j \<and> ?P j)"
      by (metis Suc_eq_plus1 Suc_leD le_neq_implies_less Suc_leI)
    with 1 True show ?thesis by (subst sig_scan.simps) simp
  next
    case False
    then show ?thesis by (subst sig_scan.simps) (auto simp: not_le)
  qed
qed

lemma signed_scan: "signed m h sg \<longleftrightarrow> sig_scan m h (map of_char sg) 0 \<noteq> None"
  using sig_scan_found [of m h "map of_char sg" 0] by (simp add: signed_def)

lemma signed_same:
  assumes "same_outside rs m m'" "fits h 36" "\<And>q k. (q, k) \<in> set rs \<Longrightarrow> apart h 36 q k"
  shows "signed m' h sg = signed m h sg"
proof -
  have "peek_bytes m' (fadd h (of_nat i)) 4 = peek_bytes m (fadd h (of_nat i)) 4" if "i \<le> 28" for i
  proof (rule peek_bytes_same [OF assms(1)])
    have u: "unat (of_nat i :: u16) = i" using that by (simp add: unat_of_nat)
    show "fits (fadd h (of_nat i)) 4" using fits_fadd [OF assms(2), of "of_nat i" 4] that by (simp add: u)
    show "apart (fadd h (of_nat i)) 4 q k" if "(q, k) \<in> set rs" for q k
      using apart_fadd [OF assms(2) _ _ assms(3) [OF that], of "of_nat i" 4] \<open>i \<le> 28\<close> by (simp add: u)
  qed simp
  then show ?thesis by (auto simp: signed_def)
qed

lemma install_status_enabled:
  assumes "fits (int28h_at code) 36" "fits (int1ch_at code) 36" "apart (int1ch_at code) 36 (int28h_at code) 36"
  shows "stat_enabled (install_status ops code s) \<longleftrightarrow>
    stat_enabled s \<or> (signed (mem s) (int28h_at code) ''SD28'' \<and> signed (mem s) (int1ch_at code) ''SD1C'')"
proof -
  obtain ok1 s1 where p1: "patchhandlerds (int28h_at code) ''SD28'' s = (ok1, s1)" by fastforce
  obtain ok2 s2 where p2: "patchhandlerds (int1ch_at code) ''SD1C'' s1 = (ok2, s2)" by fastforce
  have ok: "ok1 = signed (mem s) (int28h_at code) ''SD28''" "ok2 = signed (mem s1) (int1ch_at code) ''SD1C''"
    using p1 p2 by (auto simp: patchhandlerds_def signed_scan split: option.splits)
  have "signed (mem s1) (int1ch_at code) ''SD1C'' = signed (mem s) (int1ch_at code) ''SD1C''"
    by (rule signed_same [OF patch_frame(3) [OF p1 assms(1)] assms(2)]) (use assms(3) in simp)
  moreover have "stat_enabled s1 = stat_enabled s" "stat_enabled s2 = stat_enabled s"
    using arg_cong [OF patch_frame(1) [OF p1], of stat_enabled] arg_cong [OF patch_frame(1) [OF p2], of stat_enabled] by simp_all
  ultimately show ?thesis
    using p2 by (auto simp: install_status_def p1 Let_def ok)
qed

lemma fold_untouched: "(\<And>j m. j \<in> set is \<Longrightarrow> f j m a = m a) \<Longrightarrow> fold f is m a = (m :: memory) a"
  by (induction "is" arbitrary: m) simp_all

lemma mark_drives_unmapped:
  assumes "\<forall>j \<in> set is. ldrv (glob_data s) ! j \<noteq> 0xFF \<longrightarrow> cds_known s j" "fits (cds_dir s) (26 * 88)"
    and "\<forall>j \<in> set is. j < 26" "i < 26" "ldrv (glob_data s) ! i = 0xFF"
  shows "peek_bytes (mem (mark_drives ops is s)) (cds_at s i) 88 = peek_bytes (mem s) (cds_at s i) 88"
proof -
  let ?f = "\<lambda>j m. if ldrv (glob_data s) ! j = 0xFF then m else mark_cds (cds_at s j) j m"
  have "fold ?f is (mem s) (lin (cds_at s i) + k) = mem s (lin (cds_at s i) + k)" if k: "k < 88" for k
  proof (rule fold_untouched)
    fix j m assume j: "j \<in> set is"
    show "?f j m (lin (cds_at s i) + k) = m (lin (cds_at s i) + k)"
    proof (cases "ldrv (glob_data s) ! j = 0xFF")
      case False
      then have "i \<noteq> j" "j < 26" using assms(3,5) j by auto
      then have "apart (cds_at s i) 88 (cds_at s j) 88" using cds_apart [OF assms(2,4)] by blast
      then have "mark_cds (cds_at s j) j m (lin (cds_at s i) + k) = m (lin (cds_at s i) + k)"
        using k by (intro same_outsideD [OF mark_cds_store [OF lin_cds_at(2) [OF assms(2) \<open>j < 26\<close>]]]) (auto simp: apart_def)
      then show ?thesis using False by simp
    qed simp
  qed
  then show ?thesis
    using lin_cds_at(2) [OF assms(2,4)] by (simp add: mark_drives_eq [OF assms(1)] peek_bytes_eq)
qed

lemma install_effect_exact:
  assumes "dos_laws ops" "main_install ops code u a s = (StayResident n, s')" "cds_ok s = -1"
    and "\<not> stat_enabled s" "code_apart code (cds_dir s')" "handlers_apart code (cds_dir s')"
  shows "stat_enabled s' \<longleftrightarrow> argflags a AND ARGFL_STATUS \<noteq> 0 \<and>
      signed (mem s) (int28h_at code) ''SD28'' \<and> signed (mem s) (int1ch_at code) ''SD1C''" (is ?e)
    and "i < 26 \<Longrightarrow> ldrv (glob_data s) ! i = 0xFF \<Longrightarrow>
      peek_bytes (mem s') (cds_at s' i) 88 = peek_bytes (mem s) (cds_at s' i) 88"
proof -
  obtain s1 s2 where c: "install_checks ops s = (None, s1)" and g: "install_segment ops code s1 = (None, s2)"
    and f: "(StayResident n, s') = go_resident ops code (install_report a (mark_drives ops [0..<26]
       (install_statics ops u a (if argflags a AND ARGFL_STATUS \<noteq> 0 then install_status ops code s2 else s2))))"
    using main_install_phases [OF assms(2)] by blast
  define s3 where "s3 = (if argflags a AND ARGFL_STATUS \<noteq> 0 then install_status ops code s2 else s2)"
  define s4 where "s4 = install_statics ops u a s3"
  have fits: "fits (inthandler_at code) 36" "fits (int28h_at code) 36" "fits (int1ch_at code) 36" "fits (cds_dir s') (26 * 88)"
    using assms(5) by (auto simp: code_apart_def)
  note sg = install_segment_ok [OF assms(1) g fits(1)]
  note st = install_status_frame [OF refl assms(1) fits(2,3), of s2]
  note ck = install_checks_ok [OF c assms(3)] and cs = install_checks_same [OF assms(1) c]
  have s2: "glob_data s2 = glob_data s1" "stat_enabled s2 = stat_enabled s1" "cds_dir s2 = cds_dir s1"
    "cds_known s2 = cds_known s1"
    by (subst sg(1), simp add: cds_known_def fun_eq_iff)+
  have s3: "cds_dir s3 = cds_dir s2" "cds_known s3 = cds_known s2" "ldrv (glob_data s3) = ldrv (glob_data s2)"
    "same_outside [(int28h_at code, 36), (int1ch_at code, 36)] (mem s2) (mem s3)"
    using st by (auto simp: s3_def)
  have s4: "mem s4 = mem s3" "stat_enabled s4 = stat_enabled s3" "cds_dir s4 = cds_dir s3" "cds_known s4 = cds_known s3"
    "ldrv (glob_data s4) = ldrv (glob_data s3)"
    by (simp_all add: s4_def install_statics_def cds_known_def fun_eq_iff)
  have ldrv: "ldrv (glob_data s4) = ldrv (glob_data s)" by (simp add: s4(5) s3(3) s2(1) ck(1))
  have known: "\<forall>i \<in> set [0..<26]. ldrv (glob_data s4) ! i \<noteq> 0xFF \<longrightarrow> cds_known s4 i"
    using ck(4) by (simp only: ldrv s4(4) s3(2) s2(4)) blast
  obtain m where mark: "mark_drives ops [0..<26] s4 = s4\<lparr>mem := m\<rparr>"
    using mark_drives_eq [OF known] by blast
  obtain k where k: "install_report a (s4\<lparr>mem := m\<rparr>) = s4\<lparr>mem := m, console := k\<rparr>"
    using install_report_frame by blast
  have s': "mem s' = m" "stat_enabled s' = stat_enabled s4" "cds_dir s' = cds_dir s4"
    using f by (auto simp del: upt_rec_numeral simp: s3_def [symmetric] s4_def [symmetric] k mark go_resident_def Let_def restore_vect_def freeseg_def)
  have mem1: "mem s1 = mem s" using cs by (simp add: same_def)
  have ap: "apart (int28h_at code) 36 (inthandler_at code) 36" "apart (int1ch_at code) 36 (inthandler_at code) 36"
    "apart (int1ch_at code) 36 (int28h_at code) 36" "apart (cds_dir s') (26 * 88) (inthandler_at code) 36"
    "apart (cds_dir s') (26 * 88) (int28h_at code) 36" "apart (cds_dir s') (26 * 88) (int1ch_at code) 36"
    using assms(6) by (auto simp: handlers_apart_def)
  have "signed (mem s2) (int28h_at code) sg = signed (mem s) (int28h_at code) sg"
    "signed (mem s2) (int1ch_at code) sg = signed (mem s) (int1ch_at code) sg" for sg
    using signed_same [OF sg(3) fits(2)] signed_same [OF sg(3) fits(3)] ap(1,2) by (simp_all add: mem1)
  then show ?e
    using install_status_enabled [OF fits(2,3) ap(3), of ops s2] assms(4)
    by (auto simp: s'(2) s4(2) s3_def s2(2) ck(2))
  assume i: "i < 26" "ldrv (glob_data s) ! i = 0xFF"
  have dir: "cds_dir s4 = cds_dir s'" "cds_at s4 i = cds_at s' i" by (simp_all add: s'(3) cds_at_def)
  have fi: "fits (cds_at s' i) 88" "lin (cds_at s' i) = lin (cds_dir s') + 88 * i"
    using lin_cds_at [OF fits(4) i(1)] by simp_all
  have "peek_bytes m (cds_at s4 i) 88 = peek_bytes (mem s4) (cds_at s4 i) 88"
    using mark_drives_unmapped [OF known fits(4) [folded dir(1)] _ i(1), of ops] i(2)
    by (simp add: ldrv mark del: upt_rec_numeral)
  also have "\<dots> = peek_bytes (mem s2) (cds_at s4 i) 88"
    unfolding s4(1) by (rule peek_bytes_same [OF s3(4)]) (use fi i ap(5,6) in \<open>auto simp: dir apart_def\<close>)
  also have "\<dots> = peek_bytes (mem s1) (cds_at s4 i) 88"
    by (rule peek_bytes_same [OF sg(3)]) (use fi i ap(4) in \<open>auto simp: dir apart_def\<close>)
  finally show "peek_bytes (mem s') (cds_at s' i) 88 = peek_bytes (mem s) (cds_at s' i) 88"
    by (simp add: s'(1) dir mem1)
qed

section \<open>Finding the resident copy\<close>

text \<open>
  A resident copy \<open>rs\<close> with its data at \<open>t\<close> is in the INT 2Fh chain: the chain answers a call for
  its multiplex number as \<open>inthandler\<close> does, no program with a lower number claims to be a copy, and
  the queries change nothing.
\<close>

definition loaded_in ::
  "'l rpc_fun \<Rightarrow> byte \<Rightarrow> u16 \<Rightarrow> 'd dos_ops \<Rightarrow> 'd \<Rightarrow> 'l tsr \<Rightarrow> fp \<Rightarrow> bool" where
  "loaded_in rpc rst w ops d rs t \<longleftrightarrow>
     0xC0 \<le> glob_multiplexid rs \<and> (\<forall>r. snd (int2f ops r d) = d) \<and>
     (\<forall>r r' rs'. reg_ah r = glob_multiplexid rs \<longrightarrow>
        inthandler rpc rst w (fst t) (snd t) r rs = Some (Return, r', rs') \<longrightarrow> int2f ops r d = (r', d)) \<and>
     (\<forall>r. 0xC0 \<le> reg_ah r \<longrightarrow> reg_ah r < glob_multiplexid rs \<longrightarrow> reg_al r = 0 \<longrightarrow>
        (let r' = fst (int2f ops r d) in \<not> (reg_al r' = 0xFF \<and> bx r' = SDF_MUXBX \<and> cx r' = SDF_MUXCX)))"

lemma reg_shift [simp]:
  "reg_ah (r\<lparr>ax := push_bit 8 (ucast (i :: byte))\<rparr>) = i" "reg_al (r\<lparr>ax := push_bit 8 (ucast (i :: byte))\<rparr>) = 0"
  by (rule bit_word_eqI, auto simp: reg_ah_def reg_al_def bit_simps)+

lemma reg_shift_1 [simp]:
  "reg_ah (r\<lparr>ax := push_bit 8 (ucast (i :: byte)) OR 1\<rparr>) = i" "reg_al (r\<lparr>ax := push_bit 8 (ucast (i :: byte)) OR 1\<rparr>) = 1"
  by (rule bit_word_eqI, auto simp: reg_ah_def reg_al_def bit_simps)+

lemma low_byte_set: "ucast (x AND 0xFF00 OR 0xFF :: u16) = (0xFF :: byte)"
proof (rule bit_word_eqI)
  fix n assume "n < LENGTH(8)"
  moreover have "(0xFF :: u16) = mask 8" "(0xFF :: byte) = mask 8" by (simp_all add: mask_eq_exp_minus_1)
  ultimately show "bit (ucast (x AND 0xFF00 OR 0xFF) :: byte) n = bit (0xFF :: byte) n"
    by (simp only: bit_simps) auto
qed

lemma checkid_finds:
  assumes "loaded_in rpc rst w ops d rs t"
  shows "0xC0 \<le> i \<Longrightarrow> i \<le> glob_multiplexid rs \<Longrightarrow> checkid ops i f r d = ((glob_multiplexid rs, True), d)"
proof (induction "unat (glob_multiplexid rs) - unat i" arbitrary: i f r rule: less_induct)
  case less
  let ?r = "r\<lparr>ax := push_bit 8 (ucast i)\<rparr>"
  obtain r1 where r1: "int2f ops ?r d = (r1, d)"
    using assms by (metis loaded_in_def prod.collapse)
  show ?case
  proof (cases "i = glob_multiplexid rs")
    case True
    have "inthandler rpc rst w (fst t) (snd t) ?r rs =
        Some (Return, ?r\<lparr>ax := ax ?r AND 0xFF00 OR 0xFF, bx := SDF_MUXBX, cx := SDF_MUXCX\<rparr>, rs\<lparr>glob_reqstkword := w\<rparr>)"
      using True by (simp add: inthandler_def Let_def del: intpack.update_convs)
    then have "r1 = ?r\<lparr>ax := ax ?r AND 0xFF00 OR 0xFF, bx := SDF_MUXBX, cx := SDF_MUXCX\<rparr>"
      using assms True r1 by (auto simp: loaded_in_def simp del: intpack.update_convs)
    then show ?thesis using True r1 by (subst checkid.simps) (simp add: reg_al_def low_byte_set)
  next
    case False
    with less.prems have lt: "i < glob_multiplexid rs" by simp
    then have "unat (i + 1) = Suc (unat i)" by (rule unat_succ_less)
    then have nxt: "i + 1 \<noteq> 0" "0xC0 \<le> i + 1" "i + 1 \<le> glob_multiplexid rs"
        "unat (glob_multiplexid rs) - unat (i + 1) < unat (glob_multiplexid rs) - unat i"
      using lt less.prems(1) by (auto simp: word_le_nat_alt word_less_nat_alt)
    have "\<not> (reg_al r1 = 0xFF \<and> bx r1 = SDF_MUXBX \<and> cx r1 = SDF_MUXCX)"
      using assms less.prems(1) lt r1 unfolding loaded_in_def Let_def by (metis fst_conv reg_shift)
    then show ?thesis
      using less.hyps [OF nxt(4,2,3)] nxt(1) by (subst checkid.simps) (auto simp: r1 Let_def)
  qed
qed

lemma loaded_found:
  assumes "loaded_in rpc rst w ops (dos s) rs t"
  shows "findfreemultiplex ops s = ((glob_multiplexid rs, True), s)"
proof -
  have "0xC0 \<le> glob_multiplexid rs" using assms unfolding loaded_in_def by blast
  then show ?thesis
    using checkid_finds [OF assms order.refl, of 0 "scratch_regs ops (dos s)"] by (simp add: findfreemultiplex_def)
qed

lemma loaded_answers:
  assumes "loaded_in rpc rst w ops (dos s) rs t"
  shows "query_shared ops (glob_multiplexid rs) s = (t, s)"
proof -
  let ?r = "(scratch_regs ops (dos s))\<lparr>ax := push_bit 8 (ucast (glob_multiplexid rs)) OR 1, bx := SDF_MUXBX\<rparr>"
  have r: "reg_ah ?r = glob_multiplexid rs" "reg_al ?r = 1"
    using reg_shift_1 [where i = "glob_multiplexid rs"] by (simp_all add: reg_ah_def reg_al_def)
  then have "inthandler rpc rst w (fst t) (snd t) ?r rs =
      Some (Return, ?r\<lparr>ax := 0, bx := fst t, cx := snd t\<rparr>, rs\<lparr>glob_reqstkword := fst t\<rparr>)"
    by (simp add: inthandler_def Let_def)
  then have "int2f ops ?r (dos s) = (?r\<lparr>ax := 0, bx := fst t, cx := snd t\<rparr>, dos s)"
    using assms r(1) unfolding loaded_in_def by blast
  then show ?thesis by (simp add: query_shared_def)
qed

section \<open>Unloading\<close>

abbreviation cds_ptr :: "'d dos_ops \<Rightarrow> ('l, 'd) loader \<Rightarrow> nat \<Rightarrow> fp" where
  "cds_ptr ops s i \<equiv> fst (getcds ops (of_nat i) s)"

text \<open>The state once the statics of \<open>getcds\<close> are set, which no later call changes.\<close>

definition cds_init :: "'d dos_ops \<Rightarrow> ('l, 'd) loader \<Rightarrow> ('l, 'd) loader" where
  "cds_init ops s = snd (getcds ops 0 s)"

lemma getcds_init: "getcds ops k s = (fst (getcds ops k s), cds_init ops s)"
  "cds_ok (cds_init ops s) \<noteq> -1 \<or> cds_ok s \<noteq> -1 \<and> cds_init ops s = s"
  "mem (cds_init ops s) = mem s" "dos (cds_init ops s) = dos s" "fst (getcds ops k (cds_init ops s)) = fst (getcds ops k s)"
  by (auto simp: getcds_def cds_init_def Let_def)

lemma getcds_stable:
  "cds_ok s \<noteq> -1 \<Longrightarrow> getcds ops k s = (fst (getcds ops k s), s)"
  "cds_ok s \<noteq> -1 \<Longrightarrow> fst (getcds ops k (s\<lparr>mem := m\<rparr>)) = fst (getcds ops k s)"
  by (auto simp: getcds_def Let_def)

lemma clear_drives_stable:
  "cds_ok s \<noteq> -1 \<Longrightarrow> clear_drives ops t is s =
     s\<lparr>mem := fold (\<lambda>i m. if peek8 m (fadd t (14 + of_nat i)) = 0xFF \<or> cds_ptr ops s i = NULL then m
        else poke16 m (fadd (cds_ptr ops s i) CDS_FLAGS) 0) is (mem s)\<rparr>"
proof (induction "is" arbitrary: s)
  case (Cons i "is")
  show ?case
  proof (cases "peek8 (mem s) (fadd t (14 + of_nat i)) = 0xFF \<or> cds_ptr ops s i = NULL")
    case True
    then have "clear_drives ops t (i # is) s = clear_drives ops t is s"
      by (subst clear_drives.simps(2), subst getcds_stable(1) [OF Cons.prems]) auto
    then show ?thesis using True Cons.IH [OF Cons.prems] by simp
  next
    case False
    let ?s = "s\<lparr>mem := poke16 (mem s) (fadd (cds_ptr ops s i) CDS_FLAGS) 0\<rparr>"
    have "clear_drives ops t (i # is) s = clear_drives ops t is ?s"
      using False by (subst clear_drives.simps(2), subst getcds_stable(1) [OF Cons.prems]) simp
    then show ?thesis
      using False Cons.IH [of ?s] Cons.prems by (simp add: getcds_stable(2) cong: if_cong)
  qed
qed simp

lemma clear_drives_init:
  "mem (clear_drives ops t is s) = mem (clear_drives ops t is (cds_init ops s))"
  "dos (clear_drives ops t is s) = dos (clear_drives ops t is (cds_init ops s))"
proof (induction "is")
  case (Cons i "is")
  obtain p k where k: "getcds ops (of_nat i) s = (p, k)" by fastforce
  then have i: "cds_init ops s = k" using getcds_init(1) [of ops "of_nat i" s] by simp
  have "getcds ops (of_nat i) k = (p, k)"
    using getcds_init(1,5) [of ops "of_nat i"] getcds_stable(1) [of k] getcds_init(2) [of ops s] k
    by (metis fst_conv i)
  moreover have "mem k = mem s" using getcds_init(3) [of ops s] by (simp add: i)
  ultimately show "mem (clear_drives ops t (i # is) s) = mem (clear_drives ops t (i # is) (cds_init ops s))"
    "dos (clear_drives ops t (i # is) s) = dos (clear_drives ops t (i # is) (cds_init ops s))"
    using Cons by (simp_all add: k i)
qed (simp_all add: getcds_init)

lemma clear_drives_effect:
  "mem (clear_drives ops t is s) =
     fold (\<lambda>i m. if peek8 m (fadd t (14 + of_nat i)) = 0xFF \<or> cds_ptr ops s i = NULL then m
        else poke16 m (fadd (cds_ptr ops s i) CDS_FLAGS) 0) is (mem s)"
  "dos (clear_drives ops t is s) = dos s"
proof -
  have ok: "cds_ok (cds_init ops s) \<noteq> -1" using getcds_init(2) [of ops s] by auto
  show "mem (clear_drives ops t is s) =
     fold (\<lambda>i m. if peek8 m (fadd t (14 + of_nat i)) = 0xFF \<or> cds_ptr ops s i = NULL then m
        else poke16 m (fadd (cds_ptr ops s i) CDS_FLAGS) 0) is (mem s)"
    "dos (clear_drives ops t is s) = dos s"
    unfolding clear_drives_init clear_drives_stable [OF ok] by (simp_all add: getcds_init(3-5) cong: if_cong)
qed

text \<open>\<open>struct tsrshareddata\<close> in memory.\<close>

definition shared_at :: "memory \<Rightarrow> fp \<Rightarrow> tsrshareddata \<Rightarrow> bool" where
  "shared_at m t gd \<longleftrightarrow>
     shared_fp m t 0 = prev_2f_handler gd \<and> peek16 m (fadd t 4) = pspseg gd \<and>
     shared_fp m t 40 = prev_int28h gd \<and> shared_fp m t 44 = prev_int1ch gd \<and>
     (\<forall>i < 26. peek8 m (fadd t (14 + of_nat i)) = ldrv gd ! i)"

text \<open>The loop over the drives reads the table it does not overlap.\<close>

lemma clear_fold_table:
  assumes "fits t 62" "fits dir (26 * 88)" "apart t 62 dir (26 * 88)" "\<forall>i < 26. peek8 m (fadd t (14 + of_nat i)) = L ! i"
    and "\<And>i m. i < 26 \<Longrightarrow> L ! i \<noteq> 0xFF \<Longrightarrow> same_outside [(dir, 26 * 88)] m (g i m)" "\<forall>i \<in> set is. i < 26"
  shows "fold (\<lambda>i m. if peek8 m (fadd t (14 + of_nat i)) = 0xFF then m else g i m) is m =
    fold (\<lambda>i m. if L ! i = 0xFF then m else g i m) is m"
  using assms(4,6)
proof (induction "is" arbitrary: m)
  case (Cons i "is")
  have "peek8 (g i m) (fadd t (14 + of_nat j)) = peek8 m (fadd t (14 + of_nat j))" if "L ! i \<noteq> 0xFF" "j < 26" for j
  proof (rule peek8_same [OF assms(5)])
    fix q k assume "(q, k :: nat) \<in> set [(dir, 26 * 88)]"
    moreover have "unat (14 + of_nat j :: u16) = 14 + j" using that(2) by (simp add: unat_word_ariths unat_of_nat)
    ultimately show "apart (fadd t (14 + of_nat j)) 1 q k"
      using assms(1,3) that(2) by (auto intro: apart_fadd)
  qed (use Cons.prems(2) that in auto)
  then have "\<forall>j < 26. peek8 (if L ! i = 0xFF then m else g i m) (fadd t (14 + of_nat j)) = L ! j"
    using Cons.prems(1) by auto
  from Cons.IH [OF this] show ?case using Cons.prems by simp
qed simp

lemma cds_ptr_at: "cds_ptr ops s i \<noteq> NULL \<Longrightarrow> cds_ptr ops s i = cds_at (cds_init ops s) i"
  by (auto simp: getcds_def cds_init_def cds_at_def Let_def split: if_splits)

lemma clear_drives_cleared:
  fixes s :: "('l, 'd) loader" and ops t
  defines "dir \<equiv> cds_dir (cds_init ops s)" and "s' \<equiv> clear_drives ops t [0..<26] s"
  assumes "fits t 62" "fits dir (26 * 88)" "apart t 62 dir (26 * 88)" "shared_at (mem s) t gd"
  shows "same_outside [(dir, 26 * 88)] (mem s) (mem s')"
    and "i < 26 \<Longrightarrow> ldrv gd ! i \<noteq> 0xFF \<Longrightarrow> cds_ptr ops s i \<noteq> NULL \<Longrightarrow>
      peek16 (mem s') (fadd (cds_ptr ops s i) CDS_FLAGS) = 0"
proof -
  let ?k = "cds_init ops s"
  let ?g = "\<lambda>i m. if cds_ptr ops s i = NULL then m else poke16 m (fadd (cds_ptr ops s i) CDS_FLAGS) 0"
  let ?f = "\<lambda>i m. if ldrv gd ! i = 0xFF then m else ?g i m"
  have fits: "fits (cds_at ?k i) 88" "lin (cds_at ?k i) = lin dir + 88 * i" if "i < 26" for i
    using lin_cds_at [of ?k i] assms(4) that by (simp_all add: dir_def)
  have f: "same_outside [(cds_at ?k i, 88)] m (?f i m)" if "i < 26" for i m
    using flags_store [OF fits(1) [OF that]] cds_ptr_at [where ops = ops and s = s and i = i] by auto
  have g: "same_outside [(dir, 26 * 88)] m (?g i m)" if "i < 26" for i m
    using flags_store [OF fits(1) [OF that], of m 0] cds_ptr_at [where ops = ops and s = s and i = i] fits(2) [OF that] that
    by (auto simp: same_outside_def)
  have up: "i \<in> set [0..<26] \<longleftrightarrow> i < 26" for i :: nat by (simp del: upt_rec_numeral)
  have "mem s' = fold (\<lambda>i m. if peek8 m (fadd t (14 + of_nat i)) = 0xFF then m else ?g i m) [0..<26] (mem s)"
    unfolding s'_def clear_drives_effect(1)
    by (rule arg_cong [where f = "\<lambda>f. fold f [0..<26] (mem s)"]) (auto simp: fun_eq_iff)
  also have "\<dots> = fold ?f [0..<26] (mem s)"
    by (rule clear_fold_table [OF assms(3-5)]) (use assms(6) g in \<open>auto simp: shared_at_def up simp del: upt_rec_numeral\<close>)
  finally have m: "mem s' = fold ?f [0..<26] (mem s)" .
  have "fold ?f [0..<26] (mem s) a = mem s a" if a: "a < lin dir \<or> lin dir + 26 * 88 \<le> a" for a
  proof (rule fold_outside [where c = "cds_at ?k" and n = 88 and J = "{..<26}"])
    fix j :: nat assume "j \<in> {..<26}"
    then show "a < lin (cds_at ?k j) \<or> lin (cds_at ?k j) + 88 \<le> a" using a fits(2) [of j] by auto
  qed (use f in \<open>auto simp: up simp del: upt_rec_numeral\<close>)
  then show "same_outside [(dir, 26 * 88)] (mem s) (mem s')" by (simp add: m same_outside_def not_le not_less del: upt_rec_numeral)
  show "peek16 (mem s') (fadd (cds_ptr ops s i) CDS_FLAGS) = 0"
    if i: "i < 26" "ldrv gd ! i \<noteq> 0xFF" "cds_ptr ops s i \<noteq> NULL"
  proof -
    let ?P = "\<lambda>i m. ldrv gd ! i = 0xFF \<or> cds_ptr ops s i = NULL \<or> peek16 m (fadd (cds_at ?k i) CDS_FLAGS) = 0"
    have "?P i (fold ?f [0..<26] (mem s))"
    proof (rule fold_regions [where c = "cds_at ?k" and n = 88])
      fix i j :: nat assume "i \<in> set [0..<26]" "j \<in> set [0..<26]" "i \<noteq> j"
      then show "apart (cds_at ?k i) 88 (cds_at ?k j) 88"
        using cds_apart [of ?k i j] assms(4) unfolding up dir_def by blast
    next
      fix i :: nat and m m' :: memory
      assume "i \<in> set [0..<26]" and a: "\<And>a. lin (cds_at ?k i) \<le> a \<Longrightarrow> a < lin (cds_at ?k i) + 88 \<Longrightarrow> m' a = m a"
        and "?P i m"
      then show "?P i m'" using flags_local [of "cds_at ?k i" m' m, OF fits(1) a] unfolding up by simp
    next
      fix i :: nat and m assume "i \<in> set [0..<26]"
      then show "?P i (?f i m)" using flags_read [OF fits(1), of i m 0] cds_ptr_at [where ops = ops and s = s and i = i] unfolding up by auto
    qed (use f i(1) in \<open>simp_all only: up distinct_upt\<close>)
    then show ?thesis using i cds_ptr_at [OF i(3)] by (simp add: m del: upt_rec_numeral)
  qed
qed

text \<open>The vectors after an unload: those the resident copy has saved, as far as it has hooked them.\<close>

definition unhooked :: "tsrshareddata \<Rightarrow> (byte \<Rightarrow> fp) \<Rightarrow> byte \<Rightarrow> fp" where
  "unhooked gd v =
     (let v = v(0x2F := prev_2f_handler gd);
          v = (if prev_int28h gd \<noteq> NULL then v(0x28 := prev_int28h gd) else v)
      in if prev_int1ch gd \<noteq> NULL then v(0x1C := prev_int1ch gd) else v)"

lemma restore_vect_fields [simp]:
  "mem (restore_vect ops n p s) = mem s" "dos (restore_vect ops n p s) = set_vect ops n p (dos s)"
  by (simp_all add: restore_vect_def)

lemma cds_ptr_dos:
  assumes "dos_laws ops"
  shows "cds_ptr ops (s\<lparr>dos := d\<rparr>) i = cds_ptr ops s i" "cds_dir (cds_init ops (s\<lparr>dos := d\<rparr>)) = cds_dir (cds_init ops s)"
  using list_of_lists_fixed [OF assms, of d "dos s"] by (auto simp: getcds_def cds_init_def Let_def)

lemma unload_resident_effect:
  assumes "dos_laws ops" "shared_at (mem s) t gd"
  shows "vects ops (dos (unload_resident ops t s)) = unhooked gd (vects ops (dos s))"
    and "\<exists>d. mem (unload_resident ops t s) = mem (clear_drives ops t [0..<26] (s\<lparr>dos := d\<rparr>))"
proof -
  let ?s1 = "restore_vect ops 0x2F (prev_2f_handler gd) s"
  let ?s2 = "if prev_int28h gd \<noteq> NULL then restore_vect ops 0x28 (prev_int28h gd) ?s1 else ?s1"
  let ?s3 = "if prev_int1ch gd \<noteq> NULL then restore_vect ops 0x1C (prev_int1ch gd) ?s2 else ?s2"
  have m: "mem ?s1 = mem s" "mem ?s2 = mem s" "mem ?s3 = mem s" by simp_all
  have sh: "shared_fp (mem s) t 0 = prev_2f_handler gd" "shared_fp (mem s) t 40 = prev_int28h gd"
    "shared_fp (mem s) t 44 = prev_int1ch gd"
    using assms(2) by (simp_all add: shared_at_def)
  have u: "\<exists>g h. unload_resident ops t s = freeseg ops g (freeseg ops h (clear_drives ops t [0..<26] ?s3))"
    unfolding unload_resident_def Let_def m sh by blast
  then obtain g h where u: "unload_resident ops t s = freeseg ops g (freeseg ops h (clear_drives ops t [0..<26] ?s3))"
    by blast
  have "vects ops (dos ?s3) = unhooked gd (vects ops (dos s))"
    using assms(1) by (simp add: unhooked_def)
  then show "vects ops (dos (unload_resident ops t s)) = unhooked gd (vects ops (dos s))"
    using assms(1) by (simp add: u freeseg_def clear_drives_effect(2) del: upt_rec_numeral)
  have "?s3 = s\<lparr>dos := dos ?s3\<rparr>" by (simp add: restore_vect_def)
  then show "\<exists>d. mem (unload_resident ops t s) = mem (clear_drives ops t [0..<26] (s\<lparr>dos := d\<rparr>))"
    by (intro exI [of _ "dos ?s3"]) (simp add: u freeseg_def del: upt_rec_numeral)
qed

text \<open>What \<open>/U\<close> does when a resident copy answers and its signature is at the head of the chain.\<close>

lemma main_unload_effect:
  assumes "dos_laws ops" "loaded_in rpc rst w ops (dos s) rs t" "fst t \<noteq> 0xFFFF" "shared_at (mem s) t gd"
    and "main_unload ops a s = (Exit 0, s')"
  shows "vects ops (dos s') = unhooked gd (vects ops (dos s))"
    and "\<exists>d. mem s' = mem (clear_drives ops t [0..<26] (s\<lparr>dos := d\<rparr>))"
proof -
  have "s' = (if argflags a AND ARGFL_QUIET = 0 then notice ''unloaded'' (unload_resident ops t s) else unload_resident ops t s)"
    using assms(3,5) by (auto simp: main_unload_def loaded_found [OF assms(2)] loaded_answers [OF assms(2)] Let_def split: if_splits)
  then show "vects ops (dos s') = unhooked gd (vects ops (dos s))"
    "\<exists>d. mem s' = mem (clear_drives ops t [0..<26] (s\<lparr>dos := d\<rparr>))"
    using unload_resident_effect [OF assms(1,4)] by (auto simp: notice_def simp del: upt_rec_numeral)
qed

end
