(* ===== verification/Sdf_Machine.thy ===== *)
theory Sdf_Machine
  imports Sdf_Effects Sdf_Sample
begin

text \<open>
  \<open>main\<close> from its start, and a small machine on which the theorems about the life of the resident
  program are evaluated: an environment that is the vector table, a memory with the handlers, the
  list of lists and the drive table, before and after an installation.
\<close>

section \<open>\<open>main\<close> from its start\<close>

text \<open>The state when the sub-program starts: the drive table is set, the chain has been asked once.\<close>

lemma main_prog_steps:
  assumes "parseargv argv args_start = (0, a)" "argflags a AND ARGFL_STATS = 0"
    and "int2f ops ((scratch_regs ops (dos s))\<lparr>ax := 0x1100\<rparr>) (dos s) = (r, d)" "true_version ops (dos s) = (x, y)"
  shows "main_prog ops code u argv s =
    (if (if x = 0xFF then 0 else y) < 5 then (Exit 1, notice ''unsupdos'' (s\<lparr>glob_data := (glob_data s)\<lparr>ldrv := drive_map a\<rparr>\<rparr>))
     else if ax r = 1 then (Exit 1, notice ''noredir'' (s\<lparr>glob_data := (glob_data s)\<lparr>ldrv := drive_map a\<rparr>, dos := d\<rparr>))
     else (if argflags a AND ARGFL_UNLOAD \<noteq> 0 then main_unload ops a else main_install ops code u a)
       (s\<lparr>glob_data := (glob_data s)\<lparr>ldrv := drive_map a\<rparr>, dos := d\<rparr>))"
  using assms(2) by (simp add: main_prog_def assms(1,3,4) Let_def)

lemma if_exit: "(if A then (x, X) else if B then (x, Y) else Z) = (e, s) \<Longrightarrow> e \<noteq> x \<Longrightarrow> Z = (e, s)"
  by (simp split: if_splits)

lemma main_exits: "fst (main_stats ops s) \<noteq> StayResident n" "fst (main_unload ops a s) \<noteq> StayResident n"
  by (simp_all add: main_stats_def main_unload_def Let_def case_prod_beta)

lemma main_prog_start:
  assumes "main_prog ops code u argv s = (e, s')" "parseargv argv args_start = (0, a)" "argflags a AND ARGFL_STATS = 0"
    and "dos_laws ops" "e \<noteq> Exit 1"
  obtains d where "vects ops d = vects ops (dos s)" "d = snd (int2f ops ((scratch_regs ops (dos s))\<lparr>ax := 0x1100\<rparr>) (dos s))"
    "(if argflags a AND ARGFL_UNLOAD \<noteq> 0 then main_unload ops a else main_install ops code u a)
       (s\<lparr>glob_data := (glob_data s)\<lparr>ldrv := drive_map a\<rparr>, dos := d\<rparr>) = (e, s')"
proof -
  obtain r d where c: "int2f ops ((scratch_regs ops (dos s))\<lparr>ax := 0x1100\<rparr>) (dos s) = (r, d)" by fastforce
  obtain x y where t: "true_version ops (dos s) = (x, y)" by fastforce
  have v: "vects ops d = vects ops (dos s)" using int2f_vects [OF assms(4) c] .
  have r: "(if argflags a AND ARGFL_UNLOAD \<noteq> 0 then main_unload ops a else main_install ops code u a)
       (s\<lparr>glob_data := (glob_data s)\<lparr>ldrv := drive_map a\<rparr>, dos := d\<rparr>) = (e, s')"
    using assms(1) unfolding main_prog_steps [OF assms(2,3) c t] by (rule if_exit) (rule assms(5))
  show thesis by (rule that [OF v _ r]) (simp only: c snd_conv)
qed

lemma stays_resident:
  assumes "main_prog ops code u argv s = (StayResident n, s')" "parseargv argv args_start = (rc, a)"
  shows "rc = 0" "argflags a AND ARGFL_STATS = 0" "argflags a AND ARGFL_UNLOAD = 0"
proof -
  show rc: "rc = 0" using assms by (simp add: main_prog_def Let_def split: if_splits)
  show st: "argflags a AND ARGFL_STATS = 0"
  proof (rule ccontr)
    assume "argflags a AND ARGFL_STATS \<noteq> 0"
    then have "main_stats ops (s\<lparr>glob_data := (glob_data s)\<lparr>ldrv := drive_map a\<rparr>\<rparr>) = (StayResident n, s')"
      using assms(1) by (simp add: main_prog_def assms(2) rc Let_def)
    then show False by (metis fst_conv main_exits(1))
  qed
  obtain r d where c: "int2f ops ((scratch_regs ops (dos s))\<lparr>ax := 0x1100\<rparr>) (dos s) = (r, d)" by fastforce
  obtain x y where t: "true_version ops (dos s) = (x, y)" by fastforce
  show "argflags a AND ARGFL_UNLOAD = 0"
  proof (rule ccontr)
    assume "argflags a AND ARGFL_UNLOAD \<noteq> 0"
    then have "\<exists>z. main_unload ops a z = (StayResident n, s')"
      using assms(1) unfolding main_prog_steps [OF assms(2) [unfolded rc] st c t] by (auto split: if_splits)
    then show False by (metis fst_conv main_exits(2))
  qed
qed


section \<open>A small machine\<close>

text \<open>
  The environment is the vector table; the resident copy answers once INT 2Fh points to it. The
  handlers are at 4000:0000, their signatures two bytes in; the list of lists is at 0080:0000 and
  the drive table at 0090:0000.
\<close>

definition demo_code :: code_map where
  "demo_code = \<lparr>inthandler_at = (0x4000, 0), int28h_at = (0x4000, 0x100), int1ch_at = (0x4000, 0x200), begtextend = 0x2000\<rparr>"

definition demo_int2f :: "intpack \<Rightarrow> (byte \<Rightarrow> fp) \<Rightarrow> intpack \<times> (byte \<Rightarrow> fp)" where
  "demo_int2f r d =
     (if d 0x2F = (0x4000, 0) \<and> reg_ah r = 0xFF
      then if reg_al r = 0 then (r\<lparr>ax := ax r AND 0xFF00 OR 0xFF, bx := SDF_MUXBX, cx := SDF_MUXCX\<rparr>, d)
           else if reg_al r = 1 \<and> bx r = SDF_MUXBX then (r\<lparr>ax := 0, bx := 0x5000, cx := 0x10\<rparr>, d)
           else (r, d)
      else (r, d))"

definition demo_ops :: "(byte \<Rightarrow> fp) dos_ops" where
  "demo_ops = \<lparr>get_vect = \<lambda>n d. d n, set_vect = \<lambda>n p d. d(n := p), int2f = demo_int2f,
     scratch_regs = \<lambda>d. \<lparr>ax = 0, bx = 0, cx = 0, dx = 0, di = 0, es = 0, flags = 0\<rparr>,
     true_version = \<lambda>d. (6, 6), list_of_lists = \<lambda>d. (0x80, 0), sda_ptr = \<lambda>d. (0x1000, 0), indos_ptr = \<lambda>d. (0x70, 0x20),
     get_strategy = \<lambda>d. 0, set_strategy = \<lambda>n d. d, alloc_paras = \<lambda>n d. (Some 0x5000, d), free_seg = \<lambda>g d. d,
     psp_seg = \<lambda>d. 0x3000\<rparr>"

definition demo_vectors :: "byte \<Rightarrow> fp" where
  "demo_vectors n = (if n = 0x2F then (0x70, 0x10) else if n = 0x28 then (0x70, 0x30) else if n = 0x1C then (0xF000, 5) else (0, 0))"

definition demo_core :: memory where
  "demo_core =
     seg_bytes 0x40000 ([0xEB, 6] @ map of_char ''SDFS'' @ [0x50, 0xB8, 0, 0])
    (seg_bytes 0x40100 ([0xEB, 6] @ map of_char ''SD28'' @ [0x50, 0xB8, 0, 0])
    (seg_bytes 0x40200 ([0xEB, 6] @ map of_char ''SD1C'' @ [0x50, 0xB8, 0, 0])
    (seg_bytes 0x816 [0, 0, 0x90, 0] (seg_bytes 0x821 [26] (\<lambda>_. 0)))))"

definition demo_loader :: "'l \<Rightarrow> memory \<Rightarrow> (byte \<Rightarrow> fp) \<Rightarrow> ('l, byte \<Rightarrow> fp) loader" where
  "demo_loader l m d = \<lparr>link = l, mem = m,
     glob_intregs = \<lparr>ax = 0, bx = 0, cx = 0, dx = 0, di = 0, es = 0, flags = 0\<rparr>,
     glob_data = \<lparr>prev_2f_handler = (0, 0), pspseg = 0, comport = 0, baudcode = 0, indos = (0, 0),
       ldrv = [], prev_int28h = (0, 0), prev_int1ch = (0, 0)\<rparr>,
     glob_req_payload = replicate 512 0, glob_rep_payload = replicate 512 0,
     dir_batch = replicate 506 0, dir_batch_count = 0, dir_batch_idx = 0, dir_batch_more = 0, dir_hid = 0,
     stat_dirty = False, stat_enabled = False, glob_reqdrv = 0, glob_reqstkword = 0,
     glob_sdaptr = (0, 0), glob_multiplexid = 0, dos = d, dseg = 0x3100, cds_ok = -1, cds_dir = (0, 0),
     cds_lastdrv = 0, console = []\<rparr>"

definition demo_uart :: "u16 \<Rightarrow> u16 \<Rightarrow> nat \<Rightarrow> nat" where
  "demo_uart p d l = unat p + 2 * unat d"

lemma demo_laws: "dos_laws demo_ops"
  by (auto simp: dos_laws_def vects_def demo_ops_def demo_int2f_def fun_eq_iff)

lemma demo_parse:
  "parseargv [''SERDFS'', ''C-X'', ''/COM1'', ''/STATUS''] args_start =
     (0, \<lparr>comport_arg = 1, baudiv = 12, argflags = ARGFL_STATUS, drive_map = (replicate 26 0xFF)[23 := 2], drivemapflag = True\<rparr>)"
  "parseargv [''SERDFS'', ''/U''] args_start =
     (0, \<lparr>comport_arg = 0, baudiv = 0, argflags = ARGFL_UNLOAD, drive_map = replicate 26 0xFF, drivemapflag = False\<rparr>)"
  "parseargv [''SERDFS'', ''/STATS''] args_start =
     (0, \<lparr>comport_arg = 0, baudiv = 0, argflags = ARGFL_STATS, drive_map = replicate 26 0xFF, drivemapflag = False\<rparr>)"
  by code_simp+

text \<open>No copy is loaded: every number is free and the last one is taken.\<close>

lemma demo_free:
  "d 0x2F \<noteq> (0x4000, 0) \<Longrightarrow> checkid demo_ops i f r d = ((0xFF, False), d)"
proof (induction demo_ops i f r d rule: checkid.induct)
  case (1 i f r d)
  have q: "int2f demo_ops (r\<lparr>ax := push_bit 8 (ucast i)\<rparr>) d = (r\<lparr>ax := push_bit 8 (ucast i)\<rparr>, d)"
    using "1.prems" by (auto simp: demo_ops_def demo_int2f_def)
  show ?case
  proof (cases "i + 1 = 0")
    case True
    then have "i = - 1" by (simp add: eq_neg_iff_add_eq_0)
    then have "i = 0xFF" by simp
    then show ?thesis using q by (subst checkid.simps) (simp add: reg_al_def reg_ah_def Let_def)
  next
    case False
    with "1.hyps" [OF q [symmetric] refl] "1.prems" show ?thesis by (subst checkid.simps) (simp add: q Let_def)
  qed
qed

lemma demo_core_reads:
  "peek_fp demo_core (0x80, 0x16) = (0x90, 0)" "peek8 demo_core (0x80, 0x21) = 26"
  "peek16 demo_core (0x90, 0x82B) = 0"
  by (simp_all add: demo_core_def seg_bytes_def peek_fp_def peek16_def peek8_def lin_def fadd_def get_le16_def)

lemma peek_bytes_4: "peek_bytes m p 4 = map (peek8 m) [p, fadd p 1, fadd p 2, fadd p 3]"
proof -
  have "[0..<4] = [0, 1, 2, 3 :: nat]" by code_simp
  then show ?thesis by (simp add: peek_bytes_def)
qed

lemma sig_scan_2:
  "peek_bytes m (fadd h 2) 4 = sg \<Longrightarrow> peek_bytes m h 4 \<noteq> sg \<Longrightarrow> peek_bytes m (fadd h 1) 4 \<noteq> sg \<Longrightarrow>
   sig_scan m h sg 0 = Some 2"
  by (simp add: sig_scan.simps [of m h sg 0] sig_scan.simps [of m h sg 1] sig_scan.simps [of m h sg 2] One_nat_def [symmetric]
      del: One_nat_def)

lemma demo_scan:
  "sig_scan demo_core (0x4000, 0) (map of_char ''SDFS'') 0 = Some 2"
  "sig_scan (poke16 demo_core (0x4000, 8) w) (0x4000, 0x100) (map of_char ''SD28'') 0 = Some 2"
  "sig_scan (poke16 (poke16 demo_core (0x4000, 8) w) (0x4000, 0x108) w) (0x4000, 0x200) (map of_char ''SD1C'') 0 = Some 2"
  by (rule sig_scan_2;
      simp add: peek_bytes_4 demo_core_def seg_bytes_def peek8_def poke16_def le16_def poke8_def lin_def fadd_def)+

lemma upt_26: "[0..<26] = [0, 1, 2, 3, 4, 5, 6, 7, 8, 9, 10, 11, 12, 13, 14, 15, 16, 17, 18, 19, 20, 21, 22, 23, 24, 25 :: nat]"
  by code_simp

lemma demo_int2f_free: "d 0x2F \<noteq> (0x4000, 0) \<Longrightarrow> int2f demo_ops r d = (r, d)"
  by (simp add: demo_ops_def demo_int2f_def)

lemma demo_checks:
  assumes "mem s = demo_core" "dos s = demo_vectors" "cds_ok s = -1" "ldrv (glob_data s) = (replicate 26 0xFF)[23 := 2]"
  shows "install_checks demo_ops s =
    (None, s\<lparr>glob_data := (glob_data s)\<lparr>prev_2f_handler := (0x70, 0x10)\<rparr>, glob_multiplexid := 0xFF, dos := demo_vectors,
       cds_ok := 1, cds_dir := (0x90, 0), cds_lastdrv := 26\<rparr>)"
proof -
  let ?s = "s\<lparr>glob_data := (glob_data s)\<lparr>prev_2f_handler := (0x70, 0x10)\<rparr>, dos := demo_vectors, glob_multiplexid := 0xFF\<rparr>"
  have v: "get_vect demo_ops 0x2F demo_vectors = (0x70, 0x10)" "demo_vectors 0x2F \<noteq> (0x4000, 0)"
    by (simp_all add: demo_ops_def demo_vectors_def)
  have g: "getcds demo_ops (of_nat 23) ?s = ((0x90, 0x7E8), ?s\<lparr>cds_ok := 1, cds_dir := (0x90, 0), cds_lastdrv := 26\<rparr>)"
    using assms demo_core_reads by (simp add: getcds_def demo_ops_def fadd_def)
  have "check_drives demo_ops [0..<26] ?s = (None, ?s\<lparr>cds_ok := 1, cds_dir := (0x90, 0), cds_lastdrv := 26\<rparr>)"
    unfolding upt_26 using assms(1,4) g demo_core_reads(3) by (simp add: fadd_def)
  then show ?thesis
    using assms(2) v demo_free [where d = demo_vectors, OF v(2)] by (simp add: install_checks_def findfreemultiplex_def del: upt_rec_numeral)
qed

lemma demo_segment:
  assumes "mem s = demo_core" "dos s = demo_vectors"
  shows "install_segment demo_ops demo_code s = (None, s\<lparr>dseg := 0x5000, mem := poke16 demo_core (0x4000, 8) 0x5000\<rparr>)"
proof -
  have "allocseg demo_ops DATASEGSZ s = (0x5000, s)" using assms(2) by (simp add: allocseg_def demo_ops_def)
  then show ?thesis
    using assms(1) demo_scan(1)
    by (simp add: install_segment_def updatetsrds_def patchhandlerds_def demo_code_def fadd_def)
qed

lemma demo_status:
  assumes "mem s = poke16 demo_core (0x4000, 8) 0x5000" "dseg s = 0x5000" "dos s = demo_vectors"
  shows "install_status demo_ops demo_code s =
    s\<lparr>glob_data := (glob_data s)\<lparr>prev_int28h := (0x70, 0x30), prev_int1ch := (0xF000, 5)\<rparr>,
      dos := demo_vectors(0x28 := (0x4000, 0x100), 0x1C := (0x4000, 0x200)), stat_enabled := True,
      mem := poke16 (poke16 (poke16 demo_core (0x4000, 8) 0x5000) (0x4000, 0x108) 0x5000) (0x4000, 0x208) 0x5000\<rparr>"
  using assms demo_scan(2,3)
  by (auto simp: install_status_def patchhandlerds_def demo_code_def fadd_def demo_ops_def demo_vectors_def Let_def)

definition demo_resident :: tsrshareddata where
  "demo_resident = \<lparr>prev_2f_handler = (0x70, 0x10), pspseg = 0x3000, comport = 1, baudcode = 12, indos = (0x70, 0x20),
     ldrv = (replicate 26 0xFF)[23 := 2], prev_int28h = (0x70, 0x30), prev_int1ch = (0xF000, 5)\<rparr>"

lemma demo_installs:
  obtains s' where "main_prog demo_ops demo_code u [''SERDFS'', ''C-X'', ''/COM1'', ''/STATUS'']
      (demo_loader l demo_core demo_vectors) = (StayResident 528, s')"
    "cds_dir s' = (0x90, 0)" "glob_multiplexid s' = 0xFF" "stat_enabled s'" "glob_data s' = demo_resident"
    "dos s' = demo_vectors(0x28 := (0x4000, 0x100), 0x1C := (0x4000, 0x200), 0x2F := (0x4000, 0))"
proof -
  let ?argv = "[''SERDFS'', ''C-X'', ''/COM1'', ''/STATUS'']"
  let ?a = "\<lparr>comport_arg = 1, baudiv = 12, argflags = ARGFL_STATUS, drive_map = (replicate 26 0xFF)[23 := 2], drivemapflag = True\<rparr>"
  let ?l = "demo_loader l demo_core demo_vectors"
  let ?s0 = "?l\<lparr>glob_data := (glob_data ?l)\<lparr>ldrv := (replicate 26 0xFF)[23 := 2]\<rparr>, dos := demo_vectors\<rparr>"
  let ?s1 = "?s0\<lparr>glob_data := (glob_data ?s0)\<lparr>prev_2f_handler := (0x70, 0x10)\<rparr>, glob_multiplexid := 0xFF,
       cds_ok := 1, cds_dir := (0x90, 0), cds_lastdrv := 26\<rparr>"
  have f: "mem ?l = demo_core" "dos ?l = demo_vectors" "cds_ok ?l = -1" by (simp_all add: demo_loader_def)
  have v: "demo_vectors 0x2F \<noteq> (0x4000, 0)" by (simp add: demo_vectors_def)
  have q: "int2f demo_ops ((scratch_regs demo_ops (dos ?l))\<lparr>ax := 0x1100\<rparr>) (dos ?l) = ((scratch_regs demo_ops (dos ?l))\<lparr>ax := 0x1100\<rparr>, demo_vectors)"
    using demo_int2f_free [of demo_vectors, OF v] by (simp add: f)
  have t: "true_version demo_ops (dos ?l) = (6, 6)" by (simp add: demo_ops_def)
  have p: "main_prog demo_ops demo_code u ?argv ?l = main_install demo_ops demo_code u ?a ?s0"
    using main_prog_steps [OF demo_parse(1) _ q t] by simp
  define s1 where "s1 = ?s1"
  have c: "install_checks demo_ops ?s0 = (None, s1)" unfolding s1_def by (subst demo_checks) (simp_all add: f)
  define s2 where "s2 = s1\<lparr>dseg := 0x5000, mem := poke16 demo_core (0x4000, 8) 0x5000\<rparr>"
  have g: "install_segment demo_ops demo_code s1 = (None, s2)"
    unfolding s2_def by (rule demo_segment) (simp_all add: s1_def f)
  define z where "z = install_status demo_ops demo_code s2"
  have z: "cds_dir z = (0x90, 0)" "cds_ok z = 1" "cds_lastdrv z = 26" "glob_multiplexid z = 0xFF" "stat_enabled z"
    "dos z = demo_vectors(0x28 := (0x4000, 0x100), 0x1C := (0x4000, 0x200))"
    "glob_data z = demo_resident\<lparr>pspseg := 0, comport := 0, baudcode := 0, indos := (0, 0)\<rparr>"
    unfolding z_def using demo_status [of s2] by (simp_all add: s2_def s1_def demo_loader_def demo_resident_def)
  let ?s4 = "install_statics demo_ops u ?a z"
  have k: "\<forall>i \<in> set [0..<26]. ldrv (glob_data ?s4) ! i \<noteq> 0xFF \<longrightarrow> cds_known ?s4 i"
    unfolding upt_26 by (simp add: install_statics_def cds_known_def z demo_resident_def)
  obtain x where x: "mark_drives demo_ops [0..<26] ?s4 = ?s4\<lparr>mem := x\<rparr>" using mark_drives_eq [OF k] by blast
  obtain y where y: "install_report ?a (?s4\<lparr>mem := x\<rparr>) = ?s4\<lparr>mem := x, console := y\<rparr>" using install_report_frame by blast
  have r: "main_install demo_ops demo_code u ?a ?s0 = go_resident demo_ops demo_code (?s4\<lparr>mem := x, console := y\<rparr>)"
    unfolding main_install_def by (simp add: c g z_def [symmetric] x y del: upt_rec_numeral)
  show thesis
    by (rule that [of "snd (go_resident demo_ops demo_code (?s4\<lparr>mem := x, console := y\<rparr>))"])
      (simp_all add: p r, simp_all add: z go_resident_def restore_vect_def freeseg_def demo_code_def demo_ops_def install_statics_def
        demo_resident_def getsda_def Let_def)
qed

text \<open>The machine with the copy resident: its data at 5000:0010, drive X: marked.\<close>

definition demo_hooked :: "byte \<Rightarrow> fp" where
  "demo_hooked = demo_vectors(0x28 := (0x4000, 0x100), 0x1C := (0x4000, 0x200), 0x2F := (0x4000, 0))"

definition demo_shared :: "byte list" where
  "demo_shared = [0x70, 0, 0x10, 0, 0, 0x30, 1, 0, 12, 0, 0x70, 0, 0x20, 0] @ (replicate 26 0xFF)[23 := 2] @
     [0x70, 0, 0x30, 0, 0, 0xF0, 5, 0, 0xE8, 3, 0, 0, 9, 0, 0, 0, 2, 0, 0, 0, 1, 0]"

definition demo_after :: memory where
  "demo_after = seg_bytes 0x50010 demo_shared (seg_bytes 4395 [0, 0xC0] demo_core)"

lemma demo_ldrv: "(replicate 26 0xFF)[23 := 2 :: byte] =
  [0xFF, 0xFF, 0xFF, 0xFF, 0xFF, 0xFF, 0xFF, 0xFF, 0xFF, 0xFF, 0xFF, 0xFF, 0xFF, 0xFF, 0xFF, 0xFF, 0xFF,
   0xFF, 0xFF, 0xFF, 0xFF, 0xFF, 0xFF, 2, 0xFF, 0xFF]"
  by code_simp

lemma demo_shared_at: "shared_at demo_after (0x5000, 0x10) demo_resident"
proof -
  have "\<forall>i \<in> set [0..<26]. peek8 demo_after (fadd (0x5000, 0x10) (14 + of_nat i)) = ldrv demo_resident ! i"
    unfolding upt_26
    by (simp add: demo_after_def seg_bytes_def demo_shared_def peek8_def lin_def fadd_def demo_resident_def demo_ldrv)
  then have "\<forall>i < 26. peek8 demo_after (fadd (0x5000, 0x10) (14 + of_nat i)) = ldrv demo_resident ! i"
    by (simp del: upt_rec_numeral)
  then show ?thesis
    by (simp add: shared_at_def)
      (simp add: demo_after_def seg_bytes_def demo_shared_def shared_fp_def peek16_def peek8_def lin_def fadd_def get_le16_def demo_resident_def demo_ldrv)
qed

lemma demo_loaded:
  fixes rpc :: "'l rpc_fun"
  assumes "glob_multiplexid rs = 0xFF" "d 0x2F = (0x4000, 0)"
  shows "loaded_in rpc 0 0 demo_ops d rs (0x5000, 0x10)"
proof -
  have "int2f demo_ops r d = (r', d)"
    if "reg_ah r = 0xFF" "inthandler rpc 0 0 0x5000 0x10 r rs = Some (Return, r', rs')" for r r' rs'
  proof -
    have "not_redirector r" using that(1) by (simp add: not_redirector_def)
    then show ?thesis
      using that assms by (auto simp: inthandler_def Let_def demo_ops_def demo_int2f_def split: if_splits)
  qed
  moreover have "snd (int2f demo_ops r d) = d" for r by (simp add: demo_ops_def demo_int2f_def)
  moreover have "reg_al (fst (int2f demo_ops r d)) \<noteq> 0xFF" if "reg_ah r < 0xFF" "reg_al r = 0" for r
    using that by (auto simp: demo_ops_def demo_int2f_def)
  ultimately show ?thesis using assms(1) by (simp add: loaded_in_def Let_def)
qed

abbreviation demo_running :: "(nat, byte \<Rightarrow> fp) loader" where
  "demo_running \<equiv> demo_loader 0 demo_after demo_hooked"

definition demo_copy :: "nat tsr" where
  "demo_copy = (tsr.truncate (demo_loader 0 demo_core demo_vectors))\<lparr>glob_multiplexid := 0xFF, glob_data := demo_resident\<rparr>"

lemma demo_running_fields [simp]:
  "mem demo_running = demo_after" "dos demo_running = demo_hooked" "demo_hooked 0x2F = (0x4000, 0)" "glob_multiplexid demo_copy = 0xFF"
  by (simp_all add: demo_loader_def demo_hooked_def demo_copy_def)

lemma demo_found: "loaded_in (\<lambda>_ _ _ _ _. None) 0 0 demo_ops (dos (demo_running\<lparr>glob_data := g\<rparr>)) demo_copy (0x5000, 0x10)"
  by (rule demo_loaded) simp_all

lemma demo_after_reads:
  "peek_fp demo_after (0x80, 0x16) = (0x90, 0)" "peek8 demo_after (0x80, 0x21) = 26"
  "sig_scan demo_after (0x4000, 0) (map of_char ''SDFS'') 0 = Some 2"
proof -
  show "peek_fp demo_after (0x80, 0x16) = (0x90, 0)" "peek8 demo_after (0x80, 0x21) = 26"
    by (simp_all add: demo_after_def demo_shared_def demo_core_def seg_bytes_def peek_fp_def peek16_def peek8_def lin_def fadd_def get_le16_def)
  show "sig_scan demo_after (0x4000, 0) (map of_char ''SDFS'') 0 = Some 2"
    by (rule sig_scan_2; simp add: peek_bytes_4 demo_after_def demo_shared_def demo_core_def seg_bytes_def peek8_def lin_def fadd_def)
qed

text \<open>What \<open>main\<close> gets to with the copy loaded.\<close>

lemma demo_main:
  assumes "parseargv argv args_start = (0, a)" "argflags a AND ARGFL_STATS = 0"
  shows "main_prog demo_ops demo_code demo_uart argv demo_running =
    (if argflags a AND ARGFL_UNLOAD \<noteq> 0 then main_unload demo_ops a else main_install demo_ops demo_code demo_uart a)
      (demo_running\<lparr>glob_data := (glob_data demo_running)\<lparr>ldrv := drive_map a\<rparr>\<rparr>)"
proof -
  let ?r = "(scratch_regs demo_ops (dos demo_running))\<lparr>ax := 0x1100\<rparr>"
  have q: "int2f demo_ops ?r (dos demo_running) = (?r, demo_hooked)"
    by (simp add: demo_ops_def demo_int2f_def reg_ah_def)
  have t: "true_version demo_ops (dos demo_running) = (6, 6)" by (simp add: demo_ops_def)
  have eq: "demo_running\<lparr>glob_data := g, dos := demo_hooked\<rparr> = demo_running\<lparr>glob_data := g\<rparr>" for g
    by (simp add: demo_loader_def)
  have "ax ?r \<noteq> 1" by simp
  then show ?thesis unfolding main_prog_steps [OF assms q t] eq by simp
qed

lemma demo_unloads:
  obtains v' where "main_prog demo_ops demo_code demo_uart [''SERDFS'', ''/U''] demo_running = (Exit 0, v')"
proof -
  let ?a = "\<lparr>comport_arg = 0, baudiv = 0, argflags = ARGFL_UNLOAD, drive_map = replicate 26 0xFF, drivemapflag = False\<rparr>"
  let ?v = "demo_running\<lparr>glob_data := (glob_data demo_running)\<lparr>ldrv := replicate 26 0xFF\<rparr>\<rparr>"
  have g: "get_vect demo_ops 0x2F demo_hooked = (0x4000, 0)" by (simp add: demo_ops_def)
  have "fst (main_unload demo_ops ?a ?v) = Exit 0"
    using loaded_found [OF demo_found] loaded_answers [OF demo_found] demo_after_reads(3) g by (simp add: main_unload_def Let_def)
  moreover have "main_prog demo_ops demo_code demo_uart [''SERDFS'', ''/U''] demo_running = main_unload demo_ops ?a ?v"
    using demo_main [OF demo_parse(2)] by simp
  ultimately show thesis using that by (metis prod.collapse)
qed

end
