(* ===== verification/Sdf_Lifecycle.thy ===== *)
theory Sdf_Lifecycle
  imports Sdf_Machine
begin

text \<open>
  The life of the resident program: a refused installation, a successful one, finding the copy
  again, its report and its removal, each theorem with its evaluation on the machine of
  \<open>Sdf_Machine\<close>.
\<close>

section \<open>Lines of text\<close>

text \<open>\<open>wrote N p x\<close>: the position and buffer \<open>p\<close> hold the text \<open>x\<close> in an array of \<open>N\<close> bytes.\<close>

definition wrote :: "nat \<Rightarrow> nat \<times> byte list \<Rightarrow> byte list \<Rightarrow> bool" where
  "wrote N p x \<longleftrightarrow> fst p = length x \<and> length (snd p) = N \<and> take (length x) (snd p) = x"

lemma wrote_copy:
  assumes "wrote N (k, buf) x" "length x + length y \<le> N"
  shows "wrote N (k + length y, copy_at buf k y (length y)) (x @ y)"
  using assms by (auto simp: wrote_def copy_at_eq)

lemma put_str_wrote:
  "wrote N p x \<Longrightarrow> length x + length cs \<le> N \<Longrightarrow> wrote N (put_str cs p) (x @ map of_char cs)"
  using wrote_copy [of N "fst p" "snd p" x "map of_char cs"] by (simp add: put_str_def case_prod_beta)

lemma put_num_wrote:
  "wrote N p x \<Longrightarrow> length x + 10 \<le> N \<Longrightarrow> wrote N (put_num v p) (x @ decimal v)"
  using wrote_copy [of N "fst p" "snd p" x "decimal v"] digit_loop_length [of 0 v]
  by (simp add: put_num_def appendulong_def decimal_def case_prod_beta Let_def)

lemma outmsg_wrote:
  assumes "wrote N p (x @ [0x24])" "0x24 \<notin> set x"
  shows "takeWhile (\<lambda>b. b \<noteq> 0x24) (snd p) = x"
proof -
  have "take (length x + 1) (snd p) = x @ [0x24]" using assms(1) by (simp add: wrote_def)
  then have "snd p = x @ 0x24 # drop (length x + 1) (snd p)"
    by (metis append.assoc append_Cons append_Nil append_take_drop_id)
  moreover have "takeWhile (\<lambda>b. b \<noteq> 0x24) (x @ 0x24 # r) = x" for r
    using assms(2) by (induction x) auto
  ultimately show ?thesis by metis
qed

lemma decimal_text: "0x24 \<notin> set (decimal v)"
proof
  assume "0x24 \<in> set (decimal v)"
  then have "0x30 \<le> unat (0x24 :: byte)" using digits_are_digits [of v 0] by (auto simp: decimal_def)
  then show False by simp
qed

text \<open>
  The reference for the numbers: \<open>dec_digits n\<close> is the decimal notation of \<open>n\<close>, highest digit first.
\<close>

fun dec_digits :: "nat \<Rightarrow> byte list" where
  "dec_digits n = (if n < 10 then [0x30 + of_nat n] else dec_digits (n div 10) @ [0x30 + of_nat (n mod 10)])"

declare dec_digits.simps [simp del]

lemma digit_loop_digits:
  "n < 10 \<Longrightarrow> unat v < 10 ^ (10 - n) \<Longrightarrow> rev (digit_loop v n) = dec_digits (unat v)"
proof (induction v n rule: digit_loop.induct)
  case (1 v n)
  have q: "unat (v div 10) = unat v div 10" by (simp add: unat_div)
  have ten: "10 - n = Suc (10 - Suc n)" using 1(2) by simp
  have small: "unat v div 10 < 10 ^ (10 - Suc n)"
    using 1(3) by (simp add: ten less_mult_imp_div_less mult.commute)
  have z: "v div 10 > 0 \<longleftrightarrow> unat v div 10 > 0" by (simp add: word_less_nat_alt q)
  have d: "0x30 + ucast (v mod 10) = (0x30 + of_nat (unat v mod 10) :: byte)"
  proof -
    have "ucast (v mod 10) = (of_nat (unat (v mod 10)) :: byte)" by simp
    then show ?thesis by (simp only: unat_mod) simp
  qed
  show ?case
  proof (cases "unat v div 10 > 0 \<and> n + 1 < 10")
    case True
    then show ?thesis
      using 1(1) [OF refl refl refl] small z q
      by (subst digit_loop.simps, subst dec_digits.simps) (auto simp: Let_def d div_greater_zero_iff)
  next
    case False
    then have "unat v div 10 = 0" using small 1(2) by (cases "n + 1 < 10") auto
    then have "\<not> v div 10 > 0" "unat v < 10" "unat v mod 10 = unat v" using z by auto
    then show ?thesis
      using d by (subst digit_loop.simps, subst dec_digits.simps) (simp add: Let_def)
  qed
qed

lemma decimal_digits: "decimal v = dec_digits (unat v)"
proof -
  have "unat v < 10 ^ (10 - 0)" using u32_less [of v] by simp
  then show ?thesis unfolding decimal_def by (rule digit_loop_digits [rotated]) simp
qed

text \<open>
  The counters at the end of \<open>struct tsrshareddata\<close>, as \<open>globals.h\<close> lays them out, in the data of a
  copy at \<open>t\<close>.
\<close>

definition counters_at :: "memory \<Rightarrow> fp \<Rightarrow> rpc_stats \<Rightarrow> bool" where
  "counters_at m t c \<longleftrightarrow>
     peek32 m (fadd t 48) = stat_tx_bytes c \<and> peek32 m (fadd t 52) = stat_rx_bytes c \<and>
     peek16 m (fadd t 56) = stat_crc_errs c \<and> peek16 m (fadd t 58) = stat_timeouts c \<and>
     peek16 m (fadd t 60) = stat_retries c"

abbreviation stats_text1 :: "memory \<Rightarrow> fp \<Rightarrow> byte list" where
  "stats_text1 m t \<equiv> map of_char ''TX:'' @ decimal (peek32 m (fadd t 48)) @ map of_char '' RX:'' @
     decimal (peek32 m (fadd t 52)) @ [0x0D, 0x0A]"

abbreviation stats_text2 :: "memory \<Rightarrow> fp \<Rightarrow> byte list" where
  "stats_text2 m t \<equiv> map of_char ''TO:'' @ decimal (ucast (peek16 m (fadd t 58))) @ map of_char '' RT:'' @
     decimal (ucast (peek16 m (fadd t 60))) @ map of_char '' CE:'' @ decimal (ucast (peek16 m (fadd t 56))) @ [0x0D, 0x0A]"

lemma stats_line1_text:
  assumes "length line = 48"
  shows "takeWhile (\<lambda>b. b \<noteq> 0x24) (stats_line1 m t line) = stats_text1 m t" "length (stats_line1 m t line) = 48"
proof -
  let ?tx = "peek32 m (fadd t 48)" and ?rx = "peek32 m (fadd t 52)"
  have w0: "wrote 48 (0, line) []" using assms by (simp add: wrote_def)
  have w: "wrote 48 (put_str (crlf @ ''$'') (put_num ?rx (put_str '' RX:'' (put_num ?tx (put_str ''TX:'' (0, line))))))
      ((((([] @ map of_char ''TX:'') @ decimal ?tx) @ map of_char '' RX:'') @ decimal ?rx) @ map of_char (crlf @ ''$''))"
    by (intro put_str_wrote put_num_wrote w0) (use decimal_length [of ?tx] decimal_length [of ?rx] in simp_all)
  then show "length (stats_line1 m t line) = 48" by (simp add: stats_line1_def wrote_def)
  show "takeWhile (\<lambda>b. b \<noteq> 0x24) (stats_line1 m t line) = stats_text1 m t"
    unfolding stats_line1_def by (rule outmsg_wrote [where N = 48]) (use w in \<open>simp_all add: decimal_text\<close>)
qed

lemma stats_line2_text:
  assumes "length line = 48"
  shows "takeWhile (\<lambda>b. b \<noteq> 0x24) (stats_line2 m t line) = stats_text2 m t"
proof -
  let ?to = "ucast (peek16 m (fadd t 58)) :: u32" and ?rt = "ucast (peek16 m (fadd t 60)) :: u32"
    and ?ce = "ucast (peek16 m (fadd t 56)) :: u32"
  have w0: "wrote 48 (0, line) []" using assms by (simp add: wrote_def)
  have w: "wrote 48 (put_str (crlf @ ''$'') (put_num ?ce (put_str '' CE:'' (put_num ?rt (put_str '' RT:''
        (put_num ?to (put_str ''TO:'' (0, line))))))))
      ((((((([] @ map of_char ''TO:'') @ decimal ?to) @ map of_char '' RT:'') @ decimal ?rt) @ map of_char '' CE:'') @ decimal ?ce) @
        map of_char (crlf @ ''$''))"
    by (intro put_str_wrote put_num_wrote w0)
      (use decimal_length [of ?to] decimal_length [of ?rt] decimal_length [of ?ce] in simp_all)
  show ?thesis
    unfolding stats_line2_def by (rule outmsg_wrote [where N = 48]) (use w in \<open>simp_all add: decimal_text\<close>)
qed

section \<open>Properties\<close>


text \<open>
  C31: when the program does not stay resident and was not asked to unload a copy, whatever the
  reason (command line, DOS version, a copy already loaded, a drive in use, no memory, a handler that
  cannot be patched), no byte of memory, no interrupt vector and nothing of the serial line is changed.
\<close>

theorem refused_install_harmless:
  assumes "dos_laws ops" "main_prog ops code u argv s = (Exit c, s')"
    and "argflags (snd (parseargv argv args_start)) AND ARGFL_UNLOAD = 0"
  shows "mem s' = mem s \<and> link s' = link s \<and> (\<forall>n. get_vect ops n (dos s') = get_vect ops n (dos s))"
proof -
  obtain rc a where p: "parseargv argv args_start = (rc, a)" by fastforce
  let ?s = "s\<lparr>glob_data := (glob_data s)\<lparr>ldrv := drive_map a\<rparr>\<rparr>"
  obtain r d where i: "int2f ops ((scratch_regs ops (dos s))\<lparr>ax := 0x1100\<rparr>) (dos s) = (r, d)" by fastforce
  have d: "same ops s (?s\<lparr>dos := d\<rparr>)" using int2f_vects [OF assms(1) i] by (simp add: same_def)
  have u: "argflags a AND ARGFL_UNLOAD = 0" using assms(3) by (simp add: p)
  have "same ops s s'"
  proof (cases "rc \<noteq> 0 \<or> argflags a AND ARGFL_STATS \<noteq> 0")
    case True
    then show ?thesis
      using assms(2) main_stats_same [OF assms(1), of ?s] by (auto simp: main_prog_def p Let_def split: if_splits)
  next
    case False
    then have f: "rc = 0" "argflags a AND ARGFL_STATS = 0" by simp_all
    obtain x y where t: "true_version ops (dos s) = (x, y)" by fastforce
    have "s' = notice ''unsupdos'' ?s \<or> s' = notice ''noredir'' (?s\<lparr>dos := d\<rparr>) \<or>
        main_install ops code u a (?s\<lparr>dos := d\<rparr>) = (Exit c, s')"
      using assms(2) u unfolding main_prog_steps [OF p [unfolded f(1)] f(2) i t] by (auto split: if_splits)
    then show ?thesis using d main_install_refused [OF assms(1), of code u a "?s\<lparr>dos := d\<rparr>" c s'] by (auto intro: same_trans)
  qed
  then show ?thesis by (simp add: same_def get_vect_eq)
qed

theorem refused_install_harmless_witness:
  "\<exists>s'. main_prog demo_ops demo_code demo_uart [''SERDFS'', ''C-X'', ''/COM1'', ''/STATUS''] demo_running = (Exit 1, s') \<and>
     mem s' = demo_after"
proof -
  let ?argv = "[''SERDFS'', ''C-X'', ''/COM1'', ''/STATUS'']"
  let ?g = "(glob_data demo_running)\<lparr>ldrv := (replicate 26 0xFF)[23 := 2], prev_2f_handler := get_vect demo_ops 0x2F demo_hooked\<rparr>"
  have "findfreemultiplex demo_ops (demo_running\<lparr>glob_data := ?g\<rparr>) = ((0xFF, True), demo_running\<lparr>glob_data := ?g\<rparr>)"
    using loaded_found [OF demo_found] by simp
  then obtain s' where r: "main_prog demo_ops demo_code demo_uart ?argv demo_running = (Exit 1, s')"
    using demo_main [OF demo_parse(1)] by (simp add: main_install_def install_checks_def)
  show ?thesis using refused_install_harmless [OF demo_laws r] r by (simp add: demo_parse(1))
qed

text \<open>
  C30: an installation that succeeds takes INT 2Fh and keeps its old vector; it takes INT 28h and
  1Ch, both with their old vectors kept, exactly when \<open>/STATUS\<close> was given and both handlers carry
  their signatures, and no other vector; the port is initialised with the divisor asked for; every
  mapped drive, whose flags DOS had clear, is marked as a network drive with its root as the path,
  and the entries of the other drives stay as they were; no memory but the drive table and the
  patched words of the three handlers is written.
\<close>

theorem install_takes_effect:
  assumes "dos_laws ops" "main_prog ops code u argv s = (StayResident n, s')"
    and "parseargv argv args_start = (rc, a)" "cds_ok s = -1" "\<not> stat_enabled s" "code_apart code (cds_dir s')"
    and "handlers_apart code (cds_dir s')"
  shows "(stat_enabled s' \<longleftrightarrow> argflags a AND ARGFL_STATUS \<noteq> 0 \<and>
      signed (mem s) (int28h_at code) ''SD28'' \<and> signed (mem s) (int1ch_at code) ''SD1C'') \<and>
    vects ops (dos s') = (if stat_enabled s'
      then (vects ops (dos s))(0x28 := int28h_at code, 0x1C := int1ch_at code, 0x2F := inthandler_at code)
      else (vects ops (dos s))(0x2F := inthandler_at code)) \<and>
    prev_2f_handler (glob_data s') = get_vect ops 0x2F (dos s) \<and>
    (prev_int28h (glob_data s'), prev_int1ch (glob_data s')) =
      (if stat_enabled s' then (get_vect ops 0x28 (dos s), get_vect ops 0x1C (dos s))
       else (prev_int28h (glob_data s), prev_int1ch (glob_data s))) \<and>
    comport (glob_data s') = ucast (comport_arg a) \<and> baudcode (glob_data s') = baudiv a \<and>
    link s' = u (ucast (comport_arg a)) (baudiv a) (link s) \<and> ldrv (glob_data s') = drive_map a \<and>
    (\<forall>i < 26. drive_map a ! i \<noteq> 0xFF \<longrightarrow>
       peek16 (mem s) (fadd (cds_at s' i) CDS_FLAGS) = 0 \<and> marked i (cds_at s' i) (mem s')) \<and>
    (\<forall>i < 26. drive_map a ! i = 0xFF \<longrightarrow>
       peek_bytes (mem s') (cds_at s' i) 88 = peek_bytes (mem s) (cds_at s' i) 88) \<and>
    same_outside (resident_regions code (cds_dir s')) (mem s) (mem s')"
proof -
  note f = stays_resident [OF assms(2,3)]
  obtain d where d: "vects ops d = vects ops (dos s)"
    and i: "(if argflags a AND ARGFL_UNLOAD \<noteq> 0 then main_unload ops a else main_install ops code u a)
      (s\<lparr>glob_data := (glob_data s)\<lparr>ldrv := drive_map a\<rparr>, dos := d\<rparr>) = (StayResident n, s')"
    by (rule main_prog_start [OF assms(2) assms(3) [unfolded f(1)] f(2) assms(1)]) simp
  let ?s = "s\<lparr>glob_data := (glob_data s)\<lparr>ldrv := drive_map a\<rparr>, dos := d\<rparr>"
  from i have i: "main_install ops code u a ?s = (StayResident n, s')" by (simp only: f(3) simp_thms if_False)
  have "cds_ok ?s = -1" "\<not> stat_enabled ?s" using assms(4,5) by simp_all
  note e = install_effect [OF assms(1) i this assms(6)] and x = install_effect_exact [OF assms(1) i this assms(6,7)]
  have "get_vect ops k (dos ?s) = get_vect ops k (dos s)" for k by (simp add: get_vect_eq d)
  moreover have "stat_enabled s' \<longleftrightarrow> argflags a AND ARGFL_STATUS \<noteq> 0 \<and>
      signed (mem s) (int28h_at code) ''SD28'' \<and> signed (mem s) (int1ch_at code) ''SD1C''" using x(1) by simp
  moreover have "\<forall>i < 26. drive_map a ! i = 0xFF \<longrightarrow>
      peek_bytes (mem s') (cds_at s' i) 88 = peek_bytes (mem s) (cds_at s' i) 88" using x(2) by simp
  ultimately show ?thesis using e(2-7) d by (simp del: upt_rec_numeral)
qed

theorem install_takes_effect_witness:
  "\<exists>s'. main_prog demo_ops demo_code demo_uart [''SERDFS'', ''C-X'', ''/COM1'', ''/STATUS''] (demo_loader 0 demo_core demo_vectors) =
       (StayResident 528, s') \<and>
     marked 23 (cds_at s' 23) (mem s') \<and> vects demo_ops (dos s') 0x2F = (0x4000, 0) \<and>
     stat_enabled s' = (signed demo_core (0x4000, 0x100) ''SD28'' \<and> signed demo_core (0x4000, 0x200) ''SD1C'')"
proof -
  let ?l = "demo_loader (0 :: nat) demo_core demo_vectors"
  obtain s' where r: "main_prog demo_ops demo_code demo_uart [''SERDFS'', ''C-X'', ''/COM1'', ''/STATUS''] ?l = (StayResident 528, s')"
    and c: "cds_dir s' = (0x90, 0)"
    by (rule demo_installs)
  have s: "cds_ok ?l = -1" "\<not> stat_enabled ?l" "code_apart demo_code (cds_dir s')" "handlers_apart demo_code (cds_dir s')"
    by (simp_all add: demo_loader_def code_apart_def handlers_apart_def apart_def lin_def c demo_code_def fits_def)
  have m: "mem ?l = demo_core" by (simp add: demo_loader_def)
  show ?thesis
    using install_takes_effect [OF demo_laws r demo_parse(1) s] r by (simp add: demo_code_def m)
qed

text \<open>
  A loaded copy is found: the scan of the multiplex numbers stops at the number of the copy
  because the handler of the copy answers the installation check, and the second query yields the
  segment and offset of its data.
\<close>

theorem loaded_copy_found:
  assumes "loaded_in rpc rst w ops (dos s) rs t"
  shows "findfreemultiplex ops s = ((glob_multiplexid rs, True), s) \<and>
    query_shared ops (glob_multiplexid rs) s = (t, s)"
  by (simp add: loaded_found [OF assms] loaded_answers [OF assms])

theorem loaded_copy_found_witness:
  "findfreemultiplex demo_ops demo_running = ((0xFF, True), demo_running) \<and>
   query_shared demo_ops 0xFF demo_running = ((0x5000, 0x10), demo_running)"
  using loaded_copy_found [OF demo_loaded [where rs = demo_copy], of demo_running] by simp

text \<open>
  C32: unloading a copy gives INT 2Fh, and INT 28h and 1Ch where they were hooked, the vectors the copy
  has saved, leaves the other vectors, and clears the flags of every mapped drive within the table of
  DOS, writing nothing outside the table.
\<close>

theorem unload_restores:
  assumes "dos_laws ops" "main_prog ops code u argv s = (Exit 0, s')" "parseargv argv args_start = (0, a)"
    and "argflags a AND ARGFL_UNLOAD \<noteq> 0" "argflags a AND ARGFL_STATS = 0"
    and "loaded_in rpc rst w ops (dos s) rs t" "fst t \<noteq> 0xFFFF" "shared_at (mem s) t gd" "fits t 62"
    and "fits (cds_dir (cds_init ops s)) (26 * 88)" "apart t 62 (cds_dir (cds_init ops s)) (26 * 88)"
  shows "vects ops (dos s') = unhooked gd (vects ops (dos s)) \<and>
    (\<forall>i < 26. ldrv gd ! i \<noteq> 0xFF \<longrightarrow> cds_ptr ops s i \<noteq> NULL \<longrightarrow>
      peek16 (mem s') (fadd (cds_ptr ops s i) CDS_FLAGS) = 0) \<and>
    same_outside [(cds_dir (cds_init ops s), 26 * 88)] (mem s) (mem s')"
proof -
  let ?s = "s\<lparr>glob_data := (glob_data s)\<lparr>ldrv := drive_map a\<rparr>\<rparr>"
  have same: "snd (int2f ops r (dos s)) = dos s" for r using assms(6) unfolding loaded_in_def by blast
  have "main_unload ops a ?s = (Exit 0, s')"
    by (rule main_prog_start [OF assms(2,3,5,1)]) (simp_all add: same assms(4))
  moreover have "loaded_in rpc rst w ops (dos ?s) rs t" "shared_at (mem ?s) t gd" using assms(6,8) by simp_all
  ultimately obtain d where e: "vects ops (dos s') = unhooked gd (vects ops (dos ?s))"
    "mem s' = mem (clear_drives ops t [0..<26] (?s\<lparr>dos := d\<rparr>))"
    using main_unload_effect [OF assms(1) _ assms(7)] by metis
  have c: "cds_dir (cds_init ops (?s\<lparr>dos := d\<rparr>)) = cds_dir (cds_init ops s)" "cds_ptr ops (?s\<lparr>dos := d\<rparr>) i = cds_ptr ops s i" for i
    using cds_ptr_dos [OF assms(1), where s = ?s and d = d] by (auto simp: getcds_def cds_init_def Let_def)
  show ?thesis
    using clear_drives_cleared [of t ops "?s\<lparr>dos := d\<rparr>" gd] assms(8-11) e by (simp add: c del: upt_rec_numeral)
qed

lemma demo_table:
  "cds_dir (cds_init demo_ops demo_running) = (0x90, 0)" "cds_ptr demo_ops demo_running 23 = (0x90, 2024)"
  using demo_after_reads(1,2) by (simp_all add: getcds_def cds_init_def demo_ops_def fadd_def Let_def demo_loader_def)

theorem unload_restores_witness:
  "\<exists>s'. main_prog demo_ops demo_code demo_uart [''SERDFS'', ''/U''] demo_running = (Exit 0, s') \<and>
     vects demo_ops (dos s') 0x2F = (0x70, 0x10) \<and> peek16 (mem s') (0x90, 2091) = 0"
proof -
  obtain v' where u: "main_prog demo_ops demo_code demo_uart [''SERDFS'', ''/U''] demo_running = (Exit 0, v')"
    by (rule demo_unloads)
  let ?a = "\<lparr>comport_arg = 0, baudiv = 0, argflags = ARGFL_UNLOAD, drive_map = replicate 26 0xFF, drivemapflag = False\<rparr>"
  have "vects demo_ops (dos v') = unhooked demo_resident (vects demo_ops (dos demo_running)) \<and>
    (\<forall>i < 26. ldrv demo_resident ! i \<noteq> 0xFF \<longrightarrow> cds_ptr demo_ops demo_running i \<noteq> NULL \<longrightarrow>
      peek16 (mem v') (fadd (cds_ptr demo_ops demo_running i) CDS_FLAGS) = 0) \<and>
    same_outside [(cds_dir (cds_init demo_ops demo_running), 26 * 88)] (mem demo_running) (mem v')"
    by (rule unload_restores [OF demo_laws u demo_parse(2) _ _ demo_loaded [where rs = demo_copy]])
      (simp_all add: demo_shared_at demo_table, simp_all add: fits_def apart_def lin_def)
  moreover have "ldrv demo_resident ! 23 = 2" by (simp add: demo_resident_def)
  ultimately have "vects demo_ops (dos v') 0x2F = (0x70, 0x10)" "peek16 (mem v') (fadd (0x90, 2024) CDS_FLAGS) = 0"
    using demo_table(2) by (auto simp: unhooked_def demo_resident_def dest: spec [where x = 23])
  then show ?thesis using u by (simp add: fadd_def)
qed

text \<open>
  Installing and then unloading gives back every vector the installation has taken, whether or not
  the status bar was asked for: the copy that \<open>/U\<close> talks to is the state the installation has left
  resident. Other vectors stay as they are when \<open>/U\<close> runs, whoever has changed them in between.
\<close>

definition taken_vectors :: "'l tsr \<Rightarrow> byte set" where
  "taken_vectors s = (if stat_enabled s then {0x2F, 0x28, 0x1C} else {0x2F})"

theorem install_unload_roundtrip:
  assumes "dos_laws ops" "main_prog ops code u argv s = (StayResident n, s')" "cds_ok s = -1" "\<not> stat_enabled s"
    and "code_apart code (cds_dir s')" "prev_int28h (glob_data s) = NULL" "prev_int1ch (glob_data s) = NULL"
    and "get_vect ops 0x28 (dos s) \<noteq> NULL" "get_vect ops 0x1C (dos s) \<noteq> NULL"
    and "main_prog ops code u' argv' v = (Exit 0, v')" "parseargv argv' args_start = (0, a)"
    and "argflags a AND ARGFL_UNLOAD \<noteq> 0" "argflags a AND ARGFL_STATS = 0"
    and "loaded_in rpc rst w ops (dos v) (tsr.truncate s') t" "fst t \<noteq> 0xFFFF" "shared_at (mem v) t (glob_data s')"
  shows "get_vect ops m (dos v') =
    (if m \<in> taken_vectors (tsr.truncate s') then get_vect ops m (dos s) else get_vect ops m (dos v))"
proof -
  obtain rc b where b: "parseargv argv args_start = (rc, b)" by fastforce
  note f = stays_resident [OF assms(2) b]
  obtain d where d: "vects ops d = vects ops (dos s)"
    and i: "(if argflags b AND ARGFL_UNLOAD \<noteq> 0 then main_unload ops b else main_install ops code u b)
      (s\<lparr>glob_data := (glob_data s)\<lparr>ldrv := drive_map b\<rparr>, dos := d\<rparr>) = (StayResident n, s')"
    by (rule main_prog_start [OF assms(2) b [unfolded f(1)] f(2) assms(1)]) simp
  let ?s = "s\<lparr>glob_data := (glob_data s)\<lparr>ldrv := drive_map b\<rparr>, dos := d\<rparr>"
  from i have i: "main_install ops code u b ?s = (StayResident n, s')" by (simp only: f(3) simp_thms if_False)
  have "cds_ok ?s = -1" "\<not> stat_enabled ?s" using assms(3,4) by simp_all
  note e = install_effect(2-4) [OF assms(1) i this assms(5)]
  let ?v = "v\<lparr>glob_data := (glob_data v)\<lparr>ldrv := drive_map a\<rparr>\<rparr>"
  have same: "snd (int2f ops r (dos v)) = dos v" for r using assms(14) unfolding loaded_in_def by blast
  have "main_unload ops a ?v = (Exit 0, v')"
    by (rule main_prog_start [OF assms(10,11,13,1)]) (simp_all add: same assms(12))
  moreover have "loaded_in rpc rst w ops (dos ?v) (tsr.truncate s') t" "shared_at (mem ?v) t (glob_data s')"
    using assms(14,16) by simp_all
  ultimately have v: "vects ops (dos v') = unhooked (glob_data s') (vects ops (dos v))"
    using main_unload_effect(1) [OF assms(1) _ assms(15)] by fastforce
  have "stat_enabled (tsr.truncate s') = stat_enabled s'" by (simp add: tsr.truncate_def)
  then show ?thesis
    using e assms(6-9) d by (auto simp: unhooked_def taken_vectors_def get_vect_eq v)
qed

theorem install_unload_roundtrip_witness:
  "\<exists>s' v'. main_prog demo_ops demo_code demo_uart [''SERDFS'', ''C-X'', ''/COM1'', ''/STATUS''] (demo_loader 0 demo_core demo_vectors) =
       (StayResident 528, s') \<and>
     main_prog demo_ops demo_code demo_uart [''SERDFS'', ''/U''] demo_running = (Exit 0, v') \<and>
     get_vect demo_ops 0x1C (dos v') = (0xF000, 5)"
proof -
  let ?l = "demo_loader (0 :: nat) demo_core demo_vectors"
  obtain s' where r: "main_prog demo_ops demo_code demo_uart [''SERDFS'', ''C-X'', ''/COM1'', ''/STATUS''] ?l = (StayResident 528, s')"
    and s': "cds_dir s' = (0x90, 0)" "glob_multiplexid s' = 0xFF" "glob_data s' = demo_resident" "stat_enabled s'"
    by (rule demo_installs)
  obtain v' where u: "main_prog demo_ops demo_code demo_uart [''SERDFS'', ''/U''] demo_running = (Exit 0, v')"
    by (rule demo_unloads)
  have "loaded_in (\<lambda>_ _ _ _ _. None) 0 0 demo_ops (dos demo_running) (tsr.truncate s') (0x5000, 0x10)"
    by (rule demo_loaded) (simp_all add: tsr.truncate_def s'(2))
  then have "get_vect demo_ops 0x1C (dos v') = (if 0x1C \<in> taken_vectors (tsr.truncate s')
      then get_vect demo_ops 0x1C (dos ?l) else get_vect demo_ops 0x1C (dos demo_running))"
    by (rule install_unload_roundtrip [OF demo_laws r _ _ _ _ _ _ _ u demo_parse(2), rotated 9])
      (simp_all add: demo_shared_at s',
       simp_all add: demo_loader_def code_apart_def demo_code_def fits_def demo_ops_def demo_vectors_def)
  moreover have "0x1C \<in> taken_vectors (tsr.truncate s')"
    using s'(4) by (simp add: taken_vectors_def tsr.truncate_def)
  ultimately show ?thesis using r u by (simp add: demo_loader_def demo_ops_def demo_vectors_def)
qed

text \<open>
  C33: \<open>/STATS\<close> prints the five counters of the resident copy, the ones its calls count in, in
  decimal notation and in this order: bytes sent and received on one line, timeouts, retries and
  damaged frames on a second, and changes neither memory nor a vector.
\<close>

theorem stats_reports_counters:
  fixes rs :: "'h rpc_state tsr"
  assumes "dos_laws ops" "parseargv argv args_start = (0, a)" "argflags a AND ARGFL_STATS \<noteq> 0"
    and "loaded_in rpc rst w ops (dos s) rs t" "fst t \<noteq> 0xFFFF" "counters_at (mem s) t (rstats (link rs))"
    and "main_prog ops code u argv s = (e, s')"
  shows "e = Exit 0 \<and> mem s' = mem s \<and> dos s' = dos s \<and>
    console s' = console s @
      [Line (map of_char ''TX:'' @ dec_digits (unat (stat_tx_bytes (rstats (link rs)))) @
             map of_char '' RX:'' @ dec_digits (unat (stat_rx_bytes (rstats (link rs)))) @ [0x0D, 0x0A]),
       Line (map of_char ''TO:'' @ dec_digits (unat (stat_timeouts (rstats (link rs)))) @
             map of_char '' RT:'' @ dec_digits (unat (stat_retries (rstats (link rs)))) @
             map of_char '' CE:'' @ dec_digits (unat (stat_crc_errs (rstats (link rs)))) @ [0x0D, 0x0A])]"
proof -
  let ?s = "s\<lparr>glob_data := (glob_data s)\<lparr>ldrv := drive_map a\<rparr>\<rparr>"
  have l: "loaded_in rpc rst w ops (dos ?s) rs t" using assms(4) by simp
  have "main_stats ops ?s = (e, s')" using assms(3,7) by (simp add: main_prog_def assms(2))
  then have "e = Exit 0" "s' = outmsg (stats_line2 (mem s) t (stats_line1 (mem s) t (replicate 48 0)))
      (outmsg (stats_line1 (mem s) t (replicate 48 0)) ?s)"
    using assms(5) by (simp_all add: main_stats_def loaded_found [OF l] loaded_answers [OF l] Let_def outmsg_def)
  then show ?thesis using assms(6)
    by (simp add: outmsg_def stats_line1_text stats_line2_text decimal_digits counters_at_def)
qed

text \<open>A copy that has counted.\<close>

definition demo_counted :: "unit rpc_state tsr" where
  "demo_counted = (tsr.truncate (demo_loader
     \<lparr>hw = (), serrpc_seq = 7, serrpc_txbuf = replicate 524 0, serrpc_rxbuf = replicate 524 0, crc_st = crc_image,
      rstats = \<lparr>stat_tx_bytes = 1000, stat_rx_bytes = 9, stat_crc_errs = 2, stat_timeouts = 0, stat_retries = 1\<rparr>\<rparr>
     demo_core demo_vectors))\<lparr>glob_multiplexid := 0xFF\<rparr>"

theorem stats_reports_counters_witness:
  "\<exists>s'. main_prog demo_ops demo_code demo_uart [''SERDFS'', ''/STATS''] demo_running = (Exit 0, s') \<and>
     console s' = [Line (map of_char ''TX:1000 RX:9'' @ [0x0D, 0x0A]), Line (map of_char ''TO:0 RT:1 CE:2'' @ [0x0D, 0x0A])]"
proof -
  obtain e s' where m: "main_prog demo_ops demo_code demo_uart [''SERDFS'', ''/STATS''] demo_running = (e, s')" by fastforce
  have c: "rstats (link demo_counted) = \<lparr>stat_tx_bytes = 1000, stat_rx_bytes = 9, stat_crc_errs = 2,
      stat_timeouts = 0, stat_retries = 1\<rparr>" by (simp add: demo_counted_def demo_loader_def tsr.truncate_def)
  have at: "counters_at (mem demo_running) (0x5000, 0x10) (rstats (link demo_counted))"
    unfolding c counters_at_def
    by (simp add: fadd_def demo_loader_def)
      (simp add: demo_after_def seg_bytes_def demo_shared_def peek32_def peek16_def peek8_def lin_def fadd_def get_le16_def get_le32_def demo_ldrv)
  have l: "loaded_in (\<lambda>_ _ _ _ _. None) 0 0 demo_ops (dos demo_running) demo_counted (0x5000, 0x10)"
    by (rule demo_loaded) (simp_all add: demo_counted_def)
  have d: "dec_digits 1000 = [0x31, 0x30, 0x30, 0x30]" "dec_digits 9 = [0x39]" "dec_digits 2 = [0x32]"
    "dec_digits 0 = [0x30]" "dec_digits 1 = [0x31]"
    by (simp_all add: dec_digits.simps)
  have k: "console demo_running = []" by (simp add: demo_loader_def)
  show ?thesis
    using stats_reports_counters [OF demo_laws demo_parse(3) _ l _ at m] m d by (simp add: c k)
qed

end
