(* ===== verification/Sdf_Events.thy ===== *)
theory Sdf_Events
  imports Sdf_Entry Sdf_Lifecycle
begin

text \<open>
  The resident program as a state machine: the interrupts it has hooked are its transitions, and what
  DOS, other programs and the serial hardware do in between is one more, which may change memory
  and the hardware at will but not the statics. The invariant of the reachable states is proved by
  rule induction; with the installation before the first and \<open>/U\<close> after the last event it gives the
  life of a copy from start to end.
\<close>

section \<open>Transitions\<close>

datatype 'h event =
  Int2f byte u16 u16 u16 intpack
| Int28h
| Int1ch
| Elsewhere memory 'h

inductive resident_step :: "'h uart_ops \<Rightarrow> 'h event \<Rightarrow> 'h rpc_state tsr \<Rightarrow> 'h rpc_state tsr \<Rightarrow> bool"
  for ops :: "'h uart_ops" where
  int2f: "inthandler (serial_rpc ops) rst w ds off r s = Some (out, r', s') \<Longrightarrow>
    resident_step ops (Int2f rst w ds off r) s s'"
| int28h: "int28h_handler rstats s = (out, s') \<Longrightarrow> resident_step ops Int28h s s'"
| int1ch: "int1ch_handler s = (out, s') \<Longrightarrow> resident_step ops Int1ch s s'"
| elsewhere: "resident_step ops (Elsewhere m h) s (s\<lparr>mem := m, link := (link s)\<lparr>hw := h\<rparr>\<rparr>)"

inductive_cases resident_stepE: "resident_step ops e s s'"

inductive_simps resident_step_simps [simp]:
  "resident_step ops (Int2f rst w ds off r) s s'"
  "resident_step ops Int28h s s'"
  "resident_step ops Int1ch s s'"
  "resident_step ops (Elsewhere m h) s s'"

inductive resident_runs :: "'h uart_ops \<Rightarrow> 'h rpc_state tsr \<Rightarrow> 'h event list \<Rightarrow> 'h rpc_state tsr \<Rightarrow> bool"
  for ops :: "'h uart_ops" where
  runs_Nil: "resident_runs ops s [] s"
| runs_Cons: "resident_step ops e s s1 \<Longrightarrow> resident_runs ops s1 evs s2 \<Longrightarrow> resident_runs ops s (e # evs) s2"

inductive_simps resident_runs_simps [simp]:
  "resident_runs ops s [] s'"
  "resident_runs ops s (e # evs) s'"

section \<open>The invariant\<close>

text \<open>
  The configuration a copy is installed with: the data shared with the transient program, whether
  the status bar is on, the swap area and the multiplex number.
\<close>

definition config :: "'l tsr \<Rightarrow> tsrshareddata \<times> bool \<times> fp \<times> byte" where
  "config s = (glob_data s, stat_enabled s, glob_sdaptr s, glob_multiplexid s)"

definition bar_sane :: "'l tsr \<Rightarrow> bool" where
  "bar_sane s \<longleftrightarrow> (stat_dirty s \<longrightarrow> stat_enabled s)"

lemma render_frame:
  "status_render_if_safe c s = s \<or> (\<exists>m. status_render_if_safe c s = s\<lparr>stat_dirty := False, mem := m\<rparr>)"
  unfolding status_render_if_safe_def Let_def by simp blast

lemma render_fields:
  "link (status_render_if_safe c s) = link s" "config (status_render_if_safe c s) = config s"
  "tsr_ok k (status_render_if_safe c s) = tsr_ok k s" "stat_dirty (status_render_if_safe c s) \<Longrightarrow> stat_dirty s"
  using render_frame [of c s] by (auto simp: config_def tsr_ok_def)

lemma step_int2f:
  assumes "inthandler (serial_rpc ops) rst w ds off r s = Some (out, r', s')" "tsr_ok rpc_ok s"
  shows "tsr_ok rpc_ok s'" "statics s' = statics s"
  using resident.inthandler_inv [of "statics s" s ops rst w ds off r] assms
  by (auto simp: resident_ok_def ensures_def)

lemma resident_step_inv:
  assumes "resident_step ops e s s'" "tsr_ok rpc_ok s" "bar_sane s"
  shows "tsr_ok rpc_ok s' \<and> bar_sane s' \<and> config s' = config s"
  using assms(1)
proof (cases rule: resident_step.cases)
  case (int2f rst w ds off r out r')
  show ?thesis
    using step_int2f [OF int2f(2) assms(2)] assms(3) by (simp add: statics_def bar_sane_def config_def)
next
  case (int28h out)
  then show ?thesis
    using assms(2,3) render_fields [where s = s and c = rstats]
    by (auto simp: int28h_handler_def Let_def bar_sane_def config_def split: if_splits)
next
  case (int1ch out)
  then show ?thesis
    using assms(2,3) by (auto simp: int1ch_handler_def Let_def bar_sane_def config_def tsr_ok_def split: if_splits)
next
  case (elsewhere m h)
  then show ?thesis
    using assms(2,3) by (simp add: bar_sane_def config_def tsr_ok_def rpc_ok_def)
qed

lemma resident_runs_inv:
  "resident_runs ops s evs s' \<Longrightarrow> tsr_ok rpc_ok s \<Longrightarrow> bar_sane s \<Longrightarrow>
   tsr_ok rpc_ok s' \<and> bar_sane s' \<and> config s' = config s"
proof (induction rule: resident_runs.induct)
  case (runs_Cons e s s1 evs s2)
  then show ?case using resident_step_inv [OF runs_Cons(1)] by auto
qed simp

section \<open>What an installation leaves behind\<close>

definition buffers :: "('l, 'z) tsr_scheme \<Rightarrow> byte list \<times> byte list \<times> byte list \<times> byte \<times> bool" where
  "buffers s = (glob_req_payload s, glob_rep_payload s, dir_batch s, dir_batch_count s, stat_dirty s)"

lemma getcds_buffers: "getcds ops k s = (p, s') \<Longrightarrow> buffers s' = buffers s"
  unfolding getcds_def Let_def by (auto simp: buffers_def split: if_splits)

lemma check_drives_buffers: "check_drives ops is s = (e, s') \<Longrightarrow> buffers s' = buffers s"
proof (induction "is" arbitrary: s)
  case (Cons i "is")
  obtain p t where g: "getcds ops (of_nat i) s = (p, t)" by fastforce
  then show ?case using getcds_buffers [OF g] Cons by (auto simp: g split: if_splits)
qed simp

lemma mark_drives_buffers: "buffers (mark_drives ops is s) = buffers s"
proof (induction "is" arbitrary: s)
  case (Cons i "is")
  obtain p t where g: "getcds ops (of_nat i) s = (p, t)" by fastforce
  then show ?case using getcds_buffers [OF g] Cons by (simp add: g buffers_def)
qed simp

lemma install_checks_buffers: "install_checks ops s = (e, s') \<Longrightarrow> buffers s' = buffers s"
  by (auto simp: install_checks_def findfreemultiplex_def Let_def buffers_def dest!: check_drives_buffers
      split: prod.splits if_splits simp del: upt_rec_numeral)

lemma patch_buffers: "patchhandlerds h sg s = (ok, s') \<Longrightarrow> buffers s' = buffers s"
  by (auto simp: patchhandlerds_def buffers_def split: option.splits)

lemma install_status_buffers: "buffers (install_status ops code s) = buffers s"
  by (auto simp: install_status_def Let_def dest!: patch_buffers split: prod.splits) (simp_all add: buffers_def)

lemma install_segment_buffers: "install_segment ops code s = (None, s') \<Longrightarrow> buffers s' = buffers s"
  by (auto simp: install_segment_def allocseg_def updatetsrds_def freeseg_def Let_def
      dest!: patch_buffers split: prod.splits if_splits) (simp_all add: buffers_def)

lemma install_buffers:
  assumes "main_install ops code u a s = (StayResident n, s')"
  shows "buffers s' = buffers s"
proof -
  obtain s1 s2 where c: "install_checks ops s = (None, s1)" and g: "install_segment ops code s1 = (None, s2)"
    and f: "(StayResident n, s') = go_resident ops code (install_report a (mark_drives ops [0..<26]
       (install_statics ops u a (if argflags a AND ARGFL_STATUS \<noteq> 0 then install_status ops code s2 else s2))))"
    by (rule main_install_phases [OF assms])
  define s3 where "s3 = (if argflags a AND ARGFL_STATUS \<noteq> 0 then install_status ops code s2 else s2)"
  define s5 where "s5 = mark_drives ops [0..<26] (install_statics ops u a s3)"
  have "buffers s5 = buffers s3"
    unfolding s5_def mark_drives_buffers by (simp add: install_statics_def buffers_def Let_def)
  also have "\<dots> = buffers s"
    using install_status_buffers [of ops code s2] install_segment_buffers [OF g] install_checks_buffers [OF c]
    by (simp add: s3_def)
  finally have s5: "buffers s5 = buffers s" .
  obtain k where k: "install_report a s5 = s5\<lparr>console := k\<rparr>" using install_report_frame by blast
  have "(StayResident n, s') = go_resident ops code (s5\<lparr>console := k\<rparr>)"
    unfolding f s3_def [symmetric] s5_def [symmetric] k by (rule refl)
  then have "buffers s' = buffers s5"
    by (auto simp: go_resident_def Let_def restore_vect_def freeseg_def buffers_def)
  then show ?thesis using s5 by simp
qed

text \<open>An installation on fresh statics leaves a well-formed resident state behind.\<close>

definition fresh_image :: "('h rpc_state, 'd) loader \<Rightarrow> bool" where
  "fresh_image s \<longleftrightarrow> rpc_ok (link s) \<and> length (glob_req_payload s) = 512 \<and> length (glob_rep_payload s) = 512 \<and>
     length (dir_batch s) = 506 \<and> dir_batch_count s = 0 \<and> \<not> stat_dirty s \<and> \<not> stat_enabled s \<and> cds_ok s = -1"

definition uart_start :: "'h uart_ops \<Rightarrow> u16 \<Rightarrow> u16 \<Rightarrow> 'h rpc_state \<Rightarrow> 'h rpc_state" where
  "uart_start hwops port dv l = l\<lparr>hw := seruart_init hwops port dv (hw l)\<rparr>"

lemma truncate_fields [simp]:
  "glob_data (tsr.truncate s) = glob_data s" "glob_multiplexid (tsr.truncate s) = glob_multiplexid s"
  "stat_dirty (tsr.truncate s) = stat_dirty s" "stat_enabled (tsr.truncate s) = stat_enabled s"
  "link (tsr.truncate s) = link s" "buffers (tsr.truncate s) = buffers s"
  by (simp_all add: tsr.truncate_def buffers_def)

lemma tsr_ok_buffers:
  "tsr_ok k s \<longleftrightarrow> k (link s) \<and> length (ldrv (glob_data s)) = 26 \<and>
     (case buffers s of (q, p, b, n, d) \<Rightarrow> length q = 512 \<and> length p = 512 \<and> length b = 506 \<and> unat n \<le> 22)"
  by (auto simp: tsr_ok_def buffers_def)

lemma installed_ok:
  assumes "dos_laws ops" "main_prog ops code (uart_start hwops) argv s = (StayResident n, s')"
    and "fresh_image s" "code_apart code (cds_dir s')"
  shows "tsr_ok rpc_ok (tsr.truncate s') \<and> bar_sane (tsr.truncate s')"
proof -
  obtain rc a where a: "parseargv argv args_start = (rc, a)" by fastforce
  note f = stays_resident [OF assms(2) a]
  obtain d where i: "(if argflags a AND ARGFL_UNLOAD \<noteq> 0 then main_unload ops a else main_install ops code (uart_start hwops) a)
      (s\<lparr>glob_data := (glob_data s)\<lparr>ldrv := drive_map a\<rparr>, dos := d\<rparr>) = (StayResident n, s')"
    by (rule main_prog_start [OF assms(2) a [unfolded f(1)] f(2) assms(1)]) simp
  let ?s = "s\<lparr>glob_data := (glob_data s)\<lparr>ldrv := drive_map a\<rparr>, dos := d\<rparr>"
  from i have i: "main_install ops code (uart_start hwops) a ?s = (StayResident n, s')"
    by (simp only: f(3) simp_thms if_False)
  have fresh: "cds_ok ?s = -1" "\<not> stat_enabled ?s" using assms(3) by (simp_all add: fresh_image_def)
  have b: "buffers s' = buffers ?s" using install_buffers [OF i] .
  have "length (drive_map a) = 26"
    using parseargv_ok [of argv a] a f by (simp add: args_ok_def)
  moreover have "ldrv (glob_data s') = drive_map a" "rpc_ok (link s')"
    using install_effect(5) [OF assms(1) i fresh assms(4)] assms(3)
    by (simp_all add: uart_start_def rpc_ok_def fresh_image_def)
  ultimately show ?thesis
    using b assms(3) by (simp add: tsr_ok_buffers bar_sane_def) (simp add: buffers_def fresh_image_def)
qed

text \<open>The queries of the transient program see no more of a copy than its multiplex number.\<close>

lemma loaded_in_same:
  assumes "loaded_in rpc rst w ops d rs t" "glob_multiplexid rs' = glob_multiplexid rs"
  shows "loaded_in rpc' rst' w' ops d rs' t"
proof -
  have c: "0xC0 \<le> glob_multiplexid rs" using assms(1) by (simp add: loaded_in_def)
  have q: "\<exists>z. inthandler rpc rst w (fst t) (snd t) r rs = Some (Return, r', z)"
    if "reg_ah r = glob_multiplexid rs" "inthandler rpc' rst' w' (fst t) (snd t) r rs' = Some (Return, r', rs2)" for r r' rs2
  proof -
    have "not_redirector r" using that(1) c by (auto simp: not_redirector_def)
    then show ?thesis using that assms(2) by (auto simp: inthandler_def Let_def split: if_splits)
  qed
  show ?thesis
    using assms q unfolding loaded_in_def by metis
qed

section \<open>The bar is redrawn\<close>

definition drawable :: "'l tsr \<Rightarrow> bool" where
  "drawable s \<longleftrightarrow> peek8 (mem s) (indos (glob_data s)) = 0 \<and> peek8 (mem s) (0x40, 0x49) = 3"

lemma int28h_draws:
  assumes "int28h_handler counters s = (out, s')" "stat_dirty s" "stat_enabled s" "drawable s"
  shows "\<not> stat_dirty s' \<and> peek_bytes (mem s') status_row 160 = vga_cells (bar_row (counters (link s)))"
proof -
  have "s' = s\<lparr>stat_dirty := False, mem := poke_bytes (mem s) status_row (vga_cells (bar_row (counters (link s))))\<rparr>"
    using assms status_render_eq [of s counters] by (simp add: int28h_handler_def Let_def drawable_def)
  then show ?thesis
    using peek_poke_bytes_same [of status_row "vga_cells (bar_row (counters (link s)))" "mem s"]
    by (simp add: fits_def status_row_def)
qed

text \<open>A refresh that is due stays due until it is drawn.\<close>

lemma dirty_persists:
  assumes "resident_step ops e s s'" "tsr_ok rpc_ok s" "stat_dirty s" "\<not> (e = Int28h \<and> drawable s)"
  shows "stat_dirty s'"
  using assms(1)
proof (cases rule: resident_step.cases)
  case (int2f rst w ds off r out r')
  then show ?thesis using step_int2f(2) [OF int2f(2) assms(2)] assms(3) by (simp add: statics_def)
next
  case (int28h out)
  then show ?thesis
    using assms(3,4) by (auto simp: int28h_handler_def Let_def drawable_def status_render_if_safe_def split: if_splits)
next
  case (int1ch out)
  then show ?thesis using assms(3) by (auto simp: int1ch_handler_def Let_def split: if_splits)
qed (use assms in auto)

section \<open>Properties\<close>

text \<open>
  C10: in every state that a well-formed copy reaches by any sequence of interrupts, with arbitrary
  changes of memory and hardware in between, the statics are well formed, a refresh of the status
  bar is due only if the bar is on, and the configuration, the saved vectors and the drive map among
  it, is the one it started with.
\<close>

theorem reachable_states_sound:
  assumes "resident_runs ops s evs s'" "tsr_ok rpc_ok s" "bar_sane s"
  shows "tsr_ok rpc_ok s' \<and> bar_sane s' \<and> config s' = config s"
  using resident_runs_inv [OF assms] .

theorem reachable_states_sound_witness:
  "\<exists>s'. resident_runs (line_ops ping_peer) (demo_on line_start 0 0 (0, 0) 0) [Int1ch, Int28h, Elsewhere (\<lambda>_. 0) (hw line_start)] s' \<and>
     tsr_ok rpc_ok s'"
proof -
  let ?s = "demo_on line_start 0 0 (0, 0) 0"
  have ok: "tsr_ok rpc_ok ?s" "bar_sane ?s" using line_start_ok by (simp_all add: tsr_ok_def bar_sane_def demo_on_def)
  obtain s' where r: "resident_runs (line_ops ping_peer) ?s [Int1ch, Int28h, Elsewhere (\<lambda>_. 0) (hw line_start)] s'"
    by (auto simp: int1ch_handler_def int28h_handler_def Let_def)
  show ?thesis using reachable_states_sound [OF r ok] r by blast
qed

text \<open>
  C12: with the status bar on, a timer tick makes a redraw due, it stays due whatever other interrupts
  and changes happen, and the first idle interrupt after the tick that finds DOS idle and the screen in
  text mode draws the bar, with the counters of that moment. No idle interrupt that could draw is
  passed over.
\<close>

theorem tick_leads_to_redraw:
  assumes "\<forall>i \<le> k. resident_step ops (ev i) (st i) (st (Suc i))" "tsr_ok rpc_ok (st 0)" "bar_sane (st 0)"
    and "stat_enabled (st 0)" "ev n = Int1ch" "n < k" "ev k = Int28h" "drawable (st k)"
    and "\<forall>j. n < j \<and> j < k \<longrightarrow> \<not> (ev j = Int28h \<and> drawable (st j))"
  shows "(\<forall>j. n < j \<and> j \<le> k \<longrightarrow> stat_dirty (st j)) \<and> \<not> stat_dirty (st (Suc k)) \<and>
    peek_bytes (mem (st (Suc k))) status_row 160 = vga_cells (bar_row (rstats (link (st k))))"
proof -
  have inv: "tsr_ok rpc_ok (st i) \<and> bar_sane (st i) \<and> stat_enabled (st i)" if "i \<le> Suc k" for i
    using that
  proof (induction i)
    case (Suc i)
    then show ?case using resident_step_inv [of ops "ev i" "st i" "st (Suc i)"] assms(1) by (simp add: config_def)
  qed (use assms in simp)
  have dirty: "stat_dirty (st (Suc n + j))" if "Suc n + j \<le> k" for j
    using that
  proof (induction j)
    case 0
    have "resident_step ops Int1ch (st n) (st (Suc n))" using assms(1,5,6) by (metis less_imp_le)
    then have "st (Suc n) = st n\<lparr>stat_dirty := True\<rparr>"
      using inv [of n] assms(6) by (simp add: int1ch_handler_def Let_def)
    then show ?case by simp
  next
    case (Suc j)
    then show ?case
      using dirty_persists [of ops "ev (Suc n + j)" "st (Suc n + j)" "st (Suc n + Suc j)"] assms(1)
        inv [of "Suc n + j"] assms(9) by simp
  qed
  have all: "stat_dirty (st j)" if "n < j" "j \<le> k" for j
    using dirty [of "j - Suc n"] that by simp
  have "resident_step ops Int28h (st k) (st (Suc k))" using assms(1,7) by (metis order.refl)
  then show ?thesis
    using int28h_draws [of rstats "st k" _ "st (Suc k)"] inv [of k] all assms(6,8) by auto
qed

text \<open>A machine that ticks and idles in turn, its bar on the screen.\<close>

definition demo_bar :: "line rpc_state tsr" where
  "demo_bar = (demo_on line_start 0 0 (0, 0) 0)\<lparr>stat_enabled := True,
     mem := poke_bytes (\<lambda>a. if a = 0x449 then 3 else 0) status_row (vga_cells (bar_row (rstats line_start)))\<rparr>"

lemma demo_bar_fields [simp]:
  "link demo_bar = line_start" "stat_enabled demo_bar" "\<not> stat_dirty demo_bar" "indos (glob_data demo_bar) = (0, 0)"
  "mem demo_bar = poke_bytes (\<lambda>a. if a = 0x449 then 3 else 0) status_row (vga_cells (bar_row (rstats line_start)))"
  "tsr_ok rpc_ok demo_bar"
  using line_start_ok by (simp_all add: demo_bar_def demo_on_def tsr_ok_def)

lemma demo_bar_draws: "drawable (demo_bar\<lparr>stat_dirty := d\<rparr>)"
  by (simp add: drawable_def peek8_def poke_bytes_at fits_def status_row_def lin_def)

lemma demo_bar_idle: "int28h_handler rstats (demo_bar\<lparr>stat_dirty := True\<rparr>) = (Chain (prev_int28h (glob_data demo_bar)), demo_bar)"
proof -
  let ?c = "vga_cells (bar_row (rstats line_start))"
  have p: "poke_bytes (mem demo_bar) status_row ?c = mem demo_bar"
    by (simp add: poke_poke_same fits_def status_row_def)
  have "demo_bar\<lparr>stat_dirty := False\<rparr> = demo_bar" by (simp add: demo_bar_def demo_on_def)
  then show ?thesis
    using status_render_eq [of "demo_bar\<lparr>stat_dirty := True\<rparr>" rstats] demo_bar_draws [of True] p
    by (simp add: int28h_handler_def Let_def drawable_def)
qed

theorem tick_leads_to_redraw_witness:
  "\<exists>st :: nat \<Rightarrow> line rpc_state tsr. resident_step (line_ops ping_peer) Int1ch (st 0) (st 1) \<and> resident_step (line_ops ping_peer) Int28h (st 1) (st 2) \<and>
     stat_dirty (st 1) \<and> peek_bytes (mem (st 2)) status_row 160 = vga_cells (bar_row (rstats line_start))"
proof -
  let ?ev = "\<lambda>i :: nat. if even i then Int1ch else Int28h :: line event" and ?st = "\<lambda>i :: nat. demo_bar\<lparr>stat_dirty := odd i\<rparr>"
  have idle: "demo_bar\<lparr>stat_dirty := False\<rparr> = demo_bar" by (simp add: demo_bar_def demo_on_def)
  have step: "\<forall>i \<le> 1. resident_step (line_ops ping_peer) (?ev i) (?st i) (?st (Suc i))"
    using demo_bar_idle by (simp add: int1ch_handler_def Let_def idle)
  have start: "tsr_ok rpc_ok (?st 0)" "bar_sane (?st 0)" "stat_enabled (?st 0)"
    by (simp_all add: idle bar_sane_def)
  have ev: "?ev 0 = Int1ch" "(0 :: nat) < 1" "?ev 1 = Int28h" "drawable (?st 1)"
    "\<forall>j :: nat. 0 < j \<and> j < 1 \<longrightarrow> \<not> (?ev j = Int28h \<and> drawable (?st j))"
    using demo_bar_draws by simp_all
  have "(\<forall>j. 0 < j \<and> j \<le> 1 \<longrightarrow> stat_dirty (?st j)) \<and> \<not> stat_dirty (?st (Suc 1)) \<and>
    peek_bytes (mem (?st (Suc 1))) status_row 160 = vga_cells (bar_row (rstats (link (?st 1))))"
    by (rule tick_leads_to_redraw [OF step start ev])
  then have "peek_bytes (mem (?st 2)) status_row 160 = vga_cells (bar_row (rstats line_start))"
    by (simp add: numeral_2_eq_2)
  then show ?thesis using step [rule_format, of 0] step [rule_format, of 1]
    by (intro exI [of _ ?st]) (simp add: numeral_2_eq_2)
qed

text \<open>
  C34: the whole life of a copy. After an installation, any sequence of interrupts and outside
  changes, and an unloading that finds the copy: all the time in between the resident state is well
  formed and its configuration is the one the installation left; and in the end every interrupt
  vector the installation has taken, INT 2Fh and with the status bar INT 28h and 1Ch, is as it was
  before it, and every other vector is as it was when \<open>/U\<close> was run. Other programs may have changed any vector in
  between, as long as the copy still answers on INT 2Fh.
\<close>

theorem session_restores_vectors:
  assumes "dos_laws ops" "main_prog ops code (uart_start hwops) argv s = (StayResident n, s')"
    and "fresh_image s" "code_apart code (cds_dir s')" "prev_int28h (glob_data s) = NULL" "prev_int1ch (glob_data s) = NULL"
    and "get_vect ops 0x28 (dos s) \<noteq> NULL" "get_vect ops 0x1C (dos s) \<noteq> NULL"
    and "resident_runs hwops (tsr.truncate s') evs t"
    and "main_prog ops code u argv' v = (Exit 0, v')" "parseargv argv' args_start = (0, a)"
    and "argflags a AND ARGFL_UNLOAD \<noteq> 0" "argflags a AND ARGFL_STATS = 0"
    and "loaded_in rpc rst w ops (dos v) t p" "fst p \<noteq> 0xFFFF" "shared_at (mem v) p (glob_data t)"
  shows "tsr_ok rpc_ok t \<and> config t = config (tsr.truncate s') \<and>
    (\<forall>m. get_vect ops m (dos v') =
       (if m = 0x2F \<or> (stat_enabled t \<and> (m = 0x28 \<or> m = 0x1C)) then get_vect ops m (dos s)
        else get_vect ops m (dos v)))"
proof -
  note ok = installed_ok [OF assms(1-4)]
  have t: "tsr_ok rpc_ok t" "config t = config (tsr.truncate s')"
    using resident_runs_inv [OF assms(9)] ok by simp_all
  have l: "loaded_in rpc rst w ops (dos v) (tsr.truncate s') p"
    by (rule loaded_in_same [OF assms(14)]) (use t(2) in \<open>simp add: config_def\<close>)
  have g: "shared_at (mem v) p (glob_data s')" using assms(16) t(2) by (simp add: config_def)
  have f: "cds_ok s = -1" "\<not> stat_enabled s" using assms(3) by (simp_all add: fresh_image_def)
  have "get_vect ops m (dos v') =
      (if m \<in> taken_vectors (tsr.truncate s') then get_vect ops m (dos s) else get_vect ops m (dos v))" for m
    by (rule install_unload_roundtrip [OF assms(1,2) f assms(4-8,10-13) l assms(15) g])
  moreover have "stat_enabled t = stat_enabled (tsr.truncate s')" using t(2) by (simp add: config_def)
  ultimately show ?thesis using t by (auto simp: taken_vectors_def)
qed

theorem session_restores_vectors_witness:
  "\<exists>s' t v'. main_prog demo_ops demo_code (uart_start (line_ops ping_peer)) [''SERDFS'', ''C-X'', ''/COM1'', ''/STATUS'']
       (demo_loader line_start demo_core demo_vectors) = (StayResident 528, s') \<and>
     resident_runs (line_ops ping_peer) (tsr.truncate s') [Int1ch, Elsewhere demo_after (hw line_start)] t \<and>
     main_prog demo_ops demo_code demo_uart [''SERDFS'', ''/U''] demo_running = (Exit 0, v') \<and>
     config t = config (tsr.truncate s') \<and> get_vect demo_ops 0x1C (dos v') = (0xF000, 5)"
proof -
  let ?l = "demo_loader line_start demo_core demo_vectors" and ?ops = "line_ops ping_peer"
  obtain s' where r: "main_prog demo_ops demo_code (uart_start ?ops) [''SERDFS'', ''C-X'', ''/COM1'', ''/STATUS''] ?l = (StayResident 528, s')"
    and s': "cds_dir s' = (0x90, 0)" "glob_multiplexid s' = 0xFF" "glob_data s' = demo_resident" "stat_enabled s'"
    by (rule demo_installs)
  obtain v' where u: "main_prog demo_ops demo_code demo_uart [''SERDFS'', ''/U''] demo_running = (Exit 0, v')"
    by (rule demo_unloads)
  obtain t where t: "resident_runs ?ops (tsr.truncate s') [Int1ch, Elsewhere demo_after (hw line_start)] t"
    "glob_multiplexid t = 0xFF" "glob_data t = demo_resident" "stat_enabled t"
    using s'(2-4) by (auto simp: int1ch_handler_def Let_def)
  have "fresh_image ?l" using line_start_ok by (simp add: fresh_image_def demo_loader_def)
  moreover have "loaded_in (\<lambda>_ _ _ _ _. None) 0 0 demo_ops (dos demo_running) t (0x5000, 0x10)"
    by (rule demo_loaded) (simp_all add: t(2))
  ultimately have "tsr_ok rpc_ok t \<and> config t = config (tsr.truncate s') \<and>
    (\<forall>m. get_vect demo_ops m (dos v') =
       (if m = 0x2F \<or> (stat_enabled t \<and> (m = 0x28 \<or> m = 0x1C)) then get_vect demo_ops m (dos ?l)
        else get_vect demo_ops m (dos demo_running)))"
    by (intro session_restores_vectors [OF demo_laws r _ _ _ _ _ _ t(1) u demo_parse(2)])
      (assumption | simp add: demo_shared_at s' t(3) |
       simp add: demo_loader_def code_apart_def demo_code_def fits_def demo_ops_def demo_vectors_def)+
  then have c: "config t = config (tsr.truncate s')" "get_vect demo_ops 0x1C (dos v') = get_vect demo_ops 0x1C (dos ?l)"
    using t(4) by simp_all
  then show ?thesis using r t(1) u by (auto simp: demo_loader_def demo_ops_def demo_vectors_def)
qed

end
