(* ===== verification/Sdf_Wire.thy ===== *)
theory Sdf_Wire
  imports Sdf_Entry
begin

text \<open>
  The server behind the line: it reads what is transmitted, answers a request when its frame is
  complete, and keeps a state of its own. Against it the remote call is the application of the server's
  function, and a READ or WRITE of DOS, from the interrupt to the bytes on the wire, reads or writes
  the server's file.
\<close>

section \<open>The server\<close>

type_synonym 'd daemon = "byte \<Rightarrow> byte list \<Rightarrow> 'd \<Rightarrow> byte \<times> byte list \<times> 'd"

definition complete :: "byte list \<Rightarrow> bool" where
  "complete bs \<longleftrightarrow> 12 \<le> length bs \<and> length bs = 12 + unat (get_le16 (bs ! 8) (bs ! 9))"

definition daemon_step :: "'d daemon \<Rightarrow> 'd \<Rightarrow> byte list \<Rightarrow> (byte list \<times> 'd) option" where
  "daemon_step D d bs =
     (if complete bs then let (st, rp, d') = D (bs ! 5) (take (length bs - 12) (drop 10 bs)) d in Some (frame_wire (bs ! 5) (bs ! 4) 0 st rp, d')
      else None)"

definition served_ops :: "'d daemon \<Rightarrow> (line \<times> 'd) uart_ops" where
  "served_ops D = \<lparr>hw_inp = \<lambda>p (l, d). apsnd (\<lambda>l. (l, d)) (line_inp p l),
     hw_outp = \<lambda>p b (l, d). if p AND 7 = UART_THR
       then (case daemon_step D d (txq l @ [b]) of None \<Rightarrow> (l\<lparr>txq := txq l @ [b]\<rparr>, d)
             | Some (r, d') \<Rightarrow> (l\<lparr>txq := [], rxq := rxq l @ r\<rparr>, d'))
       else (l, d),
     hw_ticks = \<lambda>(l, d). apsnd (\<lambda>l. (l, d)) (line_ticks l)\<rparr>"

interpretation served: line_like "served_ops D" "\<lambda>l. (l, d)" for D :: "'d daemon" and d
  by unfold_locales (simp_all add: served_ops_def seruart_ticks_def line_ticks_def)

lemma served_outp:
  "com_port p \<Longrightarrow> hw_outp (served_ops D) (com_base p) b (l, d) =
     (case daemon_step D d (txq l @ [b]) of None \<Rightarrow> (l\<lparr>txq := txq l @ [b]\<rparr>, d)
      | Some (r, d') \<Rightarrow> (l\<lparr>txq := [], rxq := rxq l @ r\<rparr>, d'))"
  by (simp add: served_ops_def)

lemma wire_header:
  assumes "length pl \<le> 512"
  shows "frame_wire cmd sq fl st pl ! 5 = cmd" "frame_wire cmd sq fl st pl ! 4 = sq"
    "unat (get_le16 (frame_wire cmd sq fl st pl ! 8) (frame_wire cmd sq fl st pl ! 9)) = length pl"
  using frame_at_wire [OF assms, of cmd sq fl st "[]"] by (simp_all add: hdr_at_def)

lemma frame_pending: "length pl \<le> 512 \<Longrightarrow> j < 12 + length pl \<Longrightarrow> daemon_step D d (take j (frame_wire cmd sq fl st pl)) = None"
proof -
  assume a: "length pl \<le> 512" "j < 12 + length pl"
  have "\<not> complete (take j (frame_wire cmd sq fl st pl))"
  proof
    assume "complete (take j (frame_wire cmd sq fl st pl))"
    moreover have len: "length (take j (frame_wire cmd sq fl st pl)) = j" using a(2) by simp
    ultimately have j: "12 \<le> j" "j = 12 + unat (get_le16 (take j (frame_wire cmd sq fl st pl) ! 8) (take j (frame_wire cmd sq fl st pl) ! 9))"
      unfolding complete_def len by blast+
    have t: "take j (frame_wire cmd sq fl st pl) ! 8 = frame_wire cmd sq fl st pl ! 8"
      "take j (frame_wire cmd sq fl st pl) ! 9 = frame_wire cmd sq fl st pl ! 9" using j(1) by simp_all
    from j(2) have "j = 12 + unat (get_le16 (frame_wire cmd sq fl st pl ! 8) (frame_wire cmd sq fl st pl ! 9))"
      unfolding t .
    then show False using a wire_header(3) [of pl cmd sq fl st] by simp
  qed
  then show ?thesis by (simp add: daemon_step_def)
qed

lemma frame_served:
  assumes "length pl \<le> 512" "D cmd pl d = (st', rp, d')"
  shows "daemon_step D d (frame_wire cmd sq fl st pl) = Some (frame_wire cmd sq 0 st' rp, d')"
proof -
  have "take (length pl) (drop 10 (frame_wire cmd sq fl st pl)) = pl" by (simp add: frame_wire_def frame_body_def)
  then show ?thesis using assms wire_header [OF assms(1)] by (simp add: daemon_step_def complete_def)
qed

section \<open>The call is the server's function\<close>

definition idle :: "(line \<times> 'd) rpc_state \<Rightarrow> bool" where
  "idle s \<longleftrightarrow> rpc_ok s \<and> txq (fst (hw s)) = [] \<and> rxq (fst (hw s)) = []"

abbreviation server :: "(line \<times> 'd) rpc_state \<Rightarrow> 'd" where
  "server s \<equiv> snd (hw s)"

lemma frame_encode_prefix:
  "plen \<le> length payload \<Longrightarrow> frame_encode cmd sq fl st payload plen out c = frame_encode cmd sq fl st (take plen payload) plen out c"
  using copy_at_append [of plen "take plen payload" _ 10 "drop plen payload"] by (simp add: frame_encode_def)

lemma serial_rpc_prefix:
  "plen \<le> length payload \<Longrightarrow> serial_rpc ops port cmd payload plen s = serial_rpc ops port cmd (take plen payload) plen s"
  unfolding serial_rpc_def by (subst frame_encode_prefix) simp_all

lemma served_send:
  assumes "com_port p" "length pl \<le> 512" "txq l = []" "D cmd pl d = (st', rp, d')" "12 + length pl \<le> length buf"
    and w: "take (12 + length pl) buf = frame_wire cmd sq fl st pl"
  shows "\<exists>c. seruart_send_block (served_ops D) p buf (12 + length pl) (l, d) =
    Some (l\<lparr>rxq := rxq l @ frame_wire cmd sq 0 st' rp, txq := [], clock := c\<rparr>, d')"
proof -
  let ?n = "12 + length pl"
  have pre: "take j buf = take j (frame_wire cmd sq fl st pl)" if "j \<le> ?n" for j
    using that by (simp add: min_def flip: w)
  have quiet: "hw_outp (served_ops D) (com_base p) (buf ! k) (l\<lparr>txq := txq l @ take k buf, clock := c\<rparr>, d) =
      (l\<lparr>txq := txq l @ take (Suc k) buf, clock := c\<rparr>, d)" if "Suc k < ?n" for k c
    using that assms(1-3,5) frame_pending [of pl "Suc k" D d cmd sq fl st] pre [of "Suc k"]
    by (simp add: served_outp take_nth_Suc [of k buf])
  obtain c where "seruart_send_block (served_ops D) p buf ?n (l, d) =
      Some (hw_outp (served_ops D) (com_base p) (buf ! (?n - 1)) (l\<lparr>txq := txq l @ take (?n - 1) buf, clock := c\<rparr>, d))"
    using served.like_send_last [where l = l and D = D and d = d, OF assms(1) _ assms(5)] quiet by auto
  moreover have "take (?n - 1) buf @ [buf ! (?n - 1)] = frame_wire cmd sq fl st pl"
    using assms(5) take_nth_Suc [of "?n - 1" buf] by (simp flip: w)
  ultimately show ?thesis
    using assms(1,3) frame_served [where D = D and cmd = cmd and d = d, OF assms(2,4)] by (auto simp: served_outp intro!: exI [of _ c])
qed

lemma served_call:
  assumes "com_port port" "idle s" "length req \<le> 512" "D cmd req (server s) = (st, rp, d')" "length rp \<le> 512"
  shows "\<exists>s'. serial_rpc (served_ops D) port cmd req (length req) s = Some (SERRPC_OK st rp, s') \<and> idle s' \<and> server s' = d' \<and>
    serrpc_seq s' = next_seq (serrpc_seq s) \<and> rstats s' = count_rx (12 + length rp) (count_tx (12 + length req) (rstats s))"
proof -
  let ?sq = "next_seq (serrpc_seq s)" and ?n = "12 + length req"
  let ?w = "frame_wire cmd ?sq 0 0 req"
  obtain l d where h: "hw s = (l, d)" by fastforce
  have i: "rpc_ok s" "txq l = []" "rxq l = []" "D cmd req d = (st, rp, d')" using assms(2,4) h by (simp_all add: idle_def)
  obtain c where c: "crc_ok c" and enc: "frame_encode cmd ?sq 0 0 req (length req) (serrpc_txbuf s) (crc_st s) =
     (?n, ?w @ drop ?n (serrpc_txbuf s), c)"
    using frame_encode_spec [of "crc_st s" "length req" req "serrpc_txbuf s" cmd ?sq 0 0] i(1) assms(3) by (auto simp: rpc_ok_def)
  let ?tx = "?w @ drop ?n (serrpc_txbuf s)"
  let ?s = "s\<lparr>serrpc_seq := ?sq, serrpc_txbuf := ?tx, crc_st := c\<rparr>"
  have tx: "take ?n ?tx = ?w" "?n \<le> length ?tx" by simp_all
  obtain cl where send: "seruart_send_block (served_ops D) port ?tx ?n (l, d) =
      Some (l\<lparr>rxq := rxq l @ frame_wire cmd ?sq 0 st rp, txq := [], clock := cl\<rparr>, d')"
    using served_send [where D = D and sq = ?sq, OF assms(1,3) i(2,4) tx(2,1)] by blast
  have drain: "seruart_drain (served_ops D) port (l, d) = (l, d)"
    using served.like_drain [where D = D and n = 64 and l = l and d = d, OF assms(1)] i(3) by (simp add: seruart_drain_def empty_queue)
  let ?s1 = "?s\<lparr>hw := (l\<lparr>rxq := frame_wire cmd ?sq 0 st rp, txq := [], clock := cl\<rparr>, d'), rstats := count_tx ?n (rstats s)\<rparr>"
  have sent: "rpc_send (served_ops D) port ?n 0 ?s = Some ?s1"
    using send drain i(3) by (simp add: rpc_send_def h Let_def)
  have ok: "rpc_ok ?s1" using i(1) c assms(3) by (simp add: rpc_ok_def)
  obtain s' k where r: "rpc_receive (served_ops D) port ?s1 = Some (Reply st rp, s')" "rpc_ok s'" "serrpc_seq s' = ?sq"
    "hw s' = (l\<lparr>txq := [], rxq := [], clock := k\<rparr>, d')" "rstats s' = count_rx (12 + length rp) (count_tx ?n (rstats s))"
    using served.like_receive [where D = D and s = ?s1 and d = d' and rp = rp and rest = "[]" and cmd' = cmd and fl = 0 and st = st
        and l = "l\<lparr>rxq := frame_wire cmd ?sq 0 st rp, txq := [], clock := cl\<rparr>", OF assms(1) ok assms(5)] by auto
  have "rpc_attempt (served_ops D) port ?n 0 ?s = Some (Reply st rp, s')"
    using sent r(1) by (simp add: rpc_attempt_def)
  then have "serial_rpc (served_ops D) port cmd req (length req) s = Some (SERRPC_OK st rp, s')"
    using enc by (simp add: serial_rpc_def Let_def numeral_eq_Suc)
  then show ?thesis using r by (simp add: idle_def)
qed

lemma served_answers:
  assumes "com_port port" "idle s" "length req \<le> 512" "D cmd req (server s) = (st, rp, d')" "length rp \<le> 512"
  shows "\<exists>s'. answers (serial_rpc (served_ops D)) port cmd req s (SERRPC_OK st rp, s') \<and> idle s' \<and> server s' = d'"
  using served_call [of port s req D cmd st rp d'] assms serial_rpc_prefix [where payload = b and plen = "length req" for b]
  unfolding answers_def by metis

section \<open>Files behind the line\<close>

definition serves_file :: "'d daemon \<Rightarrow> byte \<Rightarrow> ('d \<Rightarrow> byte list) \<Rightarrow> bool" where
  "serves_file D hid file \<longleftrightarrow>
     (\<forall>d cnt off. cnt \<le> 512 \<longrightarrow> D CMD_READ (hid # le16 cnt @ le32 off) d =
        (STATUS_OK, take (unat cnt) (drop (unat off) (file d)), d)) \<and>
     (\<forall>d bs. length bs \<le> 511 \<longrightarrow> (\<exists>d'. D CMD_WRITE (hid # bs) d = (STATUS_OK, [], d') \<and> file d' = file d @ bs))"

lemma wire_reads:
  assumes "com_port port" "serves_file D hid file"
  shows "serves_reads (serial_rpc (served_ops D)) port hid F (\<lambda>s. idle s \<and> file (server s) = F)"
  unfolding serves_reads_def
proof (intro allI impI)
  fix s :: "(line \<times> 'a) rpc_state" and cnt :: u16 and off :: u32
  assume s: "idle s \<and> file (server s) = F" and c: "cnt \<le> 512"
  then have "D CMD_READ (hid # le16 cnt @ le32 off) (server s) = (STATUS_OK, take (unat cnt) (drop (unat off) F), server s)"
    using assms(2) by (simp add: serves_file_def)
  moreover have "unat cnt \<le> 512" using c by (simp add: word_le_nat_alt)
  ultimately show "\<exists>s'. (idle s' \<and> file (server s') = F) \<and> answers (serial_rpc (served_ops D)) port CMD_READ (hid # le16 cnt @ le32 off) s
      (SERRPC_OK STATUS_OK (take (unat cnt) (drop (unat off) F)), s')"
    using served_answers [OF assms(1), of s "hid # le16 cnt @ le32 off" D CMD_READ] s by (fastforce simp: le16_def le32_def)
qed

lemma wire_writes:
  assumes "com_port port" "serves_file D hid file"
  shows "serves_writes (serial_rpc (served_ops D)) port hid (\<lambda>s. file (server s)) idle"
  unfolding serves_writes_def
proof (intro allI impI)
  fix s :: "(line \<times> 'a) rpc_state" and bs :: "byte list"
  assume s: "idle s" and b: "length bs \<le> 511"
  obtain d' where d: "D CMD_WRITE (hid # bs) (server s) = (STATUS_OK, [], d')" "file d' = file (server s) @ bs"
    using assms(2) b unfolding serves_file_def by blast
  have "length (hid # bs) \<le> 512" using b by simp
  from served_answers [where D = D and cmd = CMD_WRITE, OF assms(1) s this d(1)] obtain s' where
    "answers (serial_rpc (served_ops D)) port CMD_WRITE (hid # bs) s (SERRPC_OK STATUS_OK [], s')" "idle s'" "server s' = d'" by auto
  then show "\<exists>s' rp. idle s' \<and> file (server s') = file (server s) @ bs \<and> length rp \<le> 512 \<and>
      answers (serial_rpc (served_ops D)) port CMD_WRITE (hid # bs) s (SERRPC_OK STATUS_OK rp, s')"
    using d(2) by (intro exI [of _ s'] exI [of _ "[]"]) simp
qed

section \<open>Through the interrupt\<close>

text \<open>
  \<open>file_call f r s bs sft dta n hid\<close>: a call of function \<open>f\<close> for \<open>n\<close> bytes on a handle of a mapped
  drive. The entry and the transfer area are apart from each other and from what the entry point writes.
\<close>

definition file_call :: "byte \<Rightarrow> intpack \<Rightarrow> 'l tsr \<Rightarrow> byte list \<Rightarrow> fp \<Rightarrow> fp \<Rightarrow> nat \<Rightarrow> byte \<Rightarrow> bool" where
  "file_call f r s bs sft dta n hid \<longleftrightarrow>
     reg_ah r = 0x11 \<and> reg_al r = f \<and> glob_multiplexid s \<noteq> 0x11 \<and> com_port (comport (glob_data s)) \<and>
     sft = (es r, di r) \<and> n = unat (cx r) \<and> path_there s bs \<and> io_layout (mem s) (glob_sdaptr s) sft dta n \<and>
     apart sft 43 (sda s SDA_FCB_FN1) 11 \<and> apart dta n (sda s SDA_FCB_FN1) 11 \<and>
     (let drv = ucast (peek16 (mem s) (fadd sft SFT_DEV_INFO) AND 0x3F) :: byte in drv \<le> 25 \<and> ldrv (glob_data s) ! unat drv \<noteq> 0xFF) \<and>
     ucast (peek16 (mem s) (fadd sft SFT_START_SECTOR)) = hid \<and>
     unat (peek32 (mem s) (fadd sft SFT_FILE_POS)) + n < 2 ^ 32"

abbreviation at_entry :: "u16 \<Rightarrow> byte list \<Rightarrow> intpack \<Rightarrow> 'l tsr \<Rightarrow> 'l tsr" where
  "at_entry w bs r s \<equiv> entered w (ucast (peek16 (mem s) (fadd (es r, di r) SFT_DEV_INFO) AND 0x3F)) bs r s"

lemma file_call_enters:
  assumes "file_call f r s bs sft dta n hid" "f = AL_READFIL \<or> f = AL_WRITEFIL"
  shows "inthandler rpc rst w ds off r s =
      do { s \<leftarrow> process2f rpc rst (at_entry w bs r s); Some (Return, glob_intregs s, s) }"
    "io_layout (mem (at_entry w bs r s)) (glob_sdaptr s) sft dta n"
    "unat k + 2 \<le> 43 \<Longrightarrow> peek16 (mem (at_entry w bs r s)) (fadd sft k) = peek16 (mem s) (fadd sft k)"
    "unat k + 4 \<le> 43 \<Longrightarrow> peek32 (mem (at_entry w bs r s)) (fadd sft k) = peek32 (mem s) (fadd sft k)"
    "n \<le> 65536 \<Longrightarrow> peek_bytes (mem (at_entry w bs r s)) dta n = peek_bytes (mem s) dta n"
    "same_outside [(sda s SDA_FCB_FN1, 11)] (mem s) (mem (at_entry w bs r s))"
proof -
  let ?xs = "fcb_fill (replicate 11 ch_space) 0 (base_name bs)" and ?fcb = "sda s SDA_FCB_FN1"
  have a: "reg_ah r = 0x11" "reg_al r = f" "sft = (es r, di r)" "path_there s bs"
    "io_layout (mem s) (glob_sdaptr s) sft dta n" "apart sft 43 ?fcb (length ?xs)" "apart dta n ?fcb (length ?xs)"
    using assms(1) by (auto simp: file_call_def)
  have sf: "sda_fits s" "fits sft 43" "fits dta n" using a(4,5) unfolding path_there_def io_layout_def by blast+
  have ff: "fits ?fcb (length ?xs)" using sf(1) fits_fadd [of "glob_sdaptr s" "0x300" SDA_FCB_FN1 11] by (simp add: sda_fits_def)
  have m: "mem (at_entry w bs r s) = poke_bytes (mem s) ?fcb ?xs" by (simp add: entered_def)
  have "apart (sda s SDA_CURR_DTA) 4 ?fcb (length ?xs)"
    using sf(1) by (simp add: apart_def sda_lin)
  then have "peek_fp (mem (at_entry w bs r s)) (sda s SDA_CURR_DTA) = peek_fp (mem s) (sda s SDA_CURR_DTA)"
    unfolding m using a(5) ff by (intro peek_fp_poke_apart) (simp_all add: io_layout_def)
  then show "io_layout (mem (at_entry w bs r s)) (glob_sdaptr s) sft dta n"
    using a(5) unfolding io_layout_def by metis
  show "peek16 (mem (at_entry w bs r s)) (fadd sft k) = peek16 (mem s) (fadd sft k)" if "unat k + 2 \<le> 43"
    unfolding m using that sf(2) ff a(6) fits_fadd [OF sf(2), of k 2] apart_fadd [OF sf(2) _ _ a(6), of k 2]
    by (intro peek16_poke_apart) simp_all
  show "peek32 (mem (at_entry w bs r s)) (fadd sft k) = peek32 (mem s) (fadd sft k)" if "unat k + 4 \<le> 43"
    unfolding m using that sf(2) ff a(6) fits_fadd [OF sf(2), of k 4] apart_fadd [OF sf(2) _ _ a(6), of k 4]
    by (intro peek32_poke_apart) simp_all
  show "peek_bytes (mem (at_entry w bs r s)) dta n = peek_bytes (mem s) dta n" if "n \<le> 65536"
    unfolding m by (rule peek_poke_bytes_apart [OF sf(3) that ff a(7)])
  show "same_outside [(?fcb, 11)] (mem s) (mem (at_entry w bs r s))"
    unfolding m same_outside_def using ff by (auto simp: poke_bytes_at)
  have d: "(ucast (peek16 (mem s) (fadd (es r, di r) SFT_DEV_INFO) AND 0x3F) :: byte) = requested_drive r s"
    using a(2) assms(2) by (auto simp: requested_drive_def Let_def)
  have "\<not> not_redirector r" "reg_al r \<noteq> AL_DISKSPACE"
    using a(1,2) assms(2) by (auto simp: not_redirector_def supportedfunctions_def)
  then show "inthandler rpc rst w ds off r s =
      do { s \<leftarrow> process2f rpc rst (at_entry w bs r s); Some (Return, glob_intregs s, s) }"
    using inthandler_dispatches [of s r bs "ucast (peek16 (mem s) (fadd (es r, di r) SFT_DEV_INFO) AND 0x3F)" rpc rst w ds off]
      assms(1) a(3,4) d by (simp add: file_call_def Let_def not_less)
qed

lemma resident_bufs: "tsr_ok k s \<Longrightarrow> length (glob_req_payload s) = 512 \<and> length (glob_rep_payload s) = 512 \<and> k (link s)"
  by (simp add: tsr_ok_def)

lemma at_entry_fields:
  "link (at_entry w bs r s) = link s" "glob_data (at_entry w bs r s) = glob_data s" "glob_sdaptr (at_entry w bs r s) = glob_sdaptr s"
  "glob_req_payload (at_entry w bs r s) = glob_req_payload s" "glob_rep_payload (at_entry w bs r s) = glob_rep_payload s"
  "glob_intregs (at_entry w bs r s) = r"
  by (simp_all add: entered_def)

section \<open>An example\<close>

text \<open>A server with one file, and an idle line to it.\<close>

definition demo_daemon :: "byte list daemon" where
  "demo_daemon cmd req f =
     (if cmd = CMD_READ then (STATUS_OK, take (unat (get16 req 1)) (drop (unat (get32 req 3)) f), f)
      else if cmd = CMD_WRITE then (STATUS_OK, [], f @ drop 1 req) else (STATUS_OK, [], f))"

definition served_start :: "(line \<times> byte list) rpc_state" where
  "served_start = \<lparr>hw = (\<lparr>rxq = [], txq = [], clock = 0\<rparr>, demo_file), serrpc_seq = 0, serrpc_txbuf = replicate 524 0,
     serrpc_rxbuf = replicate 524 0, crc_st = crc_st line_start, rstats = rstats line_start\<rparr>"

lemma served_start [simp]: "idle served_start" "server served_start = demo_file"
  using line_start_ok by (simp_all add: served_start_def idle_def rpc_ok_def)

lemma demo_serves_file: "serves_file demo_daemon 7 (\<lambda>f. f)"
  using get16_le16 [of "[7]" 1] get32_le32 [of "7 # le16 cnt" 3 _ "[]" for cnt]
  by (simp add: serves_file_def demo_daemon_def)

lemma demo_file_call:
  assumes "al = 8 \<or> al = 9"
  shows "file_call (ucast al) (glob_intregs (demo_on l al 4 (0x3000, 0) om)) (demo_on l al 4 (0x3000, 0) om) demo_path (0x2000, 0) (0x3000, 0) 4 7"
proof -
  have a: "apart (0x2000, 0) 43 (fadd (0x1000, 0) SDA_FCB_FN1) 11" "apart (0x3000, 0) 4 (fadd (0x1000, 0) SDA_FCB_FN1) 11"
    by (simp_all add: apart_def lin_def fadd_def)
  have d: "peek16 (demo_mem (0x3000, 0) om) (fadd (0x2000, 0) SFT_DEV_INFO) = 0x8042"
    by (simp add: peek16_def demo_eval get_le16_def)
  show ?thesis
    using demo_path_there [of l al 4 "(0x3000, 0)" om] demo_io_layout [of om] a d assms
    by (auto simp: file_call_def com_port_def demo_sft_fields reg_al_def reg_ah_def Let_def)
qed

section \<open>Properties\<close>

text \<open>
  C4: against a server behind the line the remote call is the application of the server's function: for
  every request and reply that fit a frame the call succeeds at once, hands the request to the server
  exactly once, returns its status and payload, and leaves the line idle for the next call.
\<close>

theorem wire_implements_server:
  assumes "com_port port" "idle s" "n \<le> 512" "n \<le> length buf" "D cmd (take n buf) (server s) = (st, rp, d')" "length rp \<le> 512"
  shows "\<exists>s'. serial_rpc (served_ops D) port cmd buf n s = Some (SERRPC_OK st rp, s') \<and> idle s' \<and> server s' = d' \<and>
    rstats s' = count_rx (12 + length rp) (count_tx (12 + n) (rstats s))"
proof -
  have n: "length (take n buf) = n" "length (take n buf) \<le> 512" using assms(3,4) by simp_all
  show ?thesis
    using served_call [where D = D and cmd = cmd and req = "take n buf", OF assms(1,2) n(2) assms(5,6)]
    unfolding n(1) serial_rpc_prefix [OF assms(4)] by blast
qed

theorem wire_implements_server_witness:
  "\<exists>s'. serial_rpc (served_ops demo_daemon) 1 CMD_WRITE [7, 1, 2, 0] 3 served_start = Some (SERRPC_OK STATUS_OK [], s') \<and>
     server s' = demo_file @ [1, 2]"
  using wire_implements_server [of 1 served_start 3 "[7, 1, 2, 0]" demo_daemon CMD_WRITE STATUS_OK "[]" "demo_file @ [1, 2]"]
  by (auto simp: com_port_def demo_daemon_def)

text \<open>
  C5: a READ of DOS, from the interrupt to the wire and back. With a server that holds a file, the call
  returns to the caller with the bytes of the file in the transfer area, their number in CX and the
  file position advanced; the server's file is what it was and the line is idle again.
\<close>

theorem dos_read_over_wire:
  assumes "file_call AL_READFIL r s bs sft dta n hid" "tsr_ok idle s" "serves_file D hid file"
    and "peek16 (mem s) (fadd sft SFT_OPEN_MODE) AND 1 = 0" "pos = peek32 (mem s) (fadd sft SFT_FILE_POS)"
    and "data = take n (drop (unat pos) (file (server (link s))))"
  shows "\<exists>r' s'. inthandler (serial_rpc (served_ops D)) rst w ds off r s = Some (Return, r', s') \<and>
    cx r' = of_nat (length data) \<and> ax r' = 0 \<and> flags r' AND 1 = 0 \<and> peek_bytes (mem s') dta (length data) = data \<and>
    peek32 (mem s') (fadd sft SFT_FILE_POS) = pos + of_nat (length data) \<and>
    idle (link s') \<and> file (server (link s')) = file (server (link s))"
proof -
  let ?e = "at_entry w bs r s" and ?P = "\<lambda>l. idle l \<and> file (server l) = file (server (link s))"
  note enter = file_call_enters [OF assms(1) disjI1 [OF refl], where w = w]
  have c: "com_port (comport (glob_data s))" "sft = (es r, di r)" "n = unat (cx r)" "reg_al r = AL_READFIL"
    "ucast (peek16 (mem s) (fadd sft SFT_START_SECTOR)) = hid" "unat pos + n < 2 ^ 32"
    using assms(1,5) by (auto simp: file_call_def)
  have p: "peek32 (mem ?e) (fadd sft SFT_FILE_POS) = pos" using enter(4) [of SFT_FILE_POS] assms(5) by simp
  let ?t = "SUCCESSFLAG ?e"
  have regs: "es (glob_intregs ?t) = es r" "di (glob_intregs ?t) = di r" "cx (glob_intregs ?t) = cx r"
    by (simp_all add: SUCCESSFLAG_def at_entry_fields)
  have serve: "serves_reads (serial_rpc (served_ops D)) (comport (glob_data ?t)) hid (file (server (link s))) ?P"
    using wire_reads [OF c(1) assms(3)] by (simp add: at_entry_fields)
  have "\<exists>s'. al_readfil (serial_rpc (served_ops D)) rst ?t = Some s' \<and> ?P (link s') \<and>
      glob_intregs s' = (glob_intregs ?t)\<lparr>cx := of_nat (length data)\<rparr> \<and> transferred sft dta data (mem ?t) (mem s')"
    by (rule al_readfil_file [OF serve])
      (use resident_bufs [OF assms(2)] enter(2) enter(3) [of SFT_OPEN_MODE] enter(3) [of SFT_START_SECTOR] c p assms(4,6)
       in \<open>simp_all add: at_entry_fields regs\<close>)
  then obtain s' where s': "al_readfil (serial_rpc (served_ops D)) rst ?t = Some s'" "?P (link s')"
    "glob_intregs s' = (glob_intregs ?t)\<lparr>cx := of_nat (length data)\<rparr>" "transferred sft dta data (mem ?e) (mem s')" by auto
  then have "process2f (serial_rpc (served_ops D)) rst ?e = Some s'"
    using c(4) by (simp add: process2f_arm(1) at_entry_fields)
  then show ?thesis
    using enter(1) s' p by (auto simp: transferred_def SUCCESSFLAG_def at_entry_fields and.assoc)
qed

theorem dos_read_over_wire_witness:
  "\<exists>r' s'. inthandler (serial_rpc (served_ops demo_daemon)) 0 0 0 0 (glob_intregs (demo_on served_start 8 4 (0x3000, 0) 0))
     (demo_on served_start 8 4 (0x3000, 0) 0) = Some (Return, r', s') \<and> peek_bytes (mem s') (0x3000, 0) 3 = [13, 14, 15]"
proof -
  let ?s = "demo_on served_start 8 4 (0x3000, 0) 0"
  have "tsr_ok idle ?s" by (simp add: tsr_ok_def)
  moreover have "file_call AL_READFIL (glob_intregs ?s) ?s demo_path (0x2000, 0) (0x3000, 0) 4 7"
    using demo_file_call [of 8 served_start 0] by simp
  moreover have l: "length [13, 14, 15 :: byte] = 3" by simp
  ultimately show ?thesis
    using dos_read_over_wire [OF _ _ demo_serves_file, of "glob_intregs ?s" ?s demo_path "(0x2000, 0)" "(0x3000, 0)" 4 3 "[13, 14, 15]" 0 0 0 0, unfolded l]
    by (auto simp: demo_sft_fields demo_file_def)
qed

text \<open>
  C6: a WRITE of DOS on the same way. The server's file grows by exactly the bytes of the transfer
  area, once and in order, whatever their number; CX and carry say so and the file position advances.
\<close>

theorem dos_write_over_wire:
  assumes "file_call AL_WRITEFIL r s bs sft dta n hid" "tsr_ok idle s" "serves_file D hid file"
    and "peek16 (mem s) (fadd sft SFT_OPEN_MODE) AND 1 \<noteq> 0" "pos = peek32 (mem s) (fadd sft SFT_FILE_POS)"
  shows "\<exists>r' s'. inthandler (serial_rpc (served_ops D)) rst w ds off r s = Some (Return, r', s') \<and>
    unat (cx r') = n \<and> ax r' = 0 \<and> flags r' AND 1 = 0 \<and> peek32 (mem s') (fadd sft SFT_FILE_POS) = pos + of_nat n \<and>
    idle (link s') \<and> file (server (link s')) = file (server (link s)) @ peek_bytes (mem s) dta n"
proof -
  let ?e = "at_entry w bs r s"
  let ?t = "SUCCESSFLAG ?e"
  note enter = file_call_enters [OF assms(1) disjI2 [OF refl], where w = w]
  have c: "com_port (comport (glob_data s))" "sft = (es r, di r)" "n = unat (cx r)" "reg_al r = AL_WRITEFIL"
    "ucast (peek16 (mem s) (fadd sft SFT_START_SECTOR)) = hid" "unat pos + n < 2 ^ 32"
    using assms(1,5) by (auto simp: file_call_def)
  have p: "peek32 (mem ?e) (fadd sft SFT_FILE_POS) = pos" using enter(4) [of SFT_FILE_POS] assms(5) by simp
  have regs: "es (glob_intregs ?t) = es r" "di (glob_intregs ?t) = di r" "cx (glob_intregs ?t) = cx r"
    by (simp_all add: SUCCESSFLAG_def at_entry_fields)
  have serve: "serves_writes (serial_rpc (served_ops D)) (comport (glob_data ?t)) hid (\<lambda>l. file (server l)) idle"
    using wire_writes [OF c(1) assms(3)] by (simp add: at_entry_fields)
  have "\<exists>s'. al_writefil (serial_rpc (served_ops D)) rst ?t = Some s' \<and> idle (link s') \<and> glob_intregs s' = glob_intregs ?t \<and>
      file (server (link s')) = file (server (link ?t)) @ peek_bytes (mem ?t) dta n \<and> sft_after sft n (mem ?t) (mem s')"
    by (rule al_writefil_file [OF serve])
      (use resident_bufs [OF assms(2)] enter(2) enter(3) [of SFT_OPEN_MODE] enter(3) [of SFT_START_SECTOR] c p assms(4)
       in \<open>simp_all add: at_entry_fields regs\<close>)
  then obtain s' where s': "al_writefil (serial_rpc (served_ops D)) rst ?t = Some s'" "idle (link s')" "glob_intregs s' = glob_intregs ?t"
    "file (server (link s')) = file (server (link s)) @ peek_bytes (mem s) dta n" "sft_after sft n (mem ?e) (mem s')"
    using enter(5) c(3) by (auto simp: at_entry_fields less_imp_le)
  then have "process2f (serial_rpc (served_ops D)) rst ?e = Some s'"
    using c(4) by (simp add: process2f_arm(2) at_entry_fields)
  then show ?thesis
    using enter(1) s' p c(3) by (auto simp: sft_after_def SUCCESSFLAG_def at_entry_fields and.assoc)
qed

theorem dos_write_over_wire_witness:
  "\<exists>r' s'. inthandler (serial_rpc (served_ops demo_daemon)) 0 0 0 0 (glob_intregs (demo_on served_start 9 4 (0x3000, 0) 1))
     (demo_on served_start 9 4 (0x3000, 0) 1) = Some (Return, r', s') \<and> server (link s') = demo_file @ [1, 2, 3, 4]"
proof -
  let ?s = "demo_on served_start 9 4 (0x3000, 0) 1"
  have b: "peek_bytes (demo_mem (0x3000, 0) 1) (0x3000, 0) 4 = [1, 2, 3, 4]"
    by (simp add: peek_bytes_def upt_conv_Cons demo_eval)
  have "tsr_ok idle ?s" by (simp add: tsr_ok_def)
  moreover have "file_call AL_WRITEFIL (glob_intregs ?s) ?s demo_path (0x2000, 0) (0x3000, 0) 4 7"
    using demo_file_call [of 9 served_start 1] by simp
  ultimately show ?thesis
    using dos_write_over_wire [OF _ _ demo_serves_file, of "glob_intregs ?s" ?s demo_path "(0x2000, 0)" "(0x3000, 0)" 4 3 0 0 0 0]
    by (auto simp: demo_sft_fields b)
qed

end
