(* ===== verification/Sdf_Tools.thy ===== *)
theory Sdf_Tools
  imports Sdf_Args Sdf_FileOps
begin

text \<open>
  The stand-alone tools of \<open>dos/tools\<close> that work over the serial RPC: \<open>sercopy.c\<close>, \<open>sertype.c\<close>,
  \<open>serdir.c\<close>, \<open>serdel.c\<close> and \<open>serren.c\<close>. Their \<open>main\<close> takes the argument vector, the local files
  where it opens one, and the state of the tool: the link, the two static buffers and what has been
  printed. A \<open>printf\<close> is recorded with its format and arguments; the C library formats it. The
  result is the exit code with the final state, \<open>None\<close> a store outside a buffer or a call that does
  not return.
\<close>

section \<open>State and primitives\<close>

datatype parg = PStr string | PNum nat | PInt int | PBytes "byte list"

datatype outp = Printf string "parg list" | Eprintf string "parg list" | Fwrite "byte list"

record 'l tool =
  tlink :: 'l
  reqbuf :: "byte list"
  replybuf :: "byte list"
  printed :: "outp list"

text \<open>The UART and the remote call, as functions on the link state.\<close>

record 'l dev =
  dev_init :: "u16 \<Rightarrow> u16 \<Rightarrow> 'l \<Rightarrow> 'l"
  dev_drain :: "u16 \<Rightarrow> 'l \<Rightarrow> 'l"
  dev_rpc :: "'l rpc_fun"

definition serial_dev :: "'h uart_ops \<Rightarrow> 'h rpc_state dev" where
  "serial_dev ops = \<lparr>dev_init = \<lambda>port d s. s\<lparr>hw := seruart_init ops port d (hw s)\<rparr>,
     dev_drain = \<lambda>port s. s\<lparr>hw := seruart_drain ops port (hw s)\<rparr>, dev_rpc = serial_rpc ops\<rparr>"

abbreviation nl :: string where "nl \<equiv> [CHR 0x0A]"

definition printf :: "string \<Rightarrow> parg list \<Rightarrow> 'l tool \<Rightarrow> 'l tool" where
  "printf f as t = t\<lparr>printed := printed t @ [Printf f as]\<rparr>"

definition eprintf :: "string \<Rightarrow> parg list \<Rightarrow> 'l tool \<Rightarrow> 'l tool" where
  "eprintf f as t = t\<lparr>printed := printed t @ [Eprintf f as]\<rparr>"

text \<open>An exit after one message.\<close>

definition quit :: "string \<Rightarrow> parg list \<Rightarrow> 'l tool \<Rightarrow> (int \<times> 'l tool) option" where
  "quit f as t = Some (1, printf f as t)"

abbreviation (input) tool_req :: "(byte list \<Rightarrow> byte list) \<Rightarrow> 'l tool \<Rightarrow> 'l tool" where
  "tool_req f t \<equiv> t\<lparr>reqbuf := f (reqbuf t)\<rparr>"

definition bytes_of :: "string \<Rightarrow> byte list" where
  "bytes_of s = map of_char s"

text \<open>
  \<open>strncpy\<close> pads with NULs; \<open>atol\<close> skips white space and reads a sign and digits into a 32-bit \<open>long\<close>,
  which wraps.
\<close>

definition strncpy :: "byte list \<Rightarrow> nat \<Rightarrow> byte list \<Rightarrow> nat \<Rightarrow> byte list" where
  "strncpy buf off s n = copy_at buf off (take n s @ replicate (n - length s) 0) n"

definition isspace :: "char \<Rightarrow> bool" where
  "isspace c \<longleftrightarrow> c = CHR 0x20 \<or> c \<in> {CHR 0x09, CHR 0x0A, CHR 0x0B, CHR 0x0C, CHR 0x0D}"

definition atol :: "string \<Rightarrow> int" where
  "atol s =
     (let s = dropWhile isspace s; neg = (at s 0 = CHR ''-'');
          s = (if neg \<or> at s 0 = CHR ''+'' then drop 1 s else s);
          v = foldl (\<lambda>n c. 10 * n + (of_char c - 48)) 0 (takeWhile digit s)
      in sint (of_int (if neg then - v else v) :: 32 word))"

text \<open>
  One remote call: \<open>None\<close> is a return code other than \<open>SERRPC_OK\<close>, otherwise the reply status and
  length.
\<close>

definition tool_rpc ::
  "'l dev \<Rightarrow> u16 \<Rightarrow> byte \<Rightarrow> nat \<Rightarrow> 'l tool \<Rightarrow> ((byte \<times> nat) option \<times> 'l tool) option" where
  "tool_rpc dev port cmd plen t =
     do { (r, l) \<leftarrow> dev_rpc dev port cmd (reqbuf t) plen (tlink t);
          Some (case r of
              SERRPC_OK st rp \<Rightarrow>
                (Some (st, length rp), t\<lparr>tlink := l, replybuf := copy_at (replybuf t) 0 rp (length rp)\<rparr>)
            | _ \<Rightarrow> (None, t\<lparr>tlink := l\<rparr>)) }"

section \<open>Command line\<close>

definition parse_port :: "string \<Rightarrow> u16" where
  "parse_port s =
     (let p = (if at s 0 \<in> {CHR ''C'', CHR ''c''} \<and> at s 1 \<in> {CHR ''O'', CHR ''o''} \<and>
                  at s 2 \<in> {CHR ''M'', CHR ''m''} then drop 3 s else s)
      in if p = ''1'' then 1 else if p = ''2'' then 2 else 0)"

text \<open>What every tool does first; the left summand is the message before \<open>return 1\<close>.\<close>

definition tool_args :: "nat \<Rightarrow> string \<Rightarrow> string list \<Rightarrow> (string \<times> parg list) + (u16 \<times> u16)" where
  "tool_args argc_min usage argv =
     (if length argv < argc_min then Inl (usage, [])
      else let port = parse_port (argv ! 1) in
        if port = 0 then Inl (''Unknown port: %s'' @ nl, [PStr (argv ! 1)])
        else let dv = seruart_baud_to_div (atol (argv ! 2)) in
          if dv = 0 then Inl (''Unsupported baud: %s'' @ nl, [PStr (argv ! 2)]) else Inr (port, dv))"

definition tool_open :: "'l dev \<Rightarrow> u16 \<Rightarrow> u16 \<Rightarrow> 'l tool \<Rightarrow> 'l tool" where
  "tool_open dev port dv t = t\<lparr>tlink := dev_drain dev port (dev_init dev port dv (tlink t))\<rparr>"

text \<open>
  The path of SERCOPY and SERTYPE, with a backslash put in front when there is none; the result
  is the request length without its first byte and the NUL.
\<close>

definition slash_path :: "string \<Rightarrow> 'l tool \<Rightarrow> (nat \<times> 'l tool) option" where
  "slash_path path t =
     (let s = bytes_of path; dlen = length s in
      if at path 0 \<noteq> CHR 0x5C \<and> at path 0 \<noteq> CHR ''/''
      then do { buf \<leftarrow> store (strncpy ((reqbuf t)[1 := 0x5C]) 2 s (FRAME_MAX_PAYLOAD - 4)) (2 + dlen) 0;
                Some (dlen + 1, t\<lparr>reqbuf := buf\<rparr>) }
      else do { buf \<leftarrow> store (strncpy (reqbuf t) 1 s (FRAME_MAX_PAYLOAD - 3)) (1 + dlen) 0;
                Some (dlen, t\<lparr>reqbuf := buf\<rparr>) })"

section \<open>SERCOPY\<close>

text \<open>
  The write loop over the rest \<open>src\<close> of the source file, from which \<open>fread\<close> takes up to 511
  bytes; the left summand is an exit.
\<close>

function sercopy_loop ::
  "'l dev \<Rightarrow> u16 \<Rightarrow> byte \<Rightarrow> byte list \<Rightarrow> u32 \<Rightarrow> 'l tool \<Rightarrow> ((int \<times> 'l tool) + (u32 \<times> 'l tool)) option" where
  "sercopy_loop dev port hid src tot t =
     (let nread = min 511 (length src);
          t = tool_req (\<lambda>b. copy_at (b[0 := hid]) 1 src nread) t in
      if nread = 0 then Some (Inr (tot, t))
      else do { (r, t) \<leftarrow> tool_rpc dev port CMD_WRITE (1 + nread) t;
                case r of
                  None \<Rightarrow> Some (Inl (1, printf (nl @ ''SERCOPY: transport timeout (WRITE)'' @ nl) [] t))
                | Some (st, _) \<Rightarrow>
                    if st \<noteq> STATUS_OK
                    then Some (Inl (1, printf (nl @ ''SERCOPY: WRITE error 0x%02X'' @ nl) [PNum (unat st)] t))
                    else sercopy_loop dev port hid (drop nread src) (tot + of_nat nread) (printf ''.'' [] t) })"
  by pat_completeness auto
termination
  by (relation "measure (\<lambda>(dev, port, hid, src, tot, t). length src)") auto

declare sercopy_loop.simps [simp del]

definition sercopy_close ::
  "'l dev \<Rightarrow> u16 \<Rightarrow> byte \<Rightarrow> u32 \<Rightarrow> string \<Rightarrow> 'l tool \<Rightarrow> (int \<times> 'l tool) option" where
  "sercopy_close dev port hid tot dst_path t =
     do { (r, t) \<leftarrow> tool_rpc dev port CMD_CLOSE 1 (tool_req (\<lambda>b. b[0 := hid]) t);
          case r of
            Some (st, _) \<Rightarrow>
              if st = STATUS_OK
              then Some (0, printf (nl @ ''%lu bytes copied to %s'' @ nl) [PNum (unat tot), PStr dst_path] t)
              else quit (nl @ ''SERCOPY: warning '' @ [CHR 0xE2, CHR 0x80, CHR 0x94] @ '' CLOSE failed'' @ nl) [] t
          | None \<Rightarrow> quit (nl @ ''SERCOPY: warning '' @ [CHR 0xE2, CHR 0x80, CHR 0x94] @ '' CLOSE failed'' @ nl) [] t }"

definition sercopy_main ::
  "'l dev \<Rightarrow> (string \<Rightarrow> byte list option) \<Rightarrow> string list \<Rightarrow> 'l tool \<Rightarrow> (int \<times> 'l tool) option" where
  "sercopy_main dev fopen argv t =
     (case tool_args 5 (''Usage: SERCOPY COM1|COM2 BAUD SRC_LOCAL '' @ [CHR 0x5C] @ ''DST_REMOTE'' @ nl) argv of
        Inl (f, as) \<Rightarrow> quit f as t
      | Inr (port, dv) \<Rightarrow>
          (case fopen (argv ! 3) of
             None \<Rightarrow> quit (''SERCOPY: cannot open source: %s'' @ nl) [PStr (argv ! 3)] t
           | Some src \<Rightarrow>
               let t = tool_req (\<lambda>b. b[0 := 1]) (tool_open dev port dv t) in
               do { (dlen, t) \<leftarrow> slash_path (argv ! 4) t;
                    (r, t) \<leftarrow> tool_rpc dev port CMD_CREATE (1 + dlen + 1) t;
                    case r of
                      None \<Rightarrow> quit (''SERCOPY: transport timeout (CREATE)'' @ nl) [] t
                    | Some (st, replylen) \<Rightarrow>
                        if st \<noteq> STATUS_OK then quit (''SERCOPY: CREATE error 0x%02X'' @ nl) [PNum (unat st)] t
                        else if replylen < 1 then quit (''SERCOPY: missing handle in CREATE reply'' @ nl) [] t
                        else let hid = replybuf t ! 0 in
                          do { r \<leftarrow> sercopy_loop dev port hid src 0 t;
                               case r of Inl e \<Rightarrow> Some e
                               | Inr (tot, t) \<Rightarrow> sercopy_close dev port hid tot (argv ! 4) t } }))"

section \<open>SERTYPE\<close>

definition sertype_close :: "'l dev \<Rightarrow> u16 \<Rightarrow> byte \<Rightarrow> 'l tool \<Rightarrow> ((byte \<times> nat) option \<times> 'l tool) option" where
  "sertype_close dev port hid t = tool_rpc dev port CMD_CLOSE 1 (tool_req (\<lambda>b. b[0 := hid]) t)"

partial_function (option) sertype_loop ::
  "'l dev \<Rightarrow> u16 \<Rightarrow> byte \<Rightarrow> u32 \<Rightarrow> 'l tool \<Rightarrow> ((int \<times> 'l tool) + (u32 \<times> 'l tool)) option" where
  "sertype_loop dev port hid tot t =
     do { (r, t) \<leftarrow> tool_rpc dev port CMD_READ 3 (tool_req (\<lambda>b. b[0 := hid, 1 := 0, 2 := 2]) t);
          case r of
            None \<Rightarrow>
              do { (_, t) \<leftarrow> sertype_close dev port hid (printf (nl @ ''SERTYPE: transport timeout (READ)'' @ nl) [] t);
                   Some (Inl (1, t)) }
          | Some (st, replylen) \<Rightarrow>
              if st \<noteq> STATUS_OK
              then do { (_, t) \<leftarrow> sertype_close dev port hid
                          (printf (nl @ ''SERTYPE: server error 0x%02X (READ)'' @ nl) [PNum (unat st)] t);
                        Some (Inl (1, t)) }
              else if replylen = 0 then Some (Inr (tot, t))
              else sertype_loop dev port hid (tot + of_nat replylen)
                     (t\<lparr>printed := printed t @ [Fwrite (take replylen (replybuf t))]\<rparr>) }"

definition sertype_main :: "'l dev \<Rightarrow> string list \<Rightarrow> 'l tool \<Rightarrow> (int \<times> 'l tool) option" where
  "sertype_main dev argv t =
     (case tool_args 4 (''Usage: SERTYPE COM1|COM2 BAUD FILENAME'' @ nl) argv of
        Inl (f, as) \<Rightarrow> quit f as t
      | Inr (port, dv) \<Rightarrow>
          let filename = argv ! 3; t = tool_req (\<lambda>b. b[0 := 0]) (tool_open dev port dv t) in
          do { (flen, t) \<leftarrow> slash_path filename t;
               (r, t) \<leftarrow> tool_rpc dev port CMD_OPEN (1 + flen + 1) t;
               case r of
                 None \<Rightarrow> quit (''SERTYPE: transport timeout (OPEN)'' @ nl) [] t
               | Some (st, replylen) \<Rightarrow>
                   if st = ERR_NOT_FOUND then quit (''SERTYPE: file not found: %s'' @ nl) [PStr filename] t
                   else if st \<noteq> STATUS_OK then quit (''SERTYPE: server error 0x%02X (OPEN)'' @ nl) [PNum (unat st)] t
                   else if replylen < 1 then quit (''SERTYPE: missing handle in OPEN reply'' @ nl) [] t
                   else let hid = replybuf t ! 0 in
                     do { r \<leftarrow> sertype_loop dev port hid 0 t;
                          case r of Inl e \<Rightarrow> Some e
                          | Inr (tot, t) \<Rightarrow>
                              do { (c, t) \<leftarrow> sertype_close dev port hid t;
                                   let t = (if c = None \<or> fst (the c) \<noteq> STATUS_OK
                                     then eprintf (''SERTYPE: warning '' @ [CHR 0xE2, CHR 0x80, CHR 0x94] @ '' CLOSE failed'' @ nl) [] t
                                     else t);
                                   Some (0, eprintf (nl @ ''[%lu bytes]'' @ nl) [PNum (unat tot)] t) } } })"


section \<open>SERDEL and SERREN\<close>

definition serdel_main :: "'l dev \<Rightarrow> string list \<Rightarrow> 'l tool \<Rightarrow> (int \<times> 'l tool) option" where
  "serdel_main dev argv t =
     (case tool_args 4 (''Usage: SERDEL COM1|COM2 BAUD '' @ [CHR 0x5C] @ ''REMOTE_FILE'' @ nl) argv of
        Inl (f, as) \<Rightarrow> quit f as t
      | Inr (port, dv) \<Rightarrow>
          let remote_path = argv ! 3; s = bytes_of remote_path;
              t = tool_req (\<lambda>b. strncpy (b[0 := 0x58]) 1 s (FRAME_MAX_PAYLOAD - 3)) (tool_open dev port dv t);
              plen = 1 + length s + 1 in
          do { buf \<leftarrow> store (reqbuf t) (plen - 1) 0;
               (r, t) \<leftarrow> tool_rpc dev port CMD_DELETE plen (t\<lparr>reqbuf := buf\<rparr>);
               case r of
                 None \<Rightarrow> quit (''SERDEL: transport timeout'' @ nl) [] t
               | Some (st, _) \<Rightarrow>
                   if st = STATUS_OK then Some (0, printf (''Deleted: %s'' @ nl) [PStr remote_path] t)
                   else if st = ERR_NOT_FOUND then quit (''SERDEL: file not found: %s'' @ nl) [PStr remote_path] t
                   else if st = ERR_ACCESS then quit (''SERDEL: access denied: %s'' @ nl) [PStr remote_path] t
                   else quit (''SERDEL: server error 0x%02X'' @ nl) [PNum (unat st)] t })"

definition serren_main :: "'l dev \<Rightarrow> string list \<Rightarrow> 'l tool \<Rightarrow> (int \<times> 'l tool) option" where
  "serren_main dev argv t =
     (case tool_args 5 (''Usage: SERREN COM1|COM2 BAUD '' @ [CHR 0x5C] @ ''OLD_PATH '' @ [CHR 0x5C] @ ''NEW_PATH'' @ nl) argv of
        Inl (f, as) \<Rightarrow> quit f as t
      | Inr (port, dv) \<Rightarrow>
          let old_path = argv ! 3; new_path = argv ! 4; olen = length old_path; nlen = length new_path in
          if olen + nlen + 2 > FRAME_MAX_PAYLOAD then quit (''SERREN: path too long'' @ nl) [] t
          else let
            t = tool_req (\<lambda>b. copy_at b 0 (bytes_of old_path) olen) t;
            t = tool_req (\<lambda>b. b[olen := 0]) t;
            t = tool_req (\<lambda>b. copy_at b (olen + 1) (bytes_of new_path) nlen) t;
            t = tool_req (\<lambda>b. b[olen + 1 + nlen := 0]) t
          in do { (r, t) \<leftarrow> tool_rpc dev port CMD_RENAME (olen + 1 + nlen + 1) (tool_open dev port dv t);
                  case r of
                    None \<Rightarrow> quit (''SERREN: transport timeout'' @ nl) [] t
                  | Some (st, _) \<Rightarrow>
                      if st = STATUS_OK then Some (0, printf (''Renamed: %s -> %s'' @ nl) [PStr old_path, PStr new_path] t)
                      else if st = ERR_NOT_FOUND then quit (''SERREN: source not found: %s'' @ nl) [PStr old_path] t
                      else if st = ERR_EXISTS then quit (''SERREN: destination already exists: %s'' @ nl) [PStr new_path] t
                      else if st = ERR_ACCESS then quit (''SERREN: access denied'' @ nl) [] t
                      else quit (''SERREN: server error 0x%02X'' @ nl) [PNum (unat st)] t })"

section \<open>SERDIR\<close>

text \<open>The record of one entry: the name up to its NUL, then size, date and time taken apart.\<close>

definition print_entry :: "byte list \<Rightarrow> outp" where
  "print_entry e =
     (let name = PBytes (takeWhile (\<lambda>b. b \<noteq> 0) (take 12 e)); attr = e ! 12;
          dos_date = unat (get_le16 (e ! 13) (e ! 14)); dos_time = unat (get_le16 (e ! 15) (e ! 16));
          size = unat (get_le32 (e ! 17) (e ! 18) (e ! 19) (e ! 20));
          when = [PNum (dos_date div 512 mod 128 + 1980), PNum (dos_date div 32 mod 16), PNum (dos_date mod 32),
                  PNum (dos_time div 2048 mod 32), PNum (dos_time div 32 mod 64)]
      in if attr AND 0x10 \<noteq> 0
         then Printf (''%-12s  <DIR>             %04d-%02d-%02d %02d:%02d'' @ nl) (name # when)
         else Printf (''%-12s  %10lu  %04d-%02d-%02d %02d:%02d'' @ nl) (name # PNum size # when))"

text \<open>The \<open>for\<close> loop over the entries from \<open>off\<close> on; \<open>n\<close> counts them.\<close>

function print_batch :: "byte list \<Rightarrow> nat \<Rightarrow> nat \<Rightarrow> outp list \<Rightarrow> nat \<Rightarrow> outp list \<times> nat" where
  "print_batch buf off replylen o' n =
     (if off + 23 \<le> replylen
      then print_batch buf (off + 23) replylen (o' @ [print_entry (drop off buf)]) (n + 1)
      else (o', n))"
  by pat_completeness auto
termination by (relation "measure (\<lambda>(buf, off, replylen, o', n). replylen - off)") auto

declare print_batch.simps [simp del]

definition serdir_print :: "nat \<Rightarrow> nat \<Rightarrow> nat \<Rightarrow> 'l tool \<Rightarrow> nat \<times> 'l tool" where
  "serdir_print off replylen entries t =
     (let (o', n) = print_batch (replybuf t) off replylen (printed t) entries in (n, t\<lparr>printed := o'\<rparr>))"

text \<open>
  The loop over the further batches. The offset of the last entry is computed as for the first
  reply, whose entries start at byte 1, also for the replies of LIST_DIR_NEXT, whose entries start
  at byte 0. \<open>LIST_DIR_NEXT\<close> sends the handle from a local variable.
\<close>

partial_function (option) serdir_loop ::
  "'l dev \<Rightarrow> u16 \<Rightarrow> byte \<Rightarrow> nat \<Rightarrow> nat \<Rightarrow> 'l tool \<Rightarrow> (nat \<times> 'l tool) option" where
  "serdir_loop dev port hid replylen entries t =
     (if replylen < 1 + 23 then Some (entries, t)
      else let last_off = 1 + ((replylen - 1) div 23 - 1) * 23; last_more = replybuf t ! (last_off + 21) in
        if last_more = 0 then Some (entries, t)
        else do { (r, l) \<leftarrow> dev_rpc dev port CMD_LIST_DIR_NEXT [hid] 1 (tlink t);
                  case r of
                    SERRPC_OK st rp \<Rightarrow>
                      let t = t\<lparr>tlink := l, replybuf := copy_at (replybuf t) 0 rp (length rp)\<rparr>; replylen = length rp in
                      if st \<noteq> STATUS_OK then Some (entries, t)
                      else let (entries, t) = serdir_print 0 replylen entries t in
                        if replylen = 0 then Some (entries, t) else serdir_loop dev port hid replylen entries t
                  | _ \<Rightarrow> Some (entries, t\<lparr>tlink := l\<rparr>) })"

definition serdir_main :: "'l dev \<Rightarrow> string list \<Rightarrow> 'l tool \<Rightarrow> (int \<times> 'l tool) option" where
  "serdir_main dev argv t =
     (case tool_args 3 (''Usage: SERDIR COM1|COM2 BAUD ['' @ [CHR 0x5C] @ ''PATH]'' @ nl) argv of
        Inl (f, as) \<Rightarrow> quit f as t
      | Inr (port, dv) \<Rightarrow>
          let dos_path = (if length argv \<ge> 4 then argv ! 3 else [CHR 0x5C]);
              t = tool_open dev port dv t; s = bytes_of dos_path;
              pathlen = (if length s > FRAME_MAX_PAYLOAD - 3 then FRAME_MAX_PAYLOAD - 3 else length s);
              t = tool_req (\<lambda>b. (strncpy (b[0 := 0x58]) 1 s (FRAME_MAX_PAYLOAD - 2))
                    [FRAME_MAX_PAYLOAD - 1 := 0, 1 + pathlen := 0]) t in
          do { (r, t) \<leftarrow> tool_rpc dev port CMD_LIST_DIR (1 + pathlen + 1) t;
               case r of
                 None \<Rightarrow> quit (''SERDIR: transport timeout'' @ nl) [] t
               | Some (st, replylen) \<Rightarrow>
                   if st = ERR_NOT_FOUND then quit (''SERDIR: path not found: %s'' @ nl) [PStr dos_path] t
                   else if st \<noteq> STATUS_OK then quit (''SERDIR: server error 0x%02X'' @ nl) [PNum (unat st)] t
                   else if replylen < 1 then quit (''SERDIR: empty reply'' @ nl) [] t
                   else let hid = replybuf t ! 0; (entries, t) = serdir_print 1 replylen 0 t in
                     do { (entries, t) \<leftarrow> serdir_loop dev port hid replylen entries t;
                          Some (0, printf (nl @ ''  %u entry(s)'' @ nl) [PNum entries] t) } })"


end
