(* ===== verification/Sdf_Transfers.thy ===== *)
theory Sdf_Transfers
  imports Sdf_Tools Sdf_Sample
begin

text \<open>
  What the tools do against a server: SERCOPY transfers a file, SERTYPE prints one, SERDIR prints
  the pages of a directory that it asks for. The servers are characterised by the answers they give; the
  last part of each section evaluates the tool on a concrete server.
\<close>

section \<open>Calls that are answered\<close>

lemma tool_rpc_ok:
  assumes "answers (dev_rpc dev) port cmd req (tlink t) (SERRPC_OK st rp, l')"
    and "take n (reqbuf t) = req" "n = length req" "n \<le> length (reqbuf t)"
  shows "tool_rpc dev port cmd n t =
    Some (Some (st, length rp), t\<lparr>tlink := l', replybuf := copy_at (replybuf t) 0 rp (length rp)\<rparr>)"
  using assms by (simp add: tool_rpc_def answers_def)

lemma tool_args_ok:
  assumes "n \<le> length argv" "parse_port (argv ! 1) = port" "port \<noteq> 0"
    and "seruart_baud_to_div (atol (argv ! 2)) = dv" "dv \<noteq> 0"
  shows "tool_args n u argv = Inr (port, dv)"
  using assms by (simp add: tool_args_def Let_def)

text \<open>The CLOSE request that ends a transfer.\<close>

lemma close_call:
  assumes "answers (dev_rpc dev) port CMD_CLOSE [hid] (tlink t) (SERRPC_OK st [], l')" "length (reqbuf t) = 512"
  shows "tool_rpc dev port CMD_CLOSE 1 (tool_req (\<lambda>b. b[0 := hid]) t) =
    Some (Some (st, 0), t\<lparr>reqbuf := (reqbuf t)[0 := hid], tlink := l'\<rparr>)"
proof -
  have "take 1 ((reqbuf t)[0 := hid]) = [hid]" "1 \<le> length ((reqbuf t)[0 := hid])"
    using assms(2) by (cases "reqbuf t"; simp)+
  then have "dev_rpc dev port CMD_CLOSE ((reqbuf t)[0 := hid]) 1 (tlink t) = Some (SERRPC_OK st [], l')"
    using assms(1) by (simp add: answers_def)
  then show ?thesis by (cases t) (simp add: tool_rpc_def)
qed

text \<open>The path as SERCOPY and SERTYPE send it.\<close>

definition slashed :: "string \<Rightarrow> byte list" where
  "slashed path =
     (if at path 0 \<noteq> CHR 0x5C \<and> at path 0 \<noteq> CHR ''/'' then 0x5C # bytes_of path else bytes_of path)"

lemma length_bytes_of [simp]: "length (bytes_of s) = length s"
  by (simp add: bytes_of_def)

lemma length_strncpy [simp]: "length (strncpy b off s n) = length b"
  by (simp add: strncpy_def)

lemma strncpy_eq:
  "off + n \<le> length b \<Longrightarrow> length s \<le> n \<Longrightarrow>
   strncpy b off s n = take off b @ s @ replicate (n - length s) 0 @ drop (off + n) b"
  by (simp add: strncpy_def copy_at_eq)

lemma slash_path_ok:
  assumes "length (reqbuf t) = 512" "length path \<le> 127"
  shows "\<exists>b. slash_path path t = Some (length (slashed path), t\<lparr>reqbuf := b\<rparr>) \<and> length b = 512 \<and>
    take (1 + length (slashed path) + 1) b = reqbuf t ! 0 # slashed path @ [0]"
proof -
  obtain x y zs where r: "reqbuf t = x # y # zs" "length zs = 510"
    using assms(1) by (cases "reqbuf t"; cases "tl (reqbuf t)") auto
  have upd: "Q c \<Longrightarrow> \<exists>b. t\<lparr>reqbuf := c\<rparr> = t\<lparr>reqbuf := b\<rparr> \<and> Q b" for c Q by blast
  have "508 - length path = Suc (507 - length path)" "509 - length path = Suc (508 - length path)"
    using assms(2) by auto
  then show ?thesis
    using assms(2) r(2)
    by (simp add: slash_path_def slashed_def store_def Let_def r(1) strncpy_eq list_update_append)
      (intro conjI impI upd; simp)
qed

section \<open>Concrete tools\<close>

definition demo_dev :: "'l rpc_fun \<Rightarrow> 'l dev" where
  "demo_dev rpc = \<lparr>dev_init = \<lambda>_ _ l. l, dev_drain = \<lambda>_ l. l, dev_rpc = rpc\<rparr>"

definition demo_tool :: "'l \<Rightarrow> 'l tool" where
  "demo_tool l = \<lparr>tlink = l, reqbuf = replicate 512 0, replybuf = replicate 512 0, printed = []\<rparr>"

lemma demo_dev_fields [simp]:
  "dev_init (demo_dev rpc) p d l = l" "dev_drain (demo_dev rpc) p l = l" "dev_rpc (demo_dev rpc) = rpc"
  "tlink (demo_tool l) = l" "length (reqbuf (demo_tool l)) = 512" "length (replybuf (demo_tool l)) = 512"
  "printed (demo_tool l) = []"
  by (simp_all add: demo_dev_def demo_tool_def)

lemma demo_args: "parse_port ''COM1'' = 1" "parse_port ''2'' = 2" "seruart_baud_to_div (atol ''9600'') = 12"
  by code_simp+

text \<open>Servers whose answer is a function of the request.\<close>

definition fun_rpc :: "(byte \<Rightarrow> byte list \<Rightarrow> 'l \<Rightarrow> byte list \<times> 'l) \<Rightarrow> 'l rpc_fun" where
  "fun_rpc f port cmd buf n l = (let (rp, l) = f cmd (take n buf) l in Some (SERRPC_OK STATUS_OK rp, l))"

lemma fun_rpc_answers: "f cmd req l = (rp, l') \<Longrightarrow> answers (fun_rpc f) port cmd req l (SERRPC_OK STATUS_OK rp, l')"
  by (auto simp: answers_def fun_rpc_def)

section \<open>SERCOPY\<close>

lemma sercopy_loop_copies:
  assumes "serves_writes (dev_rpc dev) port hid content P"
  shows "P (tlink t) \<Longrightarrow> length (reqbuf t) = 512 \<Longrightarrow> length (replybuf t) = 512 \<Longrightarrow>
    \<exists>l b b' k. sercopy_loop dev port hid src tot t =
      Some (Inr (tot + of_nat (length src), t\<lparr>tlink := l, reqbuf := b, replybuf := b', printed := printed t @ replicate k (Printf ''.'' [])\<rparr>)) \<and>
      P l \<and> content l = content (tlink t) @ src \<and> length b = 512 \<and> length b' = 512"
proof (induction "length src" arbitrary: src tot t rule: less_induct)
  case less
  show ?case
  proof (cases "src = []")
    case True
    then show ?thesis
      using less.prems
      by (subst sercopy_loop.simps, intro exI [of _ "tlink t"] exI [of _ "(reqbuf t)[0 := hid]"]
          exI [of _ "replybuf t"] exI [of _ "0 :: nat"]) (cases t, simp)
  next
    case False
    define n where "n = min 511 (length src)"
    let ?t = "tool_req (\<lambda>b. copy_at (b[0 := hid]) 1 src n) t"
    have n: "0 < n" "n \<le> 511" "n \<le> length src" using False by (auto simp: n_def)
    obtain y ys where r: "reqbuf t = y # ys" "length ys = 511"
      using less.prems(2) by (cases "reqbuf t") auto
    have b: "take (1 + n) (reqbuf ?t) = hid # take n src"
      using n r by (simp add: copy_at_eq)
    obtain l rp where l: "P l" "content l = content (tlink t) @ take n src" "length rp \<le> 512"
      "answers (dev_rpc dev) port CMD_WRITE (hid # take n src) (tlink t) (SERRPC_OK STATUS_OK rp, l)"
      using assms [unfolded serves_writes_def, rule_format, OF less.prems(1), of "take n src"] n by auto
    let ?t' = "printf ''.'' [] (?t\<lparr>tlink := l, replybuf := copy_at (replybuf ?t) 0 rp (length rp)\<rparr>)"
    have call: "tool_rpc dev port CMD_WRITE (1 + n) ?t =
        Some (Some (STATUS_OK, length rp), ?t\<lparr>tlink := l, replybuf := copy_at (replybuf ?t) 0 rp (length rp)\<rparr>)"
      using l(4) n less.prems(2) b by (intro tool_rpc_ok) auto
    have len: "length (drop n src) < length src" using n by simp
    from less.hyps [OF len, of ?t' "tot + of_nat n"] l(1) less.prems obtain l2 b2 b3 k where
      rest: "sercopy_loop dev port hid (drop n src) (tot + of_nat n) ?t' =
        Some (Inr (tot + of_nat n + of_nat (length (drop n src)),
          ?t'\<lparr>tlink := l2, reqbuf := b2, replybuf := b3, printed := printed ?t' @ replicate k (Printf ''.'' [])\<rparr>))"
      "P l2" "content l2 = content (tlink ?t') @ drop n src" "length b2 = 512" "length b3 = 512"
      by (auto simp: printf_def)
    have sum: "(of_nat n :: u32) + of_nat (length src - n) = of_nat (length src)"
      using n by (simp flip: of_nat_add)
    have loop: "sercopy_loop dev port hid src tot t = sercopy_loop dev port hid (drop n src) (tot + of_nat n) ?t'"
      using call n by (subst sercopy_loop.simps) (simp add: n_def [symmetric] Let_def del: One_nat_def)
    show ?thesis
      by (rule exI [of _ l2], rule exI [of _ b2], rule exI [of _ b3], rule exI [of _ "Suc k"])
        (use rest l(2) sum loop in \<open>simp add: printf_def add.assoc\<close>)
  qed
qed

text \<open>The state of the link after \<open>seruart_init\<close> and \<open>seruart_drain\<close>.\<close>

abbreviation fresh_link :: "'l dev \<Rightarrow> u16 \<Rightarrow> u16 \<Rightarrow> 'l tool \<Rightarrow> 'l" where
  "fresh_link dev port dv t \<equiv> dev_drain dev port (dev_init dev port dv (tlink t))"

text \<open>A request with a path that SERCOPY and SERTYPE open a file with, and its answer.\<close>

lemma path_opening:
  assumes "length (reqbuf t) = 512" "length (replybuf t) = 512" "length path \<le> 127"
    and "answers (dev_rpc dev) port cmd (mode # slashed path @ [0]) (fresh_link dev port dv t)
      (SERRPC_OK STATUS_OK (hid # rest), l1)" "length rest \<le> 511"
  shows "\<exists>b b'. length b = 512 \<and> length b' = 512 \<and> b' ! 0 = hid \<and>
    (\<forall>f. (slash_path path (tool_req (\<lambda>b. b[0 := mode]) (tool_open dev port dv t)) \<bind>
       (\<lambda>(n, t). tool_rpc dev port cmd (1 + n + 1) t \<bind> (\<lambda>(r, t). f r t))) =
    f (Some (STATUS_OK, Suc (length rest))) (t\<lparr>tlink := l1, reqbuf := b, replybuf := b'\<rparr>))"
proof -
  let ?t = "tool_req (\<lambda>b. b[0 := mode]) (tool_open dev port dv t)"
  have t: "length (reqbuf ?t) = 512" "reqbuf ?t ! 0 = mode" "tlink ?t = fresh_link dev port dv t"
    using assms(1) by (simp_all add: tool_open_def)
  from slash_path_ok [OF t(1) assms(3)] obtain b where b:
    "slash_path path ?t = Some (length (slashed path), ?t\<lparr>reqbuf := b\<rparr>)" "length b = 512"
    "take (1 + length (slashed path) + 1) b = mode # slashed path @ [0]" unfolding t(2) by blast
  have l: "length (slashed path) \<le> 128" using assms(3) by (simp add: slashed_def)
  let ?b' = "copy_at (replybuf t) 0 (hid # rest) (length (hid # rest))"
  have "tool_rpc dev port cmd (1 + length (slashed path) + 1) (?t\<lparr>reqbuf := b\<rparr>) =
      Some (Some (STATUS_OK, length (hid # rest)),
        (?t\<lparr>reqbuf := b\<rparr>)\<lparr>tlink := l1, replybuf := copy_at (replybuf (?t\<lparr>reqbuf := b\<rparr>)) 0 (hid # rest) (length (hid # rest))\<rparr>)"
    using assms(4) b(2,3) l
    by (intro tool_rpc_ok [where req = "mode # slashed path @ [0]"]) (simp_all add: tool_open_def)
  moreover have "?b' ! 0 = hid" "length ?b' = 512"
    using assms(2,5) by (simp_all add: nth_copy_at del: copy_at.simps)
  ultimately show ?thesis
    using b by - (rule exI [of _ b], rule exI [of _ ?b'], cases t, simp add: tool_open_def)
qed

text \<open>
  C25: SERCOPY, against a server that creates the remote file, stores what it is sent as long as the
  handle is open (\<open>P\<close>) and closes it on request, transfers every byte of the local file once and in
  order, whatever its length, leaves the handle closed, exits with 0 and reports the length.
\<close>

theorem sercopy_copies_file:
  assumes "5 \<le> length argv" "parse_port (argv ! 1) = port" "port \<noteq> 0"
    and "seruart_baud_to_div (atol (argv ! 2)) = dv" "dv \<noteq> 0"
    and "fopen (argv ! 3) = Some src" "length src < 2 ^ 32" "length (argv ! 4) \<le> 127"
    and "length (reqbuf t) = 512" "length (replybuf t) = 512"
    and "answers (dev_rpc dev) port CMD_CREATE (1 # slashed (argv ! 4) @ [0]) (fresh_link dev port dv t)
      (SERRPC_OK STATUS_OK (hid # rest), l1)" "length rest \<le> 511"
    and "serves_writes (dev_rpc dev) port hid content P" "P l1"
    and "\<And>l. P l \<Longrightarrow> \<exists>l'. closed l' \<and> content l' = content l \<and>
      answers (dev_rpc dev) port CMD_CLOSE [hid] l (SERRPC_OK STATUS_OK [], l')" "\<And>l. P l \<Longrightarrow> \<not> closed l"
  shows "\<exists>t' k. sercopy_main dev fopen argv t = Some (0, t') \<and> content (tlink t') = content l1 @ src \<and>
    closed (tlink t') \<and>
    printed t' = printed t @ replicate k (Printf ''.'' []) @
      [Printf (nl @ ''%lu bytes copied to %s'' @ nl) [PNum (length src), PStr (argv ! 4)]]"
proof -
  obtain b b' where o: "length b = 512" "length b' = 512" "b' ! 0 = hid"
    "\<And>f :: (byte \<times> nat) option \<Rightarrow> 'a tool \<Rightarrow> (int \<times> 'a tool) option.
     (slash_path (argv ! 4) (tool_req (\<lambda>b. b[0 := 1]) (tool_open dev port dv t)) \<bind>
       (\<lambda>(n, t). tool_rpc dev port CMD_CREATE (1 + n + 1) t \<bind> (\<lambda>(r, t). f r t))) =
    f (Some (STATUS_OK, Suc (length rest))) (t\<lparr>tlink := l1, reqbuf := b, replybuf := b'\<rparr>)"
    using path_opening [OF assms(9,10,8,11,12)] by blast
  let ?t = "t\<lparr>tlink := l1, reqbuf := b, replybuf := b'\<rparr>"
  obtain l c c' k where w: "sercopy_loop dev port hid src 0 ?t =
      Some (Inr (0 + of_nat (length src), ?t\<lparr>tlink := l, reqbuf := c, replybuf := c', printed := printed ?t @ replicate k (Printf ''.'' [])\<rparr>))"
    "P l" "content l = content (tlink ?t) @ src" "length c = 512" "length c' = 512"
    using sercopy_loop_copies [OF assms(13), of ?t src 0] assms(14) o(1,2) by auto
  let ?t2 = "?t\<lparr>tlink := l, reqbuf := c, replybuf := c', printed := printed ?t @ replicate k (Printf ''.'' [])\<rparr>"
  obtain l' where l': "content l' = content l" "closed l'" "answers (dev_rpc dev) port CMD_CLOSE [hid] l (SERRPC_OK STATUS_OK [], l')"
    using assms(15) [OF w(2)] by blast
  have close: "tool_rpc dev port CMD_CLOSE 1 (tool_req (\<lambda>b. b[0 := hid]) ?t2) =
      Some (Some (STATUS_OK, 0), ?t2\<lparr>reqbuf := (reqbuf ?t2)[0 := hid], tlink := l'\<rparr>)"
    using l'(3) w(4) by (intro close_call) simp_all
  have "sercopy_main dev fopen argv t = sercopy_loop dev port hid src 0 ?t \<bind>
      (\<lambda>r. case r of Inl e \<Rightarrow> Some e | Inr (tot, t) \<Rightarrow> sercopy_close dev port hid tot (argv ! 4) t)"
    by (simp only: sercopy_main_def tool_args_ok [OF assms(1-5)] sum.case prod.case assms(6) option.case Let_def o(4))
      (simp add: o(3))
  then show ?thesis
    using assms(7) w(1,3) close l'(1,2)
    by (simp add: sercopy_close_def printf_def u32_of_nat)
qed

text \<open>A server that stores what is written to the file it has open; the link state says whether.\<close>

definition file_server :: "byte \<Rightarrow> byte list \<Rightarrow> byte list \<times> bool \<Rightarrow> byte list \<times> byte list \<times> bool" where
  "file_server cmd req = (\<lambda>(F, open').
     if cmd = CMD_CREATE then ([7], [], True)
     else if cmd = CMD_WRITE \<and> open' then ([], F @ drop 1 req, True)
     else if cmd = CMD_CLOSE then ([], F, False)
     else ([], F, open'))"

theorem sercopy_copies_file_witness:
  "\<exists>t' k. sercopy_main (demo_dev (fun_rpc file_server)) (\<lambda>_. Some [1, 2, 3]) [''SERCOPY'', ''COM1'', ''9600'', ''A'', ''B'']
     (demo_tool ([9], False)) = Some (0, t') \<and> tlink t' = ([1, 2, 3], False)"
proof -
  let ?argv = "[''SERCOPY'', ''COM1'', ''9600'', ''A'', ''B'']"
  have "serves_writes (fun_rpc file_server) 1 7 fst snd"
    unfolding serves_writes_def
  proof (intro allI impI)
    fix l :: "byte list \<times> bool" and bs :: "byte list"
    assume "snd l"
    then have "file_server CMD_WRITE (7 # bs) l = ([], fst l @ bs, True)"
      by (simp add: file_server_def split_beta)
    then show "\<exists>l' rp. snd l' \<and> fst l' = fst l @ bs \<and> length rp \<le> 512 \<and>
        answers (fun_rpc file_server) 1 CMD_WRITE (7 # bs) l (SERRPC_OK STATUS_OK rp, l')"
      by (intro exI [of _ "(fst l @ bs, True)"] exI [of _ "[]"]) (simp add: fun_rpc_answers)
  qed
  moreover have "answers (fun_rpc file_server) 1 CMD_CREATE req l (SERRPC_OK STATUS_OK [7], ([], True))" for req l
    by (intro fun_rpc_answers) (simp add: file_server_def split_beta)
  moreover have "\<exists>l' :: byte list \<times> bool. \<not> snd l' \<and> fst l' = fst l \<and>
      answers (fun_rpc file_server) 1 CMD_CLOSE [7] l (SERRPC_OK STATUS_OK [], l')" for l
    by (rule exI [of _ "(fst l, False)"]) (simp add: fun_rpc_answers file_server_def split_beta)
  ultimately have "\<exists>t' k. sercopy_main (demo_dev (fun_rpc file_server)) (\<lambda>_. Some [1, 2, 3]) ?argv (demo_tool ([9], False)) = Some (0, t') \<and>
      fst (tlink t') = fst ([] :: byte list, True) @ [1, 2, 3] \<and> \<not> snd (tlink t') \<and>
      printed t' = printed (demo_tool ([9 :: byte], False)) @ replicate k (Printf ''.'' []) @
        [Printf (nl @ ''%lu bytes copied to %s'' @ nl) [PNum (length [1, 2, 3 :: byte]), PStr (?argv ! 4)]]"
    by (intro sercopy_copies_file [where port = 1 and dv = 12 and P = snd and closed = "\<lambda>l. \<not> snd l" and hid = 7
          and rest = "[]"]) (simp_all add: demo_args)
  then show ?thesis by (auto simp: prod_eq_iff)
qed

section \<open>SERTYPE\<close>

text \<open>
  A server that reads the file of a handle from a position it keeps itself: \<open>rest\<close> is what is
  left, and a request for 512 bytes takes them from the front.
\<close>

definition serves_stream ::
  "'l rpc_fun \<Rightarrow> u16 \<Rightarrow> byte \<Rightarrow> ('l \<Rightarrow> byte list) \<Rightarrow> ('l \<Rightarrow> bool) \<Rightarrow> bool" where
  "serves_stream rpc port hid rest P \<longleftrightarrow>
     (\<forall>l. P l \<longrightarrow> (\<exists>l'. P l' \<and> rest l' = drop 512 (rest l) \<and>
        answers rpc port CMD_READ [hid, 0, 2] l (SERRPC_OK STATUS_OK (take 512 (rest l)), l')))"

lemma sertype_loop_prints:
  assumes "serves_stream (dev_rpc dev) port hid rest P"
  shows "P (tlink t) \<Longrightarrow> length (reqbuf t) = 512 \<Longrightarrow> length (replybuf t) = 512 \<Longrightarrow>
    \<exists>l b b' ws. sertype_loop dev port hid tot t =
      Some (Inr (tot + of_nat (length (rest (tlink t))),
        t\<lparr>tlink := l, reqbuf := b, replybuf := b', printed := printed t @ map Fwrite ws\<rparr>)) \<and>
      concat ws = rest (tlink t) \<and> P l \<and> length b = 512 \<and> length b' = 512"
proof (induction "length (rest (tlink t))" arbitrary: tot t rule: less_induct)
  case less
  let ?F = "rest (tlink t)" and ?t = "tool_req (\<lambda>b. b[0 := hid, 1 := 0, 2 := 2]) t"
  obtain l where l: "P l" "rest l = drop 512 ?F"
    "answers (dev_rpc dev) port CMD_READ [hid, 0, 2] (tlink t) (SERRPC_OK STATUS_OK (take 512 ?F), l)"
    using assms less.prems(1) unfolding serves_stream_def by blast
  obtain x y z zs where r: "reqbuf t = x # y # z # zs"
    using less.prems(2) by (cases "reqbuf t"; cases "tl (reqbuf t)"; cases "tl (tl (reqbuf t))") auto
  let ?b = "copy_at (replybuf ?t) 0 (take 512 ?F) (length (take 512 ?F))"
  have call: "tool_rpc dev port CMD_READ 3 ?t =
      Some (Some (STATUS_OK, length (take 512 ?F)), ?t\<lparr>tlink := l, replybuf := ?b\<rparr>)"
    using l(3) less.prems(2) by (intro tool_rpc_ok [where req = "[hid, 0, 2]"]) (simp_all add: r numeral_3_eq_3)
  show ?case
  proof (cases "?F = []")
    case True
    have "sertype_loop dev port hid tot t = Some (Inr (tot, ?t\<lparr>tlink := l, replybuf := ?b\<rparr>))"
      by (subst sertype_loop.simps) (simp only: call bind.bind_lunit prod.case option.case, simp add: True)
    then show ?thesis
      using True l less.prems(2,3)
      by (intro exI [of _ l] exI [of _ "(reqbuf t)[0 := hid, 1 := 0, 2 := 2]"] exI [of _ "replybuf t"]
          exI [of _ "[] :: byte list list"]) (cases t, simp)
  next
    case False
    have nz: "(min (length ?F) 512 = 0) = False" using False by simp
    have bt: "take (length (take 512 ?F)) ?b = take 512 ?F"
      using less.prems(3) by (subst copy_at_eq) (auto simp: min_def)
    let ?t' = "?t\<lparr>tlink := l, replybuf := ?b, printed := printed t @ [Fwrite (take 512 ?F)]\<rparr>"
    have loop: "sertype_loop dev port hid tot t = sertype_loop dev port hid (tot + of_nat (length (take 512 ?F))) ?t'"
      by (subst sertype_loop.simps) (simp only: call bind.bind_lunit prod.case option.case, use bt in \<open>simp add: nz\<close>)
    have "length (rest (tlink ?t')) < length ?F" using False l(2) by simp
    from less.hyps [OF this, of "tot + of_nat (length (take 512 ?F))"] l(1,2) less.prems(2,3) obtain l2 b2 b3 ws where
      rest: "sertype_loop dev port hid (tot + of_nat (length (take 512 ?F))) ?t' =
        Some (Inr (tot + of_nat (length (take 512 ?F)) + of_nat (length (drop 512 ?F)),
          ?t'\<lparr>tlink := l2, reqbuf := b2, replybuf := b3, printed := printed ?t' @ map Fwrite ws\<rparr>))"
      "concat ws = drop 512 ?F" "P l2" "length b2 = 512" "length b3 = 512"
      by auto
    have sum: "(of_nat (length (take 512 ?F)) :: u32) + of_nat (length (drop 512 ?F)) = of_nat (length ?F)"
      by (simp only: of_nat_add [symmetric] length_append [symmetric] append_take_drop_id)
    show ?thesis
      by (rule exI [of _ l2], rule exI [of _ b2], rule exI [of _ b3], rule exI [of _ "take 512 ?F # ws"])
        (use rest loop sum in \<open>simp add: add.assoc\<close>)
  qed
qed

text \<open>
  C26: SERTYPE, against a server that opens the file, reads it from a position of its own as long as
  the handle is open (\<open>P\<close>) and closes it on request, writes the bytes of the file to standard output,
  all of them and in order, leaves the handle closed, exits with 0 and reports the length.
\<close>

theorem sertype_prints_file:
  assumes "4 \<le> length argv" "parse_port (argv ! 1) = port" "port \<noteq> 0"
    and "seruart_baud_to_div (atol (argv ! 2)) = dv" "dv \<noteq> 0" "length (argv ! 3) \<le> 127"
    and "length (reqbuf t) = 512" "length (replybuf t) = 512"
    and "answers (dev_rpc dev) port CMD_OPEN (0 # slashed (argv ! 3) @ [0]) (fresh_link dev port dv t)
      (SERRPC_OK STATUS_OK (hid # rest'), l1)" "length rest' \<le> 511"
    and "serves_stream (dev_rpc dev) port hid rest P" "P l1" "length (rest l1) < 2 ^ 32"
    and "\<And>l. P l \<Longrightarrow> \<exists>l'. closed l' \<and> answers (dev_rpc dev) port CMD_CLOSE [hid] l (SERRPC_OK STATUS_OK [], l')"
    and "\<And>l. P l \<Longrightarrow> \<not> closed l"
  shows "\<exists>t' ws. sertype_main dev argv t = Some (0, t') \<and> concat ws = rest l1 \<and> closed (tlink t') \<and>
    printed t' = printed t @ map Fwrite ws @ [Eprintf (nl @ ''[%lu bytes]'' @ nl) [PNum (length (rest l1))]]"
proof -
  obtain b b' where o: "length b = 512" "length b' = 512" "b' ! 0 = hid"
    "\<And>f :: (byte \<times> nat) option \<Rightarrow> 'a tool \<Rightarrow> (int \<times> 'a tool) option.
     (slash_path (argv ! 3) (tool_req (\<lambda>b. b[0 := 0]) (tool_open dev port dv t)) \<bind>
       (\<lambda>(n, t). tool_rpc dev port CMD_OPEN (1 + n + 1) t \<bind> (\<lambda>(r, t). f r t))) =
    f (Some (STATUS_OK, Suc (length rest'))) (t\<lparr>tlink := l1, reqbuf := b, replybuf := b'\<rparr>)"
    using path_opening [OF assms(7,8,6,9,10)] by blast
  let ?t = "t\<lparr>tlink := l1, reqbuf := b, replybuf := b'\<rparr>"
  obtain l c c' ws where w: "sertype_loop dev port hid 0 ?t =
      Some (Inr (0 + of_nat (length (rest l1)), ?t\<lparr>tlink := l, reqbuf := c, replybuf := c', printed := printed ?t @ map Fwrite ws\<rparr>))"
    "concat ws = rest l1" "P l" "length c = 512" "length c' = 512"
    using sertype_loop_prints [OF assms(11), of ?t 0] assms(12) o(1,2) by auto
  let ?t2 = "?t\<lparr>tlink := l, reqbuf := c, replybuf := c', printed := printed ?t @ map Fwrite ws\<rparr>"
  obtain l' where l': "closed l'" "answers (dev_rpc dev) port CMD_CLOSE [hid] l (SERRPC_OK STATUS_OK [], l')"
    using assms(14) [OF w(3)] by blast
  have close: "sertype_close dev port hid ?t2 =
      Some (Some (STATUS_OK, 0), ?t2\<lparr>reqbuf := (reqbuf ?t2)[0 := hid], tlink := l'\<rparr>)"
    unfolding sertype_close_def using l'(2) w(4) by (intro close_call) simp_all
  have "sertype_main dev argv t = sertype_loop dev port hid 0 ?t \<bind>
      case_sum Some (\<lambda>(tot, t).
         do { (c, t) \<leftarrow> sertype_close dev port hid t;
              let t = (if c = None \<or> fst (the c) \<noteq> STATUS_OK
                then eprintf (''SERTYPE: warning '' @ [CHR 0xE2, CHR 0x80, CHR 0x94] @ '' CLOSE failed'' @ nl) [] t
                else t);
              Some (0, eprintf (nl @ ''[%lu bytes]'' @ nl) [PNum (unat tot)] t) })"
    by (simp only: sertype_main_def tool_args_ok [OF assms(1-5)] sum.case prod.case option.case Let_def o(4))
      (simp add: o(3))
  then show ?thesis
    using assms(13) w(1,2) close l'(1) by (simp add: eprintf_def u32_of_nat) (rule exI [of _ ws], simp)
qed

definition stream_server :: "byte \<Rightarrow> byte list \<Rightarrow> byte list \<times> bool \<Rightarrow> byte list \<times> byte list \<times> bool" where
  "stream_server cmd req = (\<lambda>(F, open').
     if cmd = CMD_OPEN then ([7], F, True)
     else if cmd = CMD_READ \<and> open' then (take 512 F, drop 512 F, True)
     else if cmd = CMD_CLOSE then ([], F, False)
     else ([], F, open'))"

theorem sertype_prints_file_witness:
  "\<exists>t' ws. sertype_main (demo_dev (fun_rpc stream_server)) [''SERTYPE'', ''COM1'', ''9600'', ''A''] (demo_tool (demo_file, False)) =
     Some (0, t') \<and> concat ws = demo_file \<and> \<not> snd (tlink t')"
proof -
  let ?argv = "[''SERTYPE'', ''COM1'', ''9600'', ''A'']"
  have "serves_stream (fun_rpc stream_server) 1 7 fst snd"
    unfolding serves_stream_def
  proof (intro allI impI)
    fix l :: "byte list \<times> bool"
    assume "snd l"
    then have "stream_server CMD_READ [7, 0, 2] l = (take 512 (fst l), drop 512 (fst l), True)"
      by (simp add: stream_server_def split_beta)
    then show "\<exists>l'. snd l' \<and> fst l' = drop 512 (fst l) \<and>
        answers (fun_rpc stream_server) 1 CMD_READ [7, 0, 2] l (SERRPC_OK STATUS_OK (take 512 (fst l)), l')"
      by (intro exI [of _ "(drop 512 (fst l), True)"]) (simp add: fun_rpc_answers)
  qed
  moreover have "answers (fun_rpc stream_server) 1 CMD_OPEN req (F, b) (SERRPC_OK STATUS_OK [7], (F, True))" for req F b
    by (intro fun_rpc_answers) (simp add: stream_server_def split_beta)
  moreover have "\<exists>l' :: byte list \<times> bool. \<not> snd l' \<and>
      answers (fun_rpc stream_server) 1 CMD_CLOSE [7] l (SERRPC_OK STATUS_OK [], l')" for l
    by (rule exI [of _ "(fst l, False)"]) (simp add: fun_rpc_answers stream_server_def split_beta)
  ultimately have "\<exists>t' ws. sertype_main (demo_dev (fun_rpc stream_server)) ?argv (demo_tool (demo_file, False)) = Some (0, t') \<and>
      concat ws = fst (demo_file, True) \<and> \<not> snd (tlink t') \<and> printed t' = printed (demo_tool (demo_file, False)) @ map Fwrite ws @
        [Eprintf (nl @ ''[%lu bytes]'' @ nl) [PNum (length (fst (demo_file, True)))]]"
    by (intro sertype_prints_file [where port = 1 and dv = 12 and P = snd and closed = "\<lambda>l. \<not> snd l" and hid = 7
          and rest' = "[]" and ?l1.0 = "(demo_file, True)"]) (simp_all add: demo_args demo_file_def)
  then show ?thesis by auto
qed

section \<open>SERDIR\<close>

lemma print_entry_append: "length e = 23 \<Longrightarrow> print_entry (e @ r) = print_entry e"
  by (simp add: print_entry_def nth_append)

lemma print_batch_page:
  "\<forall>e \<in> set p. length e = 23 \<Longrightarrow> drop off buf = concat p @ r \<Longrightarrow>
   print_batch buf off (off + 23 * length p) o' n = (o' @ map print_entry p, n + length p)"
proof (induction p arbitrary: off o' n)
  case Nil
  then show ?case by (subst print_batch.simps) simp
next
  case (Cons e p)
  have d: "drop (off + 23) buf = concat p @ r"
    using Cons.prems by (simp add: add.commute [of off] flip: drop_drop)
  have "print_entry (drop off buf) = print_entry e"
    using Cons.prems by (simp add: print_entry_append)
  then show ?case
    using Cons.IH [OF _ d, of "o' @ [print_entry e]" "n + 1"] Cons.prems(1)
    by (subst print_batch.simps) (simp add: algebra_simps)
qed

text \<open>The byte that \<open>serdir_loop\<close> takes for the flag of the last entry.\<close>

lemma more_byte:
  assumes "\<forall>e \<in> set p. length e = 23" "drop off buf = concat p @ r" "i < length p" "j < 23"
  shows "buf ! (off + (23 * i + j)) = p ! i ! j"
proof -
  have "off \<le> length buf \<or> concat p @ r = []" using assms(2) by (cases "off \<le> length buf") auto
  moreover have "concat p \<noteq> []" using assms(1,3) by (cases p) auto
  ultimately have "buf ! (off + (23 * i + j)) = (concat p @ r) ! (23 * i + j)"
    using assms(2) nth_drop [of off buf "23 * i + j"] by auto
  also have "\<dots> = concat p ! (23 * i + j)"
    using assms length_concat_page [OF assms(1)] by (simp add: nth_append)
  also have "\<dots> = take 23 (drop (23 * i) (concat p)) ! j"
    using assms length_concat_page [OF assms(1)] by simp
  finally show ?thesis using concat_entry [OF assms(1,3)] by simp
qed

lemma serdir_print_page:
  assumes "page_ok p" "drop off (replybuf t) = concat p @ r"
  shows "serdir_print off (off + 23 * length p) n t = (n + length p, t\<lparr>printed := printed t @ map print_entry p\<rparr>)"
  using print_batch_page [of p off "replybuf t" r "printed t" n] assms by (simp add: serdir_print_def page_ok_def)

text \<open>
  One turn of the loop: the byte that is tested is set, so the next page is asked for. \<open>k\<close> is where
  the entries of the page before begin in its reply.
\<close>

lemma serdir_turn:
  assumes "24 \<le> n" "replybuf t ! (1 + ((n - 1) div 23 - 1) * 23 + 21) \<noteq> 0" "length (replybuf t) = 512"
    and "answers (dev_rpc dev) port CMD_LIST_DIR_NEXT [hid] (tlink t) (SERRPC_OK STATUS_OK (concat q), l2)" "page_ok q"
  shows "serdir_loop dev port hid n e t = serdir_loop dev port hid (23 * length q) (e + length q)
    (t\<lparr>tlink := l2, replybuf := concat q @ drop (23 * length q) (replybuf t), printed := printed t @ map print_entry q\<rparr>)"
proof -
  have lq: "length (concat q) = 23 * length q" "length q \<le> 22"
    using assms(5) length_concat_page [of q 23] by (auto simp: page_ok_def)
  have call: "dev_rpc dev port CMD_LIST_DIR_NEXT [hid] 1 (tlink t) = Some (SERRPC_OK STATUS_OK (concat q), l2)"
    using assms(4) by (simp add: answers_def)
  let ?b = "copy_at (replybuf t) 0 (concat q) (length (concat q))"
  let ?t = "t\<lparr>tlink := l2, replybuf := ?b\<rparr>"
  have b: "?b = concat q @ drop (23 * length q) (replybuf t)"
    using lq assms(3) by (subst copy_at_eq) auto
  have print: "serdir_print 0 (length (concat q)) e ?t = (e + length q, ?t\<lparr>printed := printed t @ map print_entry q\<rparr>)"
    using serdir_print_page [OF assms(5), of 0 ?t "drop (23 * length q) (replybuf t)" e] b lq(1) by simp
  have empty: "serdir_loop dev port hid 0 e' t' = Some (e', t')" for e' t'
    by (subst serdir_loop.simps) simp
  have "serdir_loop dev port hid n e t = (if length (concat q) = 0
      then Some (e + length q, ?t\<lparr>printed := printed t @ map print_entry q\<rparr>)
      else serdir_loop dev port hid (length (concat q)) (e + length q) (?t\<lparr>printed := printed t @ map print_entry q\<rparr>))"
    using assms(1,2)
    by (subst serdir_loop.simps) (simp only: Let_def call bind.bind_lunit prod.case rpc_result.case print, simp)
  also have "\<dots> = serdir_loop dev port hid (23 * length q) (e + length q) (?t\<lparr>printed := printed t @ map print_entry q\<rparr>)"
    using empty by (simp add: lq(1))
  finally show ?thesis by (simp only: b)
qed

text \<open>
  After a page that is not the first one SERDIR asks again if the page has two entries at least and
  the last byte of the entry before the last is set: the byte before the flag of the last entry
  would be the last entry's, were the entries where they are in the first reply.
\<close>

definition asks_again :: "byte list list \<Rightarrow> bool" where
  "asks_again q \<longleftrightarrow> 2 \<le> length q \<and> q ! (length q - 2) ! 22 \<noteq> 0"

lemma serdir_tests:
  assumes "page_ok q" "replybuf t = concat q @ r"
  shows "24 \<le> 23 * length q \<and> replybuf t ! (1 + ((23 * length q - 1) div 23 - 1) * 23 + 21) \<noteq> 0 \<longleftrightarrow> asks_again q"
proof (cases "2 \<le> length q")
  case True
  then obtain m where m: "length q = Suc (Suc m)" by (metis Suc_le_D numeral_2_eq_2 Suc_le_mono)
  have "(23 * length q - 1) div 23 - 1 = m" by (simp add: m)
  moreover have "replybuf t ! (0 + (23 * m + 22)) = q ! m ! 22"
    using assms m by (intro more_byte [where r = r]) (simp_all add: page_ok_def)
  ultimately show ?thesis by (simp add: asks_again_def m algebra_simps)
qed (auto simp: asks_again_def)

lemma serdir_stops:
  "\<not> (24 \<le> n \<and> replybuf t ! (1 + ((n - 1) div 23 - 1) * 23 + 21) \<noteq> 0) \<Longrightarrow> serdir_loop dev port hid n e t = Some (e, t)"
  by (subst serdir_loop.simps) (auto simp: Let_def not_le)

text \<open>
  The pages a server has after the first, each with the link state after it, and those of them that
  SERDIR asks for.
\<close>

fun pages_from :: "'l rpc_fun \<Rightarrow> u16 \<Rightarrow> byte \<Rightarrow> 'l \<Rightarrow> (byte list list \<times> 'l) list \<Rightarrow> bool" where
  "pages_from rpc port hid l [] = True"
| "pages_from rpc port hid l ((q, l') # qs) =
     (answers rpc port CMD_LIST_DIR_NEXT [hid] l (SERRPC_OK STATUS_OK (concat q), l') \<and> page_ok q \<and>
      pages_from rpc port hid l' qs)"

fun asked_for :: "bool \<Rightarrow> (byte list list \<times> 'l) list \<Rightarrow> (byte list list \<times> 'l) list" where
  "asked_for b [] = []"
| "asked_for b ((q, l) # qs) = (if b then (q, l) # asked_for (asks_again q) qs else [])"

definition last_link :: "'l \<Rightarrow> (byte list list \<times> 'l) list \<Rightarrow> 'l" where
  "last_link l qs = (if qs = [] then l else snd (last qs))"

definition shown :: "(byte list list \<times> 'l) list \<Rightarrow> byte list list" where
  "shown qs = concat (map fst qs)"

lemma serdir_loop_pages:
  assumes "pages_from (dev_rpc dev) port hid (tlink t) qs" "length (replybuf t) = 512"
    and "go \<longleftrightarrow> 24 \<le> n \<and> replybuf t ! (1 + ((n - 1) div 23 - 1) * 23 + 21) \<noteq> 0"
    and "\<not> (if qs = [] then go else asks_again (fst (last qs)))"
  shows "\<exists>b. serdir_loop dev port hid n e t = Some (e + length (shown (asked_for go qs)),
    t\<lparr>tlink := last_link (tlink t) (asked_for go qs), replybuf := b,
      printed := printed t @ map print_entry (shown (asked_for go qs))\<rparr>)"
  using assms
proof (induction qs arbitrary: t n e go)
  case Nil
  then show ?case
    using serdir_stops [of n t dev port hid e] by (intro exI [of _ "replybuf t"]) (simp add: shown_def last_link_def)
next
  case (Cons x qs)
  obtain q l2 where x: "x = (q, l2)" by fastforce
  show ?case
  proof (cases go)
    case False
    have "serdir_loop dev port hid n e t = Some (e, t)"
      by (rule serdir_stops) (use False Cons.prems(3) in blast)
    moreover have "asked_for go (x # qs) = []" using False by (simp add: x)
    ultimately show ?thesis by (intro exI [of _ "replybuf t"]) (simp add: shown_def last_link_def)
  next
    case True
    let ?t = "t\<lparr>tlink := l2, replybuf := concat q @ drop (23 * length q) (replybuf t), printed := printed t @ map print_entry q\<rparr>"
    have q: "page_ok q" "answers (dev_rpc dev) port CMD_LIST_DIR_NEXT [hid] (tlink t) (SERRPC_OK STATUS_OK (concat q), l2)"
      using Cons.prems(1) by (simp_all add: x)
    have lq: "length (concat q) = 23 * length q" "length q \<le> 22"
      using q(1) length_concat_page [of q 23] by (auto simp: page_ok_def)
    have step: "serdir_loop dev port hid n e t = serdir_loop dev port hid (23 * length q) (e + length q) ?t"
      using serdir_turn [OF _ _ Cons.prems(2) q(2,1)] True Cons.prems(3) by blast
    have "\<exists>b. serdir_loop dev port hid (23 * length q) (e + length q) ?t =
      Some (e + length q + length (shown (asked_for (asks_again q) qs)),
        ?t\<lparr>tlink := last_link (tlink ?t) (asked_for (asks_again q) qs), replybuf := b,
          printed := printed ?t @ map print_entry (shown (asked_for (asks_again q) qs))\<rparr>)"
    proof (rule Cons.IH)
      show "asks_again q \<longleftrightarrow> 24 \<le> 23 * length q \<and> replybuf ?t ! (1 + ((23 * length q - 1) div 23 - 1) * 23 + 21) \<noteq> 0"
        using serdir_tests [OF q(1), of ?t] by (simp del: length_concat)
      show "length (replybuf ?t) = 512" using lq Cons.prems(2) by (simp del: length_concat)
      show "\<not> (if qs = [] then asks_again q else asks_again (fst (last qs)))"
        using Cons.prems(4) by (simp add: x split: if_splits)
    qed (use Cons.prems(1) in \<open>simp add: x\<close>)
    then show ?thesis
      using True by (auto simp: step x shown_def last_link_def simp del: length_concat)
  qed
qed

text \<open>The request of SERDIR: a drive letter that the server ignores, then the path.\<close>

definition serdir_path :: "string list \<Rightarrow> string" where
  "serdir_path argv = (if length argv \<ge> 4 then argv ! 3 else [CHR 0x5C])"

definition serdir_request :: "byte list \<Rightarrow> string \<Rightarrow> byte list" where
  "serdir_request b path = (strncpy (b[0 := 0x58]) 1 (bytes_of path) 510)[511 := 0, 1 + length path := 0]"

lemma serdir_request_bytes:
  assumes "length b = 512" "length path \<le> 127"
  shows "length (serdir_request b path) = 512"
    "take (1 + length path + 1) (serdir_request b path) = 0x58 # bytes_of path @ [0]"
proof -
  obtain x zs where b: "b = x # zs" "length zs = 511" using assms(1) by (cases b) auto
  have r: "510 - length path = Suc (509 - length path)" using assms(2) by simp
  show "length (serdir_request b path) = 512" using assms by (simp add: serdir_request_def)
  show "take (1 + length path + 1) (serdir_request b path) = 0x58 # bytes_of path @ [0]"
    using assms(2) b by (simp add: serdir_request_def strncpy_eq list_update_append r)
qed

text \<open>
  C27: what SERDIR prints of a directory that the server gives in pages \<open>p\<close>, \<open>qs\<close>, and how many it asks
  for. After the first page it asks for the next exactly if the flag of the last entry says that there
  are more. After a later page it looks for the flag at the wrong place: it asks again exactly if the
  page has two entries at least and the last byte of the entry before the last is set, and stops
  otherwise, whatever the flag says. The entries of the pages asked for are printed once and in order,
  with their number.
\<close>

theorem serdir_prints_pages:
  assumes "3 \<le> length argv" "parse_port (argv ! 1) = port" "port \<noteq> 0"
    and "seruart_baud_to_div (atol (argv ! 2)) = dv" "dv \<noteq> 0" "length (serdir_path argv) \<le> 127"
    and "length (reqbuf t) = 512" "length (replybuf t) = 512"
    and "answers (dev_rpc dev) port CMD_LIST_DIR (0x58 # bytes_of (serdir_path argv) @ [0]) (fresh_link dev port dv t)
      (SERRPC_OK STATUS_OK (hid # concat p), l1)" "page_ok p"
    and "pages_from (dev_rpc dev) port hid l1 qs"
    and "\<not> (if qs = [] then says_more p else asks_again (fst (last qs)))"
    and "asked = asked_for (says_more p) qs"
  shows "\<exists>t'. serdir_main dev argv t = Some (0, t') \<and> tlink t' = last_link l1 asked \<and>
    printed t' = printed t @ map print_entry (p @ shown asked) @
      [Printf (nl @ ''  %u entry(s)'' @ nl) [PNum (length p + length (shown asked))]]"
proof -
  let ?path = "serdir_path argv"
  let ?t = "(tool_open dev port dv t)\<lparr>reqbuf := serdir_request (reqbuf t) ?path\<rparr>"
  let ?rp = "hid # concat p"
  let ?b = "copy_at (replybuf t) 0 ?rp (length ?rp)"
  have lp: "length ?rp = 1 + 23 * length p" "length p \<le> 22"
    using assms(10) length_concat_page [of p 23] by (auto simp: page_ok_def)
  have call: "tool_rpc dev port CMD_LIST_DIR (1 + length ?path + 1) ?t =
      Some (Some (STATUS_OK, length ?rp), ?t\<lparr>tlink := l1, replybuf := ?b\<rparr>)"
    using serdir_request_bytes [OF assms(7,6)] assms(6,9)
      tool_rpc_ok [of dev port CMD_LIST_DIR "0x58 # bytes_of ?path @ [0]" ?t STATUS_OK ?rp l1 "1 + length ?path + 1"]
    by (simp add: tool_open_def del: copy_at.simps)
  have b: "drop 1 ?b = concat p @ drop (1 + 23 * length p) (replybuf t)" "?b ! 0 = hid" "length ?b = 512"
    using lp assms(8) by (simp_all add: copy_at_eq del: copy_at.simps)
  let ?t1 = "?t\<lparr>tlink := l1, replybuf := ?b\<rparr>"
  let ?t2 = "?t1\<lparr>printed := printed t @ map print_entry p\<rparr>"
  have print: "serdir_print 1 (length ?rp) 0 ?t1 = (length p, ?t2)"
    using serdir_print_page [OF assms(10), of 1 ?t1 _ 0] b(1) lp(1) by (simp add: tool_open_def del: copy_at.simps)
  have more: "says_more p \<longleftrightarrow> 24 \<le> 1 + 23 * length p \<and> ?b ! (1 + ((1 + 23 * length p - 1) div 23 - 1) * 23 + 21) \<noteq> 0"
  proof (cases p)
    case (Cons e es)
    then obtain m where m: "length p = Suc m" by simp
    have "?b ! (1 + (23 * m + 21)) = p ! m ! 21"
      using assms(10) b(1) m by (intro more_byte) (simp_all add: page_ok_def)
    moreover have "p \<noteq> []" using m by auto
    moreover from this have "last p = p ! m" using last_conv_nth [of p] m by simp
    ultimately show ?thesis by (simp add: says_more_def m algebra_simps del: copy_at.simps)
  qed (simp add: says_more_def)
  have "\<exists>c. serdir_loop dev port hid (1 + 23 * length p) (length p) ?t2 =
    Some (length p + length (shown (asked_for (says_more p) qs)),
      ?t2\<lparr>tlink := last_link (tlink ?t2) (asked_for (says_more p) qs), replybuf := c,
        printed := printed ?t2 @ map print_entry (shown (asked_for (says_more p) qs))\<rparr>)"
    by (rule serdir_loop_pages) (use assms(11,12) more b(3) in \<open>simp_all del: copy_at.simps\<close>)
  then obtain c where loop: "serdir_loop dev port hid (1 + 23 * length p) (length p) ?t2 =
      Some (length p + length (shown asked), ?t1\<lparr>tlink := last_link l1 asked, replybuf := c,
        printed := printed t @ map print_entry p @ map print_entry (shown asked)\<rparr>)"
    by (auto simp: assms(13) simp del: copy_at.simps)
  have request: "(strncpy ((reqbuf t)[0 := 0x58]) (Suc 0) (bytes_of ?path) 510)[511 := 0, Suc (length ?path) := 0] =
      serdir_request (reqbuf t) ?path"
    by (simp add: serdir_request_def)
  have "serdir_main dev argv t =
      Some (0, printf (nl @ ''  %u entry(s)'' @ nl) [PNum (length p + length (shown asked))]
        (?t1\<lparr>tlink := last_link l1 asked, replybuf := c,
          printed := printed t @ map print_entry p @ map print_entry (shown asked)\<rparr>))"
    using call print loop b(2) lp(1) assms(6)
    by (simp add: serdir_main_def tool_args_ok [OF assms(1-5)] Let_def serdir_path_def [symmetric]
        request tool_open_def del: copy_at.simps)
  then show ?thesis by (simp add: printf_def tool_open_def)
qed

text \<open>
  A directory of four pages; the flags of the first three say that there are more. The third is asked
  for, because the last byte of the first entry of the second page is set; the fourth is not.
\<close>

definition paged_server :: "byte \<Rightarrow> byte list \<Rightarrow> nat \<Rightarrow> byte list \<times> nat" where
  "paged_server cmd req k =
     (if cmd = CMD_LIST_DIR then (9 # (demo_entry 0x41)[21 := 1], 0)
      else if k = 0 then ((demo_entry 0x42)[22 := 1] @ (demo_entry 0x43)[21 := 1], 1)
      else ((demo_entry 0x44)[21 := 1], k + 1))"

theorem serdir_prints_pages_witness:
  "\<exists>t'. serdir_main (demo_dev (fun_rpc paged_server)) [''SERDIR'', ''COM1'', ''9600''] (demo_tool 0) = Some (0, t') \<and>
     tlink t' = 2 \<and> length (printed t') = 5 \<and> says_more [(demo_entry 0x44)[21 := 1]]"
proof -
  let ?argv = "[''SERDIR'', ''COM1'', ''9600'']" and ?p = "[(demo_entry 0x41)[21 := 1]]"
    and ?qs = "[([(demo_entry 0x42)[22 := 1], (demo_entry 0x43)[21 := 1]], 1), ([(demo_entry 0x44)[21 := 1]], 2 :: nat)]"
  have e: "length (demo_entry c) = 23" for c by (simp add: demo_entry_def)
  have m: "says_more ?p" "asks_again [(demo_entry 0x42)[22 := 1], (demo_entry 0x43)[21 := 1]]"
    "\<not> asks_again [(demo_entry 0x44)[21 := 1]]" "says_more [(demo_entry 0x44)[21 := 1]]"
    by (simp_all add: says_more_def asks_again_def e)
  then have a: "asked_for (says_more ?p) ?qs = ?qs" by simp
  have "\<exists>t'. serdir_main (demo_dev (fun_rpc paged_server)) ?argv (demo_tool 0) = Some (0, t') \<and> tlink t' = last_link 0 ?qs \<and>
      printed t' = printed (demo_tool (0 :: nat)) @ map print_entry (?p @ shown ?qs) @
        [Printf (nl @ ''  %u entry(s)'' @ nl) [PNum (length ?p + length (shown ?qs))]]"
    by (rule serdir_prints_pages [where port = 1 and dv = 12 and hid = 9 and qs = ?qs])
      (simp_all add: demo_args serdir_path_def page_ok_def m e paged_server_def fun_rpc_answers)
  then show ?thesis using m(4) by (auto simp: last_link_def shown_def)
qed

end
