(* ===== verification/Sdf_Exerciser.thy ===== *)
theory Sdf_Exerciser
  imports Sdf_Entry Sdf_Transfers
begin

text \<open>
  \<open>dos/tools/i2fexer.c\<close>: it puts a path where DOS would and calls the redirector through INT 2Fh, to
  test the resident program under a DOS emulator that goes past it. The services it calls are the functions of
  \<open>exer_os\<close>; with \<open>resident_os\<close> they are those of a machine on which a copy is resident, so that the
  probe and \<open>inthandler\<close> run together.
\<close>

section \<open>Definitions\<close>

record 's exer_os =
  os_sda :: "'s \<Rightarrow> fp"
  os_mem :: "'s \<Rightarrow> memory"
  os_poke :: "memory \<Rightarrow> 's \<Rightarrow> 's"
  os_regs :: "'s \<Rightarrow> intpack"
  os_ds :: "'s \<Rightarrow> u16"
  os_int2f :: "intpack \<Rightarrow> 's \<Rightarrow> (intpack \<times> 's) option"

primrec sda_path_loop :: "memory \<Rightarrow> fp \<Rightarrow> nat \<Rightarrow> byte list \<Rightarrow> memory \<times> nat" where
  "sda_path_loop m fn1 i [] = (m, i)"
| "sda_path_loop m fn1 i (c # cs) =
     (if i < 127 then sda_path_loop (poke8 m (fadd fn1 (of_nat i)) c) fn1 (i + 1) cs else (m, i))"

definition copy_path_to_sda :: "memory \<Rightarrow> fp \<Rightarrow> byte list \<Rightarrow> memory" where
  "copy_path_to_sda m sdap path =
     (let fn1 = fadd sdap SDA_FN1; (m, i) = sda_path_loop m fn1 0 path in poke8 m (fadd fn1 (of_nat i)) 0)"

abbreviation (input) dash :: string where "dash \<equiv> [CHR 0xE2, CHR 0x80, CHR 0x94]"

text \<open>The registers at the INT 2Fh; \<open>xor di, di\<close> sets the zero and parity flags and clears the others.\<close>

definition exer_regs :: "u16 \<Rightarrow> intpack \<Rightarrow> intpack" where
  "exer_regs ds r = r\<lparr>ax := 0x110F, di := 0, es := ds, flags := flags r AND NOT 0x8D5 OR 0x44\<rparr>"

definition do_getattr :: "'s exer_os \<Rightarrow> byte list \<Rightarrow> 's \<times> outp list \<Rightarrow> (int \<times> 's \<times> outp list) option" where
  "do_getattr os path = (\<lambda>(s, out).
     let sdap = os_sda os s in
     if sdap = NULL
     then Some (1, s, out @ [Printf (''ERROR: getsda() returned NULL '' @ dash @ '' INT 21h AH=5D06h failed.'' @ nl) []])
     else
       let s = os_poke os (copy_path_to_sda (os_mem os s) sdap path) s;
           shown = takeWhile (\<lambda>b. b \<noteq> 0) (peek_bytes (os_mem os s) (fadd sdap SDA_FN1) 80);
           out = out @ [Printf ''SDA fn1 set to: '' [], Fwrite (shown @ [10])] in
       do { (r, s) \<leftarrow> os_int2f os (exer_regs (os_ds os s) (os_regs os s)) s;
            let out = out @ [Printf (''INT 2Fh AX=110Fh -> AX=%04X CF=%d ES:DI=%04X:%04X'' @ nl)
              [PNum (unat (ax r)), PInt (uint (flags r AND 1)), PNum (unat (es r)), PNum (unat (di r))]] in
            Some (if ax r = 0x110F
                  then (2, s, out @ [Printf (''RESULT: TSR did not handle the call (AX unchanged).'' @ nl) []])
                  else if flags r AND 1 \<noteq> 0
                  then (3, s, out @ [Printf (''RESULT: GETATTR failed with DOS error %u.'' @ nl) [PNum (unat (ax r))]])
                  else (0, s, out @ [Printf (''RESULT: GETATTR ok.'' @ nl) []])) })"

definition i2fexer_main :: "'s exer_os \<Rightarrow> string list \<Rightarrow> 's \<times> outp list \<Rightarrow> (int \<times> 's \<times> outp list) option" where
  "i2fexer_main os argv = (\<lambda>(s, out).
     if length argv < 3
     then Some (1, s, out @ [Printf (''Usage: i2fexer GETATTR <drive>:'' @ [CHR 0x5C] @ ''<path>'' @ nl) []])
     else if argv ! 1 = ''GETATTR'' then do_getattr os (bytes_of (argv ! 2)) (s, out)
     else Some (1, s, out @ [Printf (''Unknown subcommand: %s'' @ nl) [PStr (argv ! 1)]]))"

text \<open>
  The machine with a resident copy. \<open>prev\<close> is the rest of the INT 2Fh chain, \<open>rst\<close> the status variable
  on the stack, \<open>w\<close> the word on the caller's stack and \<open>ds\<close>, \<open>off\<close> the address of the resident data.
\<close>

definition resident_os :: "'l rpc_fun \<Rightarrow> (fp \<Rightarrow> intpack \<Rightarrow> 'l tsr \<Rightarrow> (intpack \<times> 'l tsr) option) \<Rightarrow>
    byte \<Rightarrow> u16 \<Rightarrow> u16 \<Rightarrow> u16 \<Rightarrow> (intpack \<times> u16) \<Rightarrow> 'l tsr exer_os" where
  "resident_os rpc prev rst w ds off cpu = \<lparr>os_sda = glob_sdaptr, os_mem = mem, os_poke = \<lambda>m s. s\<lparr>mem := m\<rparr>,
     os_regs = \<lambda>_. fst cpu, os_ds = \<lambda>_. snd cpu,
     os_int2f = \<lambda>r s. do { (out, r', s') \<leftarrow> inthandler rpc rst w ds off r s;
       case out of Return \<Rightarrow> Some (r', s') | Chain p \<Rightarrow> prev p r' s' }\<rparr>"

section \<open>The path in the swap area\<close>

lemma poke_bytes_snoc:
  "poke_bytes m p (xs @ [c]) = poke8 (poke_bytes m p xs) (fadd p (of_nat (length xs))) c"
  by (induction xs arbitrary: m p) (simp_all add: add.commute)

lemma sda_path_loop_eq:
  "length pre \<le> 127 \<Longrightarrow> sda_path_loop (poke_bytes m p pre) p (length pre) cs =
     (poke_bytes m p (pre @ take (127 - length pre) cs), length pre + min (127 - length pre) (length cs))"
proof (induction cs arbitrary: pre)
  case (Cons c cs)
  show ?case
  proof (cases "length pre < 127")
    case True
    have "sda_path_loop (poke_bytes m p pre) p (length pre) (c # cs) =
        sda_path_loop (poke_bytes m p (pre @ [c])) p (length (pre @ [c])) cs"
      using True by (simp add: poke_bytes_snoc)
    also have "\<dots> = (poke_bytes m p (pre @ c # take (126 - length pre) cs), Suc (length pre) + min (126 - length pre) (length cs))"
      using True Cons.IH [of "pre @ [c]"] by simp
    moreover have "127 - length pre = Suc (126 - length pre)" using True by simp
    ultimately show ?thesis by simp
  qed simp
qed simp

lemma copy_path_to_sda_eq:
  "copy_path_to_sda m sdap path = poke_bytes m (fadd sdap SDA_FN1) (take 127 path @ [0])"
  using sda_path_loop_eq [of "[]" m "fadd sdap SDA_FN1" path]
  by (simp add: copy_path_to_sda_def poke_bytes_snoc Let_def min.commute)

lemma sda_poke_path:
  assumes "sda_fits s" "0 \<notin> set path"
  shows "path_there (s\<lparr>mem := copy_path_to_sda (mem s) (glob_sdaptr s) path\<rparr>) (take 127 path)"
proof -
  let ?m = "copy_path_to_sda (mem s) (glob_sdaptr s) path" and ?b = "take 127 path"
  have f: "fits (sda s SDA_FN1) (length (?b @ [0]))"
    using assms(1) fits_fadd [of "glob_sdaptr s" "0x300" SDA_FN1 "length (?b @ [0])"] by (simp add: sda_fits_def)
  have "peek_bytes ?m (sda s SDA_FN1) (length ?b + 1) = ?b @ [0]"
    unfolding copy_path_to_sda_eq using peek_poke_bytes_same [OF f, of "mem s"] by simp
  moreover have "0 \<notin> set ?b" "length ?b < 128" using assms(2) by (auto dest: in_set_takeD simp: min_def)
  ultimately show ?thesis using assms(1) by (simp add: path_there_def sda_fits_def cstring_def)
qed

section \<open>GETATTR through the redirector\<close>

text \<open>The registers of the probe, and the request it makes for a path in the swap area.\<close>

lemma getattr_call:
  assumes "path_there s bs" "2 \<le> length bs" "tsr_ok k s" "glob_multiplexid s \<noteq> 0x11" "length rp \<le> 512"
    and "DRIVETONUM (hd bs) = d" "d \<le> 25" "ldrv (glob_data s) ! unat d \<noteq> 0xFF" "ax r = 0x110F"
    and "answers rpc (comport (glob_data s)) CMD_GET_ATTR (path_req 0 bs) (link s) (SERRPC_OK st rp, l')"
  shows "\<exists>s'. inthandler rpc rst w ds off r s = Some (Return, glob_intregs s', s') \<and> link s' = l' \<and>
    (if st = STATUS_OK \<and> 9 \<le> length rp
     then ax (glob_intregs s') = ucast (rp ! 0) \<and> flags (glob_intregs s') AND 1 = 0
     else ax (glob_intregs s') = ucast (if st = STATUS_OK then 2 else dos_err_from_status st) \<and> flags (glob_intregs s') AND 1 \<noteq> 0)"
proof -
  let ?e = "entered w d bs r s"
  have al: "reg_al r = AL_GETATTR" "reg_ah r = 0x11" using assms(9) by (simp_all add: reg_al_def reg_ah_def)
  have nr: "\<not> not_redirector r" using al by (simp add: not_redirector_def supportedfunctions_def)
  have fn1: "peek8 (mem s) (sda s SDA_FN1) = hd bs"
    using assms(1,2) cstring_nth [of "mem s" "sda s SDA_FN1" bs 0] by (cases bs) (auto simp: path_there_def)
  have d: "d = requested_drive r s" using al assms(6) fn1 by (simp add: requested_drive_def)
  have "cstring (mem ?e) (sda s SDA_FN1) bs"
    using fn_at_entered [of s SDA_FN1 bs] assms(1) by (simp add: entered_def path_there_def)
  then have p: "path_at ?e bs"
    using assms(1-3) by (simp add: path_at_def entered_def path_there_def tsr_ok_def)
  have "\<exists>s'. process2f rpc rst ?e = Some s' \<and> link s' = l' \<and> mem s' = mem ?e \<and>
    (if st = STATUS_OK \<and> 9 \<le> length rp
     then glob_intregs s' = (glob_intregs (SUCCESSFLAG ?e))\<lparr>ax := ucast (rp ! 0), di := get16 rp 1,
        bx := get16 rp 3, dx := get16 rp 5, cx := get16 rp 7\<rparr>
     else reports (if st = STATUS_OK then 2 else dos_err_from_status st) s')"
    by (rule getattr_spec [OF _ p assms(5)]) (use al assms(10) in \<open>simp_all add: entered_def\<close>)
  then obtain s' where s': "process2f rpc rst ?e = Some s'" "link s' = l'"
    "if st = STATUS_OK \<and> 9 \<le> length rp
     then glob_intregs s' = (glob_intregs (SUCCESSFLAG ?e))\<lparr>ax := ucast (rp ! 0), di := get16 rp 1,
        bx := get16 rp 3, dx := get16 rp 5, cx := get16 rp 7\<rparr>
     else reports (if st = STATUS_OK then 2 else dos_err_from_status st) s'" by blast
  have "inthandler rpc rst w ds off r s = Some (Return, glob_intregs s', s')"
    using inthandler_dispatches [OF assms(4) nr _ assms(1) d] assms(7,8) al s'(1) by simp
  moreover have "bit f 0 \<longleftrightarrow> f AND 1 \<noteq> 0" for f :: u16
    by (simp add: and_one_eq odd_iff_mod_2_eq_one bit_0)
  ultimately show ?thesis
    using s'(2,3) by (auto simp: reports_def SUCCESSFLAG_def and.assoc split: if_splits)
qed

lemma small_ax: "(ucast (b :: byte) :: u16) \<noteq> 0x110F"
proof
  assume "(ucast b :: u16) = 0x110F"
  then have "unat (ucast b :: u16) = 0x110F" by simp
  then show False using byte_less [of b] by simp
qed

section \<open>Properties\<close>

text \<open>
  C38: with a copy resident, I2FEXER GETATTR on a path of a mapped drive makes the resident program
  ask the peer for the attributes of exactly this path, and the exit code and the last line say what
  the peer answered: 0 for a full reply of status OK, 3 with the DOS error otherwise, never that the
  call was not handled.
\<close>

theorem i2fexer_reports:
  assumes "3 \<le> length argv" "argv ! 1 = ''GETATTR''" "bytes_of (argv ! 2) = path" "0 \<notin> set path"
    and "2 \<le> length path" "length path \<le> 127" "tsr_ok k s" "sda_fits s" "glob_sdaptr s \<noteq> NULL"
    and "glob_multiplexid s \<noteq> 0x11" "DRIVETONUM (hd path) = d" "d \<le> 25" "ldrv (glob_data s) ! unat d \<noteq> 0xFF"
    and "answers rpc (comport (glob_data s)) CMD_GET_ATTR (path_req 0 path) (link s) (SERRPC_OK st rp, l')" "length rp \<le> 512"
  shows "\<exists>s' out'. i2fexer_main (resident_os rpc prev rst w ds off cpu) argv (s, out) =
      Some (if st = STATUS_OK \<and> 9 \<le> length rp then 0 else 3, s', out') \<and> link s' = l' \<and>
    last out' = (if st = STATUS_OK \<and> 9 \<le> length rp then Printf (''RESULT: GETATTR ok.'' @ nl) []
      else Printf (''RESULT: GETATTR failed with DOS error %u.'' @ nl) [PNum (unat (if st = STATUS_OK then 2 else dos_err_from_status st))])"
proof -
  let ?s = "s\<lparr>mem := copy_path_to_sda (mem s) (glob_sdaptr s) path\<rparr>"
  let ?r = "exer_regs (snd cpu) (fst cpu)"
  have p: "path_there ?s path" using sda_poke_path [OF assms(8,4)] assms(6) by simp
  have ok: "tsr_ok k ?s" using assms(7) by (simp add: tsr_ok_def)
  have ids: "glob_multiplexid ?s \<noteq> 0x11" "ldrv (glob_data ?s) ! unat d \<noteq> 0xFF"
    "answers rpc (comport (glob_data ?s)) CMD_GET_ATTR (path_req 0 path) (link ?s) (SERRPC_OK st rp, l')" "ax ?r = 0x110F"
    using assms(10,13,14) by (simp_all add: exer_regs_def)
  obtain s' where s': "inthandler rpc rst w ds off ?r ?s = Some (Return, glob_intregs s', s')" "link s' = l'"
    "if st = STATUS_OK \<and> 9 \<le> length rp
     then ax (glob_intregs s') = ucast (rp ! 0) \<and> flags (glob_intregs s') AND 1 = 0
     else ax (glob_intregs s') = ucast (if st = STATUS_OK then 2 else dos_err_from_status st) \<and> flags (glob_intregs s') AND 1 \<noteq> 0"
    using getattr_call [OF p assms(5) ok ids(1) assms(15,11,12) ids(2,4,3)] by blast
  have call: "i2fexer_main (resident_os rpc prev rst w ds off cpu) argv (s, out) =
      do_getattr (resident_os rpc prev rst w ds off cpu) path (s, out)"
    using assms(1-3) by (simp add: i2fexer_main_def)
  show ?thesis
    unfolding call using s' assms(9) small_ax
    by (cases "st = STATUS_OK \<and> 9 \<le> length rp") (auto simp: do_getattr_def resident_os_def Let_def)
qed

theorem i2fexer_reports_witness:
  "\<exists>s' out'. i2fexer_main (resident_os demo_rpc (\<lambda>p r s. Some (r, s)) 0 0 0 0 (\<lparr>ax = 0, bx = 0, cx = 0, dx = 0, di = 9, es = 0, flags = 1\<rparr>, 0x2000))
     [''I2FEXER'', ''GETATTR'', ''C:x''] (demo_tsr 0 0 (0, 0) 0, []) = Some (0, s', out')"
proof -
  have b: "bytes_of ''C:x'' = [0x43, 0x3A, 0x78]" by (simp add: bytes_of_def)
  have "tsr_ok (\<lambda>_. True) (demo_tsr 0 0 (0, 0) 0)" by (simp add: tsr_ok_def)
  moreover have "answers demo_rpc 1 CMD_GET_ATTR (path_req 0 [0x43, 0x3A, 0x78]) demo_file (SERRPC_OK STATUS_OK demo_attrs, demo_file)"
    by (rule demo_answers) (simp add: demo_reply_def)
  ultimately show ?thesis
    using i2fexer_reports [where argv = "[''I2FEXER'', ''GETATTR'', ''C:x'']" and path = "[0x43, 0x3A, 0x78]"
        and s = "demo_tsr 0 0 (0, 0) 0" and rpc = demo_rpc and st = STATUS_OK and rp = demo_attrs and l' = demo_file and d = 2
        and k = "\<lambda>_. True" and cpu = "(\<lparr>ax = 0, bx = 0, cx = 0, dx = 0, di = 9, es = 0, flags = 1\<rparr>, 0x2000)"
        and prev = "\<lambda>p r s. Some (r, s)" and out = "[]" and rst = 0 and w = 0 and ds = 0 and off = 0]
    by (auto simp: b sda_fits_def DRIVETONUM_def demo_attrs_def)
qed

end
