(* ===== verification/Sdf_Probes.thy ===== *)
theory Sdf_Probes
  imports Sdf_Transfers Sdf_Line
begin

text \<open>
  The probes of \<open>dos/tools\<close> that test the transport below the redirector: SERPING sends one frame and
  judges the answer, CRCFUZZ runs the decoder over the golden vectors of the repository. Both have
  static buffers of their own and do not use the serial RPC.
\<close>

section \<open>SERPING\<close>

record 'h ping =
  pline :: 'h
  ptxbuf :: "byte list"
  prxbuf :: "byte list"
  pcrc :: crc_static
  says :: "outp list"

abbreviation (input) PING_SEQ :: byte where "PING_SEQ \<equiv> 1"
abbreviation (input) TIMEOUT_TICKS :: u16 where "TIMEOUT_TICKS \<equiv> 36"

text \<open>The return code of \<open>frame_decode\<close> for an error.\<close>

fun frame_rc :: "frame_err \<Rightarrow> int" where
  "frame_rc FRAME_SHORT = -1"
| "frame_rc FRAME_BADMAGIC = -2"
| "frame_rc FRAME_BADVER = -3"
| "frame_rc FRAME_BADCRC = -4"
| "frame_rc FRAME_TOOLONG = -5"

definition ping_end :: "int \<Rightarrow> string \<Rightarrow> parg list \<Rightarrow> 'h ping \<Rightarrow> int \<times> 'h ping" where
  "ping_end rc f as p = (rc, p\<lparr>says := says p @ [Printf (f @ nl) as]\<rparr>)"

definition serping_verdict :: "u32 \<Rightarrow> u32 \<Rightarrow> nat \<Rightarrow> 'h ping \<Rightarrow> int \<times> 'h ping" where
  "serping_verdict t0 t1 plen p =
     (let (rc, c) = frame_decode (prxbuf p) (FRAME_HDR_SIZE + plen + FRAME_CRC_SIZE) (pcrc p); p = p\<lparr>pcrc := c\<rparr> in
      case rc of
        Inl e \<Rightarrow> ping_end 1 ''FAIL decode %d'' [PInt (frame_rc e)] p
      | Inr (hdr, _, _) \<Rightarrow>
          if seq hdr \<noteq> PING_SEQ then ping_end 1 ''FAIL seq mismatch'' [] p
          else if command hdr \<noteq> CMD_PING then ping_end 1 ''FAIL bad cmd 0x%02X'' [PNum (unat (command hdr))] p
          else if status hdr \<noteq> STATUS_OK then ping_end 1 ''FAIL status 0x%02X'' [PNum (unat (status hdr))] p
          else if t1 > t0 then ping_end 0 ''OK (%lu ticks)'' [PNum (unat (t1 - t0))] p
          else ping_end 0 ''OK (<1 tick)'' [] p)"

definition serping_receive :: "'h uart_ops \<Rightarrow> u16 \<Rightarrow> u32 \<Rightarrow> 'h ping \<Rightarrow> (int \<times> 'h ping) option" where
  "serping_receive ops port t0 p =
     do { (rxlen, buf, h) \<leftarrow> seruart_recv_block_timeout ops port (prxbuf p) 0 FRAME_HDR_SIZE TIMEOUT_TICKS (pline p);
          let p = p\<lparr>prxbuf := buf, pline := h\<rparr> in
          if rxlen < FRAME_HDR_SIZE then Some (ping_end 1 ''FAIL timeout (header)'' [] p)
          else let plen = unat (get_le16 (buf ! 8) (buf ! 9)) in
            if plen > FRAME_MAX_PAYLOAD then Some (ping_end 1 ''FAIL oversized payload'' [] p)
            else do {
              (got, buf, h) \<leftarrow> seruart_recv_block_timeout ops port buf FRAME_HDR_SIZE (plen + FRAME_CRC_SIZE) TIMEOUT_TICKS h;
              let p = p\<lparr>prxbuf := buf, pline := h\<rparr> in
              if got < plen + FRAME_CRC_SIZE then Some (ping_end 1 ''FAIL timeout (payload)'' [] p)
              else let (t1, h) = seruart_ticks ops h in Some (serping_verdict t0 t1 plen (p\<lparr>pline := h\<rparr>)) } }"

definition serping_usage :: string where
  "serping_usage = ''Usage: SERPING COM1|COM2 9600|19200|38400|57600'' @ nl"

definition serping_main :: "'h uart_ops \<Rightarrow> string list \<Rightarrow> 'h ping \<Rightarrow> (int \<times> 'h ping) option" where
  "serping_main ops argv p =
     (case tool_args 3 serping_usage argv of
        Inl (f, as) \<Rightarrow> Some (1, p\<lparr>says := says p @ [Printf f as]\<rparr>)
      | Inr (port, dv) \<Rightarrow>
          let h = seruart_drain ops port (seruart_init ops port dv (pline p));
              (txlen, buf, c) = frame_encode CMD_PING PING_SEQ FLAG_NONE STATUS_OK [] 0 (ptxbuf p) (pcrc p);
              (t0, h) = seruart_ticks ops h in
          do { h \<leftarrow> seruart_send_block ops port buf txlen h;
               serping_receive ops port t0 (p\<lparr>pline := h, ptxbuf := buf, pcrc := c\<rparr>) })"

text \<open>The buffers of a fresh program image.\<close>

definition ping_ok :: "'h ping \<Rightarrow> bool" where
  "ping_ok p \<longleftrightarrow> length (ptxbuf p) = FRAME_HDR_SIZE + FRAME_CRC_SIZE \<and> length (prxbuf p) = FRAME_MAX_SIZE \<and> crc_ok (pcrc p)"

lemma ping_frame:
  assumes "ping_ok p"
  obtains c where "frame_encode CMD_PING PING_SEQ FLAG_NONE STATUS_OK [] 0 (ptxbuf p) (pcrc p) =
    (12, frame_wire CMD_PING PING_SEQ 0 0 [], c)" "crc_ok c"
  using frame_encode_spec [of "pcrc p" 0 "[]" "ptxbuf p" CMD_PING PING_SEQ 0 0] assms by (auto simp: ping_ok_def)

lemma ping_end_fields [simp]:
  "fst (ping_end rc f as p) = rc" "prxbuf (snd (ping_end rc f as p)) = prxbuf p"
  "ping_end rc f as p = (rc', p') \<longleftrightarrow> rc' = rc \<and> p' = p\<lparr>says := says p @ [Printf (f @ nl) as]\<rparr>"
  by (auto simp: ping_end_def)

definition ping_reply_at :: "byte list \<Rightarrow> bool" where
  "ping_reply_at buf \<longleftrightarrow> (\<exists>n. frame_at buf n) \<and> seq (hdr_at buf) = PING_SEQ \<and>
     command (hdr_at buf) = CMD_PING \<and> status (hdr_at buf) = STATUS_OK"

lemma verdict_sound:
  assumes "serping_verdict t0 t1 plen p = (0, p')" "crc_ok (pcrc p)" "12 + plen \<le> length (prxbuf p)"
  shows "ping_reply_at (prxbuf p')"
proof -
  obtain rc c where d: "frame_decode (prxbuf p) (12 + plen) (pcrc p) = (rc, c)" by fastforce
  then obtain hdr off n where rc: "rc = Inr (hdr, off, n)"
    using assms(1) by (cases rc) (auto simp: serping_verdict_def)
  have "frame_at (prxbuf p) n" "hdr = hdr_at (prxbuf p)"
    using frame_decode_accepts [OF assms(2,3), of hdr off n] by (simp_all add: d rc)
  then show ?thesis
    using assms(1) by (auto simp: serping_verdict_def d rc ping_reply_at_def Let_def split: if_splits)
qed

lemma receive_sound:
  assumes "serping_receive ops port t0 p = Some (0, p')" "crc_ok (pcrc p)" "length (prxbuf p) = 524"
  shows "ping_reply_at (prxbuf p')"
proof -
  obtain rx buf h where r1: "seruart_recv_block_timeout ops port (prxbuf p) 0 10 36 (pline p) = Some (rx, buf, h)"
    using assms(1) by (auto simp: serping_receive_def split: bind_splits)
  let ?n = "unat (get_le16 (buf ! 8) (buf ! 9))"
  have c: "\<not> rx < 10" "\<not> ?n > 512" using assms(1) by (auto simp: serping_receive_def r1 Let_def split: if_splits)
  obtain g buf2 h2 where r2: "seruart_recv_block_timeout ops port buf 10 (?n + 2) 36 h = Some (g, buf2, h2)"
    using assms(1) c by (auto simp: serping_receive_def r1 Let_def split: bind_splits)
  obtain t1 h3 where t: "seruart_ticks ops h2 = (t1, h3)" by fastforce
  have v: "serping_verdict t0 t1 ?n (p\<lparr>prxbuf := buf2, pline := h3\<rparr>) = (0, p')"
    using assms(1) c by (auto simp: serping_receive_def r1 r2 t Let_def split: if_splits)
  have "length buf2 = 524" using recv_block_bounds [OF r1] recv_block_bounds [OF r2] assms(3) by simp
  then show ?thesis using verdict_sound [OF v] assms(2) c(2) by simp
qed

section \<open>A UART with a divisor latch\<close>

text \<open>
  The line of \<open>Sdf_Line\<close> behind a UART that is programmed: while the top bit of the line control
  register is set, the registers 0 and 1 are the divisor and nothing is transmitted. Once the port
  is initialised it works as the line does.
\<close>

definition latch_ops :: "peer \<Rightarrow> (line \<times> bool) uart_ops" where
  "latch_ops peer = \<lparr>hw_inp = \<lambda>p (l, d). if d \<and> p AND 7 \<in> {UART_DLL, UART_DLH} then (0, (l, d)) else apsnd (\<lambda>l. (l, d)) (line_inp p l),
     hw_outp = \<lambda>p b (l, d). if p AND 7 = UART_LCR then (l, b AND LCR_DLAB \<noteq> 0)
       else if d \<and> p AND 7 \<in> {UART_DLL, UART_DLH} then (l, d) else (line_outp peer p b l, d),
     hw_ticks = \<lambda>(l, d). apsnd (\<lambda>l. (l, d)) (line_ticks l)\<rparr>"

lemma latch_registers:
  assumes "com_port p"
  shows "hw_outp (latch_ops peer) (com_base p + UART_LCR) b (l, d) = (l, b AND LCR_DLAB \<noteq> 0)"
    "hw_outp (latch_ops peer) (com_base p + UART_IER) b (l, d) = (l, d)"
    "hw_outp (latch_ops peer) (com_base p + UART_FCR) b (l, d) = (l, d)"
    "hw_outp (latch_ops peer) (com_base p + UART_MCR) b (l, d) = (l, d)"
    "hw_outp (latch_ops peer) (com_base p) b (l, True) = (l, True)"
    "hw_inp (latch_ops peer) (com_base p + UART_IIR) (l, d) = (0, (l, d))"
  using assms by (auto simp: com_port_def com_base_def latch_ops_def line_inp_def line_outp_def)

lemma latch_ready:
  assumes "com_port p"
  shows "seruart_init (latch_ops peer) p dv (l, d) = (l, False)"
  using latch_registers(2-4) [OF assms, of peer] latch_registers(1,5,6) [OF assms, of peer]
  by (simp add: seruart_init_def Let_def)

text \<open>Once the latch is closed the machine shows the line in it.\<close>

interpretation latch: line_like "latch_ops peer" "\<lambda>l. (l, False)" for peer
  by unfold_locales (auto simp: com_port_def com_base_def latch_ops_def line_inp_def line_ticks_def seruart_ticks_def)

lemma latch_send:
  assumes "com_port p" "0 < len" "len \<le> length buf" "\<forall>j. 0 < j \<and> j < len \<longrightarrow> peer (txq l @ take j buf) = None"
    "peer (txq l @ take len buf) = Some r"
  shows "\<exists>c. seruart_send_block (latch_ops peer) p buf len (l, False) = Some (l\<lparr>rxq := rxq l @ r, txq := [], clock := c\<rparr>, False)"
proof -
  have outp: "hw_outp (latch_ops peer) (com_base p) b (l, False) = (line_outp peer (com_base p) b l, False)" for b l
    using assms(1) by (auto simp: com_port_def com_base_def latch_ops_def)
  have quiet: "hw_outp (latch_ops peer) (com_base p) (buf ! k) (l\<lparr>txq := txq l @ take k buf, clock := c\<rparr>, False) =
      (l\<lparr>txq := txq l @ take (Suc k) buf, clock := c\<rparr>, False)" if "Suc k < len" for k c
    using that assms(1,3) spec [OF assms(4), of "Suc k"] by (simp add: outp line_outp_def take_nth_Suc [of k buf])
  obtain c where "seruart_send_block (latch_ops peer) p buf len (l, False) =
      Some (hw_outp (latch_ops peer) (com_base p) (buf ! (len - 1)) (l\<lparr>txq := txq l @ take (len - 1) buf, clock := c\<rparr>, False))"
    using latch.like_send_last [where l = l and peer = peer, OF assms(1-3)] quiet by auto
  moreover have "take (len - 1) buf @ [buf ! (len - 1)] = take len buf"
    using assms(2,3) take_nth_Suc [of "len - 1" buf] by simp
  ultimately show ?thesis using assms(1,5) by (auto simp: outp line_outp_def intro!: exI [of _ c])
qed

section \<open>A reply on the line\<close>

lemma verdict_accepts:
  assumes "frame_at (prxbuf p) plen" "12 + plen \<le> length (prxbuf p)" "crc_ok (pcrc p)"
    and "seq (hdr_at (prxbuf p)) = PING_SEQ" "command (hdr_at (prxbuf p)) = CMD_PING" "status (hdr_at (prxbuf p)) = STATUS_OK"
  shows "\<exists>c. serping_verdict t0 t1 plen p = (if t1 > t0 then ping_end 0 ''OK (%lu ticks)'' [PNum (unat (t1 - t0))] (p\<lparr>pcrc := c\<rparr>)
     else ping_end 0 ''OK (<1 tick)'' [] (p\<lparr>pcrc := c\<rparr>))"
proof -
  obtain c where "frame_decode (prxbuf p) (12 + plen) (pcrc p) = (Inr (hdr_at (prxbuf p), 10, plen), c)"
    using frame_decode_accepts [OF assms(3,2), of "hdr_at (prxbuf p)" 10 plen] assms(1)
    by (cases "frame_decode (prxbuf p) (12 + plen) (pcrc p)") simp
  then show ?thesis using assms(4-6) by (intro exI [of _ c]) (simp add: serping_verdict_def)
qed

lemma receive_answer:
  assumes "com_port port" "length (prxbuf p) = 524" "crc_ok (pcrc p)" "length rp \<le> 512"
    and "pline p = (l, False)" "rxq l = frame_wire CMD_PING PING_SEQ fl STATUS_OK rp @ rest"
  shows "\<exists>p' x. serping_receive (latch_ops peer) port t0 p = Some (0, p') \<and> says p' = says p @ [x] \<and>
    (x = Printf (''OK (<1 tick)'' @ nl) [] \<or> (\<exists>n. x = Printf (''OK (%lu ticks)'' @ nl) [PNum n]))"
proof -
  let ?w = "frame_wire CMD_PING PING_SEQ fl STATUS_OK rp" and ?n = "length rp"
  have w: "?w = take 10 ?w @ drop 10 ?w" by simp
  obtain c1 where r1: "seruart_recv_block_timeout (latch_ops peer) port (prxbuf p) 0 10 36 (l, False) =
      Some (10, take 10 ?w @ drop 10 (prxbuf p), (l\<lparr>rxq := drop 10 ?w @ rest, clock := c1\<rparr>, False))"
    using latch.like_recv [of port l "take 10 ?w" "drop 10 ?w @ rest" 10 0 "prxbuf p" peer 36] assms
    by (auto simp: min_def simp flip: append_assoc)
  let ?rx = "take 10 ?w @ drop 10 (prxbuf p)" and ?l1 = "l\<lparr>rxq := drop 10 ?w @ rest, clock := c1\<rparr>"
  let ?buf = "?w @ drop (?n + 12) (prxbuf p)"
  obtain c2 where r2: "seruart_recv_block_timeout (latch_ops peer) port ?rx 10 (?n + 2) 36 (?l1, False) =
      Some (?n + 2, ?buf, (l\<lparr>rxq := rest, clock := c2\<rparr>, False))"
    using latch.like_recv [of port ?l1 "drop 10 ?w" rest "?n + 2" 10 ?rx peer 36] assms
    by (auto simp: min_def ac_simps simp flip: append_assoc)
  have at: "frame_at ?buf ?n" "hdr_at ?buf = \<lparr>version = 1, flags = fl, seq = PING_SEQ, command = CMD_PING, status = STATUS_OK, payload_len = ?n\<rparr>"
    using frame_at_wire [OF assms(4)] by blast+
  have nth: "?rx ! k = ?buf ! k" if "k < 10" for k using that by (simp add: nth_append)
  have n: "unat (get_le16 (?rx ! 8) (?rx ! 9)) = ?n"
    using at(1) nth [of 8] nth [of 9] by (simp add: frame_at_def)
  let ?p = "p\<lparr>prxbuf := ?buf, pline := (l\<lparr>rxq := rest, clock := c2 + 1\<rparr>, False)\<rparr>"
  have len: "12 + ?n \<le> length (prxbuf ?p)" by simp
  obtain c where v: "serping_verdict t0 c2 ?n ?p = (if c2 > t0 then ping_end 0 ''OK (%lu ticks)'' [PNum (unat (c2 - t0))] (?p\<lparr>pcrc := c\<rparr>)
     else ping_end 0 ''OK (<1 tick)'' [] (?p\<lparr>pcrc := c\<rparr>))"
    using verdict_accepts [of ?p ?n] at assms(3) len by fastforce
  have "serping_receive (latch_ops peer) port t0 p = Some (serping_verdict t0 c2 ?n ?p)"
    unfolding serping_receive_def assms(5) r1 bind.bind_lunit prod.case Let_def n
    using assms(4) r2 by (simp add: latch.ticks)
  then show ?thesis unfolding v by (simp add: ping_end_def)
qed

lemma parse_port_com: "parse_port a = port \<Longrightarrow> port \<noteq> 0 \<Longrightarrow> com_port port"
  by (auto simp: parse_port_def com_port_def Let_def split: if_splits)

lemma ping_answered:
  assumes "3 \<le> length argv" "parse_port (argv ! 1) = port" "port \<noteq> 0" "seruart_baud_to_div (atol (argv ! 2)) \<noteq> 0"
    and "ping_ok p" "pline p = (l, d)" "txq l = []" "length (rxq l) \<le> 64" "length rp \<le> 512"
    and "\<forall>j. 0 < j \<and> j < 12 \<longrightarrow> peer (take j (frame_wire CMD_PING PING_SEQ 0 0 [])) = None"
    and "peer (frame_wire CMD_PING PING_SEQ 0 0 []) = Some (frame_wire CMD_PING PING_SEQ fl STATUS_OK rp @ rest)"
  shows "\<exists>p' x. serping_main (latch_ops peer) argv p = Some (0, p') \<and> says p' = says p @ [x] \<and>
    (x = Printf (''OK (<1 tick)'' @ nl) [] \<or> (\<exists>n. x = Printf (''OK (%lu ticks)'' @ nl) [PNum n]))"
proof -
  let ?ping = "frame_wire CMD_PING PING_SEQ 0 0 []"
  have com: "com_port port" using parse_port_com [OF assms(2,3)] .
  note a = tool_args_ok [OF assms(1-3) refl assms(4)]
  obtain c where f: "frame_encode CMD_PING PING_SEQ 0 0 [] 0 (ptxbuf p) (pcrc p) = (12, ?ping, c)" and c: "crc_ok c"
    by (rule ping_frame [OF assms(5)])
  have dr: "seruart_drain (latch_ops peer) port (l, False) = (l\<lparr>rxq := []\<rparr>, False)"
    using latch.like_drain [OF com, of peer 64 l] assms(8) by (simp add: seruart_drain_def)
  let ?l = "l\<lparr>rxq := [], clock := clock l + 1\<rparr>"
  obtain c2 where snd: "seruart_send_block (latch_ops peer) port ?ping 12 (?l, False) =
      Some (?l\<lparr>rxq := frame_wire CMD_PING PING_SEQ fl STATUS_OK rp @ rest, txq := [], clock := c2\<rparr>, False)"
    using latch_send [OF com, of 12 ?ping peer ?l] assms(7,10,11) by auto
  let ?p = "p\<lparr>pline := (?l\<lparr>rxq := frame_wire CMD_PING PING_SEQ fl STATUS_OK rp @ rest, txq := [], clock := c2\<rparr>, False),
      ptxbuf := ?ping, pcrc := c\<rparr>"
  have "serping_main (latch_ops peer) argv p = serping_receive (latch_ops peer) port (clock l) ?p"
    using snd by (simp add: serping_main_def a assms(6) latch_ready [OF com] dr f latch.ticks)
  then show ?thesis
    using receive_answer [OF com, of ?p rp _ fl rest peer "clock l"] assms(5,9) c by (simp add: ping_ok_def)
qed

text \<open>A fresh SERPING on a line that answers.\<close>

definition demo_ping :: "(line \<times> bool) ping" where
  "demo_ping = \<lparr>pline = (\<lparr>rxq = [7], txq = [], clock = 5\<rparr>, False), ptxbuf = replicate 12 0, prxbuf = replicate 524 0,
     pcrc = crc_image, says = []\<rparr>"

lemma demo_ping_fields [simp]:
  "pline demo_ping = (\<lparr>rxq = [7], txq = [], clock = 5\<rparr>, False)" "ping_ok demo_ping"
  by (simp_all add: demo_ping_def ping_ok_def)

lemma ping_peer_answers:
  "\<forall>j. 0 < j \<and> j < 12 \<longrightarrow> ping_peer (take j (frame_wire CMD_PING PING_SEQ 0 0 [])) = None"
  "ping_peer (frame_wire CMD_PING PING_SEQ 0 0 []) = Some (frame_wire CMD_PING PING_SEQ 0 STATUS_OK [42] @ [])"
  by (simp_all add: ping_peer_def)

section \<open>Properties of SERPING\<close>

text \<open>
  C39: whatever the hardware delivers, SERPING exits with 0 only when its receive buffer holds a
  well-formed frame that answers the PING: its sequence number, its command and status OK.
\<close>

theorem serping_sound:
  assumes "serping_main ops argv p = Some (0, p')" "ping_ok p"
  shows "ping_reply_at (prxbuf p')"
proof -
  obtain port dv where a: "tool_args 3 serping_usage argv = Inr (port, dv)"
    using assms(1) by (auto simp: serping_main_def split: sum.splits)
  obtain c where f: "frame_encode CMD_PING PING_SEQ 0 0 [] 0 (ptxbuf p) (pcrc p) = (12, frame_wire CMD_PING PING_SEQ 0 0 [], c)"
    and c: "crc_ok c" by (rule ping_frame [OF assms(2)])
  obtain t0 h where t: "seruart_ticks ops (seruart_drain ops port (seruart_init ops port dv (pline p))) = (t0, h)" by fastforce
  obtain h1 where "serping_receive ops port t0 (p\<lparr>pline := h1, ptxbuf := frame_wire CMD_PING PING_SEQ 0 0 [], pcrc := c\<rparr>) = Some (0, p')"
    using assms(1) by (auto simp: serping_main_def a f t Let_def split: bind_splits)
  then show ?thesis by (rule receive_sound) (use assms(2) c in \<open>simp_all add: ping_ok_def\<close>)
qed

theorem serping_sound_witness:
  "\<exists>p'. serping_main (latch_ops ping_peer) [''SERPING'', ''COM1'', ''9600''] demo_ping = Some (0, p') \<and> ping_reply_at (prxbuf p')"
proof -
  obtain p' where r: "serping_main (latch_ops ping_peer) [''SERPING'', ''COM1'', ''9600''] demo_ping = Some (0, p')"
    using ping_answered [where argv = "[''SERPING'', ''COM1'', ''9600'']" and p = demo_ping and port = 1, OF _ _ _ _ _ _ _ _ _ ping_peer_answers]
    by (auto simp: demo_args)
  then show ?thesis using serping_sound [OF r] by simp
qed

section \<open>CRCFUZZ\<close>

record fuzz =
  pass_count :: int
  fail_count :: int
  fuzz_buf :: "byte list"
  fuzz_crc :: crc_static
  fuzz_out :: "outp list"

abbreviation (input) BUF_SIZE :: nat where "BUF_SIZE \<equiv> FRAME_MAX_SIZE + 8"

definition VEC_DIR :: string where
  "VEC_DIR = ''C:'' @ [CHR 0x5C] @ ''SERDFS'' @ [CHR 0x5C] @ ''PROTOCOL'' @ [CHR 0x5C] @ ''VECTORS'' @ [CHR 0x5C]"

definition fuzz_say :: "string \<Rightarrow> parg list \<Rightarrow> fuzz \<Rightarrow> fuzz" where
  "fuzz_say f as s = s\<lparr>fuzz_out := fuzz_out s @ [Printf (f @ nl) as]\<rparr>"

definition chk_int :: "string \<Rightarrow> int \<Rightarrow> int \<Rightarrow> fuzz \<Rightarrow> fuzz" where
  "chk_int desc expected actual s =
     (if expected = actual
      then let s = fuzz_say ''  PASS: %s'' [PStr desc] s in s\<lparr>pass_count := pass_count s + 1\<rparr>
      else let s = fuzz_say ''  FAIL: %s  (want %d, got %d)'' [PStr desc, PInt expected, PInt actual] s
           in s\<lparr>fail_count := fail_count s + 1\<rparr>)"

text \<open>\<open>fopen\<close> gives the contents of a file that can be opened and read; the result is the length.\<close>

definition load_vec :: "(string \<Rightarrow> byte list option) \<Rightarrow> string \<Rightarrow> fuzz \<Rightarrow> nat option \<times> fuzz" where
  "load_vec fopen name s =
     (let path = VEC_DIR @ name in
      case fopen path of
        None \<Rightarrow> (None, (fuzz_say ''  ERR: cannot open %s'' [PStr path] s)\<lparr>fail_count := fail_count s + 1\<rparr>)
      | Some f \<Rightarrow>
          let n = min BUF_SIZE (length f); s = s\<lparr>fuzz_buf := copy_at (fuzz_buf s) 0 f n\<rparr> in
          if n = 0 then (None, (fuzz_say ''  ERR: empty or unreadable: %s'' [PStr name] s)\<lparr>fail_count := fail_count s + 1\<rparr>)
          else (Some n, s))"

text \<open>
  One vector of \<open>main\<close>: the file, what the decoder must return and how the check is called, and the
  checks on the header and the payload length of an accepted frame. The five blocks of \<open>main\<close> are
  the entries of \<open>fuzz_plan\<close>.
\<close>

type_synonym header_check = "string \<times> int \<times> (frame_hdr \<Rightarrow> nat \<Rightarrow> int)"
type_synonym vector = "string \<times> string \<times> int \<times> header_check list"

definition decode_rc :: "frame_err + frame_hdr \<times> nat \<times> nat \<Rightarrow> int" where
  "decode_rc r = (case r of Inl e \<Rightarrow> frame_rc e | Inr _ \<Rightarrow> 0)"

definition fuzz_vector :: "(string \<Rightarrow> byte list option) \<Rightarrow> vector \<Rightarrow> fuzz \<Rightarrow> fuzz" where
  "fuzz_vector fopen = (\<lambda>(name, desc, expected, checks) s.
     case load_vec fopen name s of
       (None, s) \<Rightarrow> s
     | (Some len, s) \<Rightarrow>
         let (r, c) = frame_decode (fuzz_buf s) len (fuzz_crc s);
             s = chk_int desc expected (decode_rc r) (s\<lparr>fuzz_crc := c\<rparr>)
         in case r of
              Inl _ \<Rightarrow> s
            | Inr (hdr, _, plen) \<Rightarrow> fold (\<lambda>(d, want, field). chk_int d want (field hdr plen)) checks s)"

definition fuzz_plan :: "vector list" where
  "fuzz_plan =
     [(''PNGREQ.BIN'', ''PNGREQ: FRAME_OK'', 0,
        [(''PNGREQ: cmd=PING'', uint CMD_PING, \<lambda>h n. uint (command h)),
         (''PNGREQ: seq=1'', 1, \<lambda>h n. uint (seq h)),
         (''PNGREQ: plen=0'', 0, \<lambda>h n. int n)]),
      (''PNGRESP.BIN'', ''PNGRESP: FRAME_OK'', 0,
        [(''PNGRESP: cmd=PING'', uint CMD_PING, \<lambda>h n. uint (command h)),
         (''PNGRESP: seq=1'', 1, \<lambda>h n. uint (seq h)),
         (''PNGRESP: status=OK'', uint STATUS_OK, \<lambda>h n. uint (status h))]),
      (''BADCRC.BIN'', ''BADCRC: FRAME_BADCRC'', frame_rc FRAME_BADCRC, []),
      (''TRUNC.BIN'', ''TRUNC: FRAME_SHORT'', frame_rc FRAME_SHORT, []),
      (''STALE.BIN'', ''STALE: FRAME_OK'', 0, [(''STALE: seq=2'', 2, \<lambda>h n. uint (seq h))])]"

definition crcfuzz_main :: "(string \<Rightarrow> byte list option) \<Rightarrow> fuzz \<Rightarrow> int \<times> fuzz" where
  "crcfuzz_main fopen s =
     (let s = fuzz_say ''=== CRCFUZZ: frame codec conformance ==='' [] s;
          s = fold (fuzz_vector fopen) fuzz_plan s;
          s = fuzz_say (nl @ ''Results: %d passed, %d failed'') [PInt (pass_count s), PInt (fail_count s)] s
      in (if fail_count s = 0 then 0 else 1, s))"

text \<open>What a vector demands of the files, said without the state of the program.\<close>

definition decodes_to :: "byte list \<Rightarrow> frame_err + frame_hdr \<times> nat \<times> nat" where
  "decodes_to f = fst (frame_decode f (length f) crc_image)"

definition vector_holds :: "(string \<Rightarrow> byte list option) \<Rightarrow> vector \<Rightarrow> bool" where
  "vector_holds fopen = (\<lambda>(name, desc, expected, checks). case fopen (VEC_DIR @ name) of
     None \<Rightarrow> False
   | Some f \<Rightarrow> f \<noteq> [] \<and> (let r = decodes_to (take BUF_SIZE f) in
       decode_rc r = expected \<and>
       (case r of Inl _ \<Rightarrow> True | Inr (hdr, _, plen) \<Rightarrow> \<forall>(d, want, field) \<in> set checks. field hdr plen = want)))"

definition fuzz_ok :: "fuzz \<Rightarrow> bool" where
  "fuzz_ok s \<longleftrightarrow> length (fuzz_buf s) = BUF_SIZE \<and> crc_ok (fuzz_crc s) \<and> 0 \<le> fail_count s"

lemma fuzz_say_fields [simp]:
  "fail_count (fuzz_say f as s) = fail_count s" "fuzz_ok (fuzz_say f as s) = fuzz_ok s"
  by (simp_all add: fuzz_say_def fuzz_ok_def)

lemma chk_int_fields:
  "fuzz_ok s \<Longrightarrow> fuzz_ok (chk_int d w a s)"
  "fuzz_ok s \<Longrightarrow> fail_count (chk_int d w a s) = 0 \<longleftrightarrow> fail_count s = 0 \<and> a = w"
  by (auto simp: chk_int_def fuzz_ok_def fuzz_say_def)

lemma fold_checks:
  "fuzz_ok s \<Longrightarrow> fuzz_ok (fold (\<lambda>(d, w, g). chk_int d w (g h n)) cs s) \<and>
   (fail_count (fold (\<lambda>(d, w, g). chk_int d w (g h n)) cs s) = 0 \<longleftrightarrow>
      fail_count s = 0 \<and> (\<forall>(d, w, g) \<in> set cs. g h n = w))"
proof (induction cs arbitrary: s)
  case (Cons c cs)
  then show ?case using chk_int_fields by (cases c) (auto simp: chk_int_fields)
qed simp

text \<open>The decoder looks at the first \<open>len\<close> bytes only.\<close>

lemma frame_decode_fst:
  "fst (frame_decode buf len c) =
     (if len < 10 then Inl FRAME_SHORT
      else if buf ! 0 \<noteq> FRAME_MAGIC_0 \<or> buf ! 1 \<noteq> FRAME_MAGIC_1 then Inl FRAME_BADMAGIC
      else if buf ! 2 \<noteq> FRAME_VERSION then Inl FRAME_BADVER
      else let n = unat (get_le16 (buf ! 8) (buf ! 9)) in
        if n > 512 then Inl FRAME_TOOLONG
        else if len < 12 + n then Inl FRAME_SHORT
        else if get_le16 (buf ! (10 + n)) (buf ! (11 + n)) \<noteq> fst (crc16_block buf (10 + n) c) then Inl FRAME_BADCRC
        else Inr (hdr_at buf, 10, n))"
  by (simp add: frame_decode_def hdr_at_def Let_def case_prod_beta)

lemma frame_decode_prefix:
  assumes "crc_ok c" "crc_ok c'" "len \<le> length buf" "len \<le> length buf'" "take len buf = take len buf'"
  shows "fst (frame_decode buf len c) = fst (frame_decode buf' len c')"
proof (cases "len < 10")
  case False
  have nth: "i < len \<Longrightarrow> buf ! i = buf' ! i" for i
    using assms(5) by (metis nth_take)
  then have b: "buf ! 0 = buf' ! 0" "buf ! Suc 0 = buf' ! Suc 0" "buf ! 2 = buf' ! 2" "buf ! 8 = buf' ! 8" "buf ! 9 = buf' ! 9"
    "hdr_at buf = hdr_at buf'"
    using False by (simp_all add: hdr_at_def)
  let ?n = "unat (get_le16 (buf' ! 8) (buf' ! 9))"
  show ?thesis
  proof (cases "len < 12 + ?n")
    case True
    then show ?thesis using False by (simp add: frame_decode_fst b Let_def)
  next
    case len: False
    then have "take (10 + ?n) buf = take (10 + ?n) buf'"
      using arg_cong [OF assms(5), of "take (10 + ?n)"] len by (simp add: min_def)
    then have "fst (crc16_block buf (10 + ?n) c) = fst (crc16_block buf' (10 + ?n) c')"
      using assms(1-4) len by (simp add: crc16_block_fst)
    then show ?thesis using False len nth [of "10 + ?n"] nth [of "11 + ?n"] by (simp add: frame_decode_fst b Let_def)
  qed
qed (simp add: frame_decode_fst)

lemma decode_at_least: "fst (frame_decode buf len c) = Inr (h, off, n) \<Longrightarrow> off = 10 \<and> n \<le> 512"
  by (auto simp: frame_decode_fst Let_def split: if_splits)

lemma fuzz_vector_counts:
  assumes "fuzz_ok s"
  shows "fuzz_ok (fuzz_vector fopen v s) \<and>
    (fail_count (fuzz_vector fopen v s) = 0 \<longleftrightarrow> fail_count s = 0 \<and> vector_holds fopen v)"
proof -
  obtain name desc expected checks where v: "v = (name, desc, expected, checks)" by (metis surj_pair)
  show ?thesis
  proof (cases "fopen (VEC_DIR @ name)")
    case None
    then show ?thesis using assms by (simp add: v fuzz_vector_def load_vec_def vector_holds_def fuzz_ok_def fuzz_say_def)
  next
    case (Some f)
    let ?n = "min 532 (length f)"
    let ?s = "s\<lparr>fuzz_buf := copy_at (fuzz_buf s) 0 f ?n\<rparr>"
    have b: "length (fuzz_buf ?s) = 532" "take ?n (fuzz_buf ?s) = take 532 f" "crc_ok (fuzz_crc s)"
      using assms by (simp_all add: fuzz_ok_def copy_at_eq min_def)
    show ?thesis
    proof (cases "f = []")
      case True
      then show ?thesis
        using assms by (simp add: v fuzz_vector_def load_vec_def vector_holds_def Some fuzz_ok_def fuzz_say_def Let_def)
    next
      case False
      obtain r c where r: "frame_decode (fuzz_buf ?s) ?n (fuzz_crc s) = (r, c)" by fastforce
      have t: "take ?n (fuzz_buf ?s) = take ?n (take 532 f)" using b(2) by (cases "length f \<le> 532") (simp_all add: min_def)
      have d: "decodes_to (take 532 f) = r"
        using frame_decode_prefix [of "fuzz_crc s" crc_image ?n "fuzz_buf ?s" "take 532 f", OF b(3) _ _ _ t] b(1) r
        by (simp add: decodes_to_def min.commute [of "length f"])
      have c: "crc_ok c" using frame_decode_crc_ok [OF b(3), of "fuzz_buf ?s" ?n] unfolding r by simp
      let ?t = "chk_int desc expected (decode_rc r) (?s\<lparr>fuzz_crc := c\<rparr>)"
      have ok: "fuzz_ok (?s\<lparr>fuzz_crc := c\<rparr>)" using assms b(1) c by (simp add: fuzz_ok_def)
      obtain n where n: "min 532 (length f) = Suc n" using False by (cases "min 532 (length f)") (auto simp: min_def split: if_splits)
      have ld: "load_vec fopen name s = (Some ?n, ?s)" by (simp add: load_vec_def Some n)
      have "fuzz_vector fopen v s = (case r of Inl _ \<Rightarrow> ?t | Inr (hdr, _, plen) \<Rightarrow>
          fold (\<lambda>(d, want, field). chk_int d want (field hdr plen)) checks ?t)"
        using r unfolding v fuzz_vector_def by (simp add: ld Let_def)
      moreover have "vector_holds fopen v \<longleftrightarrow> decode_rc r = expected \<and>
          (case r of Inl _ \<Rightarrow> True | Inr (hdr, _, plen) \<Rightarrow> \<forall>(d, want, field) \<in> set checks. field hdr plen = want)"
        using False by (simp add: v vector_holds_def Some d Let_def)
      moreover have t_ok: "fuzz_ok ?t" "fail_count ?t = 0 \<longleftrightarrow> fail_count s = 0 \<and> decode_rc r = expected"
        using chk_int_fields [OF ok, of desc expected "decode_rc r"] by simp_all
      ultimately show ?thesis
      proof (cases r)
        case (Inr x)
        obtain h off n where x: "x = (h, off, n)" by (metis surj_pair)
        show ?thesis
          using fold_checks [OF t_ok(1), of h n checks] t_ok(2) \<open>fuzz_vector fopen v s = _\<close> \<open>vector_holds fopen v = _\<close>
          unfolding Inr x sum.case prod.case by metis
      qed simp
    qed
  qed
qed

lemma fuzz_plan_counts:
  "fuzz_ok s \<Longrightarrow> fuzz_ok (fold (fuzz_vector fopen) vs s) \<and>
   (fail_count (fold (fuzz_vector fopen) vs s) = 0 \<longleftrightarrow> fail_count s = 0 \<and> (\<forall>v \<in> set vs. vector_holds fopen v))"
  using fuzz_vector_counts by (induction vs arbitrary: s) auto

text \<open>The vectors of \<open>protocol/vectors\<close>.\<close>

definition golden_files :: "string \<Rightarrow> byte list option" where
  "golden_files path = map_of
     [(VEC_DIR @ ''PNGREQ.BIN'', [0x53, 0x44, 1, 0, 1, 1, 0, 0, 0, 0, 0x6E, 0xDD]),
      (VEC_DIR @ ''PNGRESP.BIN'', [0x53, 0x44, 1, 0, 1, 1, 0, 0, 0, 0, 0x6E, 0xDD]),
      (VEC_DIR @ ''BADCRC.BIN'', [0x53, 0x44, 1, 0, 1, 1, 0, 0, 0, 0, 0x91, 0x22]),
      (VEC_DIR @ ''TRUNC.BIN'', [0x53, 0x44, 1, 0, 1]),
      (VEC_DIR @ ''STALE.BIN'', [0x53, 0x44, 1, 0, 2, 1, 0, 0, 0, 0, 0x8E, 0x13])] path"

lemma golden_crc:
  "crc_of [0x53, 0x44, 1, 0, 1, 1, 0, 0, 0, 0] = 0xDD6E" "crc_of [0x53, 0x44, 1, 0, 2, 1, 0, 0, 0, 0] = 0x138E"
  by (simp_all add: crc_of_def crc_next_bitwise crc_bitwise_def funpow_8 crc_step_def)

lemma golden_decodes:
  "decodes_to [0x53, 0x44, 1, 0, 1, 1, 0, 0, 0, 0, 0x6E, 0xDD] =
     Inr (\<lparr>version = 1, flags = 0, seq = 1, command = 1, status = 0, payload_len = 0\<rparr>, 10, 0)"
  "decodes_to [0x53, 0x44, 1, 0, 1, 1, 0, 0, 0, 0, 0x91, 0x22] = Inl FRAME_BADCRC"
  "decodes_to [0x53, 0x44, 1, 0, 1] = Inl FRAME_SHORT"
  "decodes_to [0x53, 0x44, 1, 0, 2, 1, 0, 0, 0, 0, 0x8E, 0x13] =
     Inr (\<lparr>version = 1, flags = 0, seq = 2, command = 1, status = 0, payload_len = 0\<rparr>, 10, 0)"
  by (simp_all add: decodes_to_def frame_decode_fst frame_consts hdr_at_def get_le16_def crc16_block_fst golden_crc)

lemma golden_holds: "\<forall>v \<in> set fuzz_plan. vector_holds golden_files v"
  by (simp add: fuzz_plan_def vector_holds_def golden_files_def golden_decodes decode_rc_def Let_def)

definition demo_fuzz :: fuzz where
  "demo_fuzz = \<lparr>pass_count = 0, fail_count = 0, fuzz_buf = replicate 532 0, fuzz_crc = crc_image, fuzz_out = []\<rparr>"

text \<open>
  C40: CRCFUZZ exits with 0 exactly if every vector file can be read, is not empty, and the decoder
  gives on its first 532 bytes the result and the header fields that are demanded of it; what an
  earlier vector left in the buffer or in the CRC state does not matter.
\<close>

theorem crcfuzz_verdict:
  assumes "length (fuzz_buf s) = BUF_SIZE" "crc_ok (fuzz_crc s)" "fail_count s = 0"
  shows "fst (crcfuzz_main fopen s) = 0 \<longleftrightarrow> (\<forall>v \<in> set fuzz_plan. vector_holds fopen v)"
proof -
  have "fuzz_ok (fuzz_say f as s)" for f as using assms by (simp add: fuzz_ok_def fuzz_say_def)
  then show ?thesis
    using fuzz_plan_counts [of "fuzz_say ''=== CRCFUZZ: frame codec conformance ==='' [] s" fopen fuzz_plan] assms(3)
    by (simp add: crcfuzz_main_def Let_def)
qed

theorem crcfuzz_verdict_witness: "fst (crcfuzz_main golden_files demo_fuzz) = 0"
  using crcfuzz_verdict [of demo_fuzz golden_files] golden_holds by (simp add: demo_fuzz_def)

end
