(* ===== verification/Sdf_Messages.thy ===== *)
theory Sdf_Messages
  imports Sdf_Install
begin

text \<open>
  The messages of the transient program. \<open>genmsg.c\<close> turns each text into a C file of inline assembly
  that prints it; these files, \<open>dos/src/msg/*.c\<close>, are included where \<open>serdfs.c\<close> reports something. The
  generator, the files as they stand in the repository, and the run of their instructions on the
  machine: what is printed is the text, and the registers are as before. Below its first line, what
  the generator writes agrees line by line with the files in the repository.
\<close>

section \<open>The generator\<close>

abbreviation (input) PVER :: string where "PVER \<equiv> ''1.0''"
abbreviation (input) PDATE :: string where "PDATE \<equiv> ''2026''"

fun udec :: "nat \<Rightarrow> string" where
  "udec n = (if n < 10 then [char_of (48 + n)] else udec (n div 10) @ [char_of (48 + n mod 10)])"

declare udec.simps [simp del]

definition hex_digit :: "nat \<Rightarrow> char" where
  "hex_digit d = ''0123456789ABCDEF'' ! d"

text \<open>\<open>S%03X\<close> of a row number below 4096.\<close>

definition row_label :: "nat \<Rightarrow> string" where
  "row_label k = [CHR ''S'', hex_digit (k div 256), hex_digit (k div 16 mod 16), hex_digit (k mod 16)]"

fun genmsg_loop :: "nat \<Rightarrow> string \<Rightarrow> string" where
  "genmsg_loop i [] = []"
| "genmsg_loop i (c # cs) =
     (if i AND 15 = 0 then crlf @ ''  '' @ row_label (drop_bit 4 i) @ '' db '' else '','')
     @ udec (of_char c) @ genmsg_loop (i + 1) cs"

definition genmsg_line :: "string \<Rightarrow> string" where
  "genmsg_line fname = ''/* '' @ fname @ '': THIS FILE IS AUTO-GENERATED BY GENMSG.C -- DO NOT MODIFY! */'' @ crlf"

definition genmsg_text :: "string \<Rightarrow> string \<Rightarrow> string" where
  "genmsg_text fname msg = genmsg_line fname @ ''_asm {'' @ crlf @ ''  push ds'' @ crlf @ ''  push dx'' @ crlf @
     ''  push ax'' @ crlf @ ''  call getip'' @ genmsg_loop 0 msg @ '','' @ [CHR 0x27, CHR 0x24, CHR 0x27] @ crlf @
     '' getip:'' @ crlf @ ''  pop dx'' @ crlf @ ''  push cs'' @ crlf @ ''  pop ds'' @ crlf @ ''  mov ah,9h'' @ crlf @
     ''  int 21h'' @ crlf @ ''  pop ax'' @ crlf @ ''  pop dx'' @ crlf @ ''  pop ds'' @ crlf @ ''};'' @ crlf"

text \<open>The file system is the map of the files written; \<open>writable\<close> says which of them can be opened.\<close>

definition genmsg :: "(string \<Rightarrow> bool) \<Rightarrow> string \<Rightarrow> string \<Rightarrow> (string \<rightharpoonup> string) \<Rightarrow> nat \<times> (string \<rightharpoonup> string)" where
  "genmsg writable fname msg fs =
     (if \<not> writable fname then (1, fs) else (0, fs(fname \<mapsto> genmsg_text fname msg)))"

definition help_text :: string where
  "help_text = ''SerialDFS v'' @ PVER @ '' / Copyright (C) '' @ PDATE @ crlf @
     ''A network drive for DOS, running over RS-232 serial'' @ crlf @ crlf @
     ''Usage: serdfs rdrv-ldrv [rdrv2-ldrv2 ...] /COMn /BAUD:rate [options]'' @ crlf @ ''       serdfs /u'' @
     crlf @ crlf @ ''Options:'' @ crlf @ ''  /COM1       use COM1 (default)'' @ crlf @
     ''  /COM2       use COM2'' @ crlf @ ''  /BAUD:N     baud rate (9600, 19200, 38400, 57600, 115200)'' @
     crlf @ ''  /STATUS     show status bar'' @ crlf @ ''  /NOSTATUS   disable status bar (default)'' @ crlf @
     ''  /q          quiet mode'' @ crlf @ ''  /u          unload SerialDFS from memory'' @ crlf @ crlf @
     ''Example:  serdfs C-X /COM1 /BAUD:57600'' @ crlf"

definition unsupdos_text :: string where
  "unsupdos_text = ''Unsupported DOS version! SerialDFS requires MS-DOS 5+.'' @ crlf"

definition noredir_text :: string where
  "noredir_text = ''Redirector installation has been forbidden either by DOS or another process.'' @ crlf"

definition alrload_text :: string where
  "alrload_text = ''SerialDFS is already installed and cannot be loaded twice.'' @ crlf"

definition notload_text :: string where
  "notload_text = ''SerialDFS is not loaded, so it cannot be unloaded.'' @ crlf"

definition tsrcomfa_text :: string where
  "tsrcomfa_text = ''Communication with the TSR failed.'' @ crlf"

definition nomultpx_text :: string where
  "nomultpx_text = ''Failed to find an available INT 2F multiplex id.'' @ crlf @
     ''You may have loaded too many TSRs already.'' @ crlf"

definition othertsr_text :: string where
  "othertsr_text = ''SerialDFS cannot be unloaded because another TSR hooked its interrupt handler.'' @ crlf"

definition unloaded_text :: string where
  "unloaded_text = ''SerialDFS unloaded successfully.'' @ crlf"

definition mapfail_text :: string where
  "mapfail_text = ''Unable to activate the local drive mapping. You are either using an'' @ crlf @
     ''unsupported operating system, or your LASTDRIVE directive does not permit'' @ crlf @
     ''to define the requested drive letter (try LASTDRIVE=Z in your CONFIG.SYS).'' @ crlf"

definition drvactiv_text :: string where
  "drvactiv_text = ''The requested local drive letter is already in use. Please choose another'' @ crlf @ ''drive letter.'' @
     crlf"

definition memfail_text :: string where
  "memfail_text = ''Memory alloc error!'' @ crlf"

definition relfail_text :: string where
  "relfail_text = ''DS/SS relocation failed.'' @ crlf"

definition comfail_text :: string where
  "comfail_text = ''Serial port initialization failed. Check /COMn and /BAUD:N arguments.'' @ crlf"

definition instlled_text :: string where
  "instlled_text = ''SerialDFS v'' @ PVER @ '' installed (''"

definition msg_path :: "string \<Rightarrow> string" where
  "msg_path f = ''msg'' @ [CHR 0x5C] @ f @ ''.c''"

definition genmsg_jobs :: "(string \<times> string) list" where
  "genmsg_jobs = [(''help'', help_text), (''unsupdos'', unsupdos_text), (''noredir'', noredir_text), (''alrload'',
     alrload_text), (''notload'', notload_text), (''tsrcomfa'', tsrcomfa_text), (''nomultpx'', nomultpx_text),
     (''othertsr'', othertsr_text), (''unloaded'', unloaded_text), (''mapfail'', mapfail_text), (''drvactiv'',
     drvactiv_text), (''memfail'', memfail_text), (''relfail'', relfail_text), (''comfail'', comfail_text),
     (''instlled'', instlled_text)]"

text \<open>The exit code and whether the last line is printed.\<close>

definition genmsg_main :: "(string \<Rightarrow> bool) \<Rightarrow> (string \<rightharpoonup> string) \<Rightarrow> nat \<times> bool \<times> (string \<rightharpoonup> string)" where
  "genmsg_main writable fs =
     (let (r, fs) = fold (\<lambda>(f, msg) (r, fs). let (e, fs) = genmsg writable (msg_path f) msg fs in (r + e, fs)) genmsg_jobs (0, fs)
      in (r, r \<noteq> 0, fs))"

section \<open>The generated files\<close>

text \<open>
  The lines of an include file between the braces. \<open>Db\<close> is a row of bytes with its label, \<open>DbEnd\<close> one
  whose last operand is the dollar sign.
\<close>

datatype reg = DS | DX | AX | CS

datatype asm =
  Push reg | Pop reg | Call string | Label string | Db string "nat list" | DbEnd string "nat list"
| MovAh byte | IntNo byte

definition msg_help :: "asm list" where
  "msg_help =
    [Push DS, Push DX, Push AX, Call ''getip'',
     Db ''S000'' [83, 101, 114, 105, 97, 108, 68, 70, 83, 32, 118, 49, 46, 48, 32, 47],
     Db ''S001'' [32, 67, 111, 112, 121, 114, 105, 103, 104, 116, 32, 40, 67, 41, 32, 50],
     Db ''S002'' [48, 50, 54, 13, 10, 65, 32, 110, 101, 116, 119, 111, 114, 107, 32, 100],
     Db ''S003'' [114, 105, 118, 101, 32, 102, 111, 114, 32, 68, 79, 83, 44, 32, 114, 117],
     Db ''S004'' [110, 110, 105, 110, 103, 32, 111, 118, 101, 114, 32, 82, 83, 45, 50, 51],
     Db ''S005'' [50, 32, 115, 101, 114, 105, 97, 108, 13, 10, 13, 10, 85, 115, 97, 103],
     Db ''S006'' [101, 58, 32, 115, 101, 114, 100, 102, 115, 32, 114, 100, 114, 118, 45, 108],
     Db ''S007'' [100, 114, 118, 32, 91, 114, 100, 114, 118, 50, 45, 108, 100, 114, 118, 50],
     Db ''S008'' [32, 46, 46, 46, 93, 32, 47, 67, 79, 77, 110, 32, 47, 66, 65, 85],
     Db ''S009'' [68, 58, 114, 97, 116, 101, 32, 91, 111, 112, 116, 105, 111, 110, 115, 93],
     Db ''S00A'' [13, 10, 32, 32, 32, 32, 32, 32, 32, 115, 101, 114, 100, 102, 115, 32],
     Db ''S00B'' [47, 117, 13, 10, 13, 10, 79, 112, 116, 105, 111, 110, 115, 58, 13, 10],
     Db ''S00C'' [32, 32, 47, 67, 79, 77, 49, 32, 32, 32, 32, 32, 32, 32, 117, 115],
     Db ''S00D'' [101, 32, 67, 79, 77, 49, 32, 40, 100, 101, 102, 97, 117, 108, 116, 41],
     Db ''S00E'' [13, 10, 32, 32, 47, 67, 79, 77, 50, 32, 32, 32, 32, 32, 32, 32],
     Db ''S00F'' [117, 115, 101, 32, 67, 79, 77, 50, 13, 10, 32, 32, 47, 66, 65, 85],
     Db ''S010'' [68, 58, 78, 32, 32, 32, 32, 32, 98, 97, 117, 100, 32, 114, 97, 116],
     Db ''S011'' [101, 32, 40, 57, 54, 48, 48, 44, 32, 49, 57, 50, 48, 48, 44, 32],
     Db ''S012'' [51, 56, 52, 48, 48, 44, 32, 53, 55, 54, 48, 48, 44, 32, 49, 49],
     Db ''S013'' [53, 50, 48, 48, 41, 13, 10, 32, 32, 47, 83, 84, 65, 84, 85, 83],
     Db ''S014'' [32, 32, 32, 32, 32, 115, 104, 111, 119, 32, 115, 116, 97, 116, 117, 115],
     Db ''S015'' [32, 98, 97, 114, 13, 10, 32, 32, 47, 78, 79, 83, 84, 65, 84, 85],
     Db ''S016'' [83, 32, 32, 32, 100, 105, 115, 97, 98, 108, 101, 32, 115, 116, 97, 116],
     Db ''S017'' [117, 115, 32, 98, 97, 114, 32, 40, 100, 101, 102, 97, 117, 108, 116, 41],
     Db ''S018'' [13, 10, 32, 32, 47, 113, 32, 32, 32, 32, 32, 32, 32, 32, 32, 32],
     Db ''S019'' [113, 117, 105, 101, 116, 32, 109, 111, 100, 101, 13, 10, 32, 32, 47, 117],
     Db ''S01A'' [32, 32, 32, 32, 32, 32, 32, 32, 32, 32, 117, 110, 108, 111, 97, 100],
     Db ''S01B'' [32, 83, 101, 114, 105, 97, 108, 68, 70, 83, 32, 102, 114, 111, 109, 32],
     Db ''S01C'' [109, 101, 109, 111, 114, 121, 13, 10, 13, 10, 69, 120, 97, 109, 112, 108],
     Db ''S01D'' [101, 58, 32, 32, 115, 101, 114, 100, 102, 115, 32, 67, 45, 88, 32, 47],
     Db ''S01E'' [67, 79, 77, 49, 32, 47, 66, 65, 85, 68, 58, 53, 55, 54, 48, 48],
     DbEnd ''S01F'' [13, 10], Label ''getip'', Pop DX, Push CS, Pop DS, MovAh 9, IntNo 0x21, Pop AX,
     Pop DX, Pop DS]"

definition msg_unsupdos :: "asm list" where
  "msg_unsupdos =
    [Push DS, Push DX, Push AX, Call ''getip'',
     Db ''S000'' [85, 110, 115, 117, 112, 112, 111, 114, 116, 101, 100, 32, 68, 79, 83, 32],
     Db ''S001'' [118, 101, 114, 115, 105, 111, 110, 33, 32, 83, 101, 114, 105, 97, 108, 68],
     Db ''S002'' [70, 83, 32, 114, 101, 113, 117, 105, 114, 101, 115, 32, 77, 83, 45, 68],
     DbEnd ''S003'' [79, 83, 32, 53, 43, 46, 13, 10], Label ''getip'', Pop DX, Push CS, Pop DS, MovAh 9,
     IntNo 0x21, Pop AX, Pop DX, Pop DS]"

definition msg_noredir :: "asm list" where
  "msg_noredir =
    [Push DS, Push DX, Push AX, Call ''getip'',
     Db ''S000'' [82, 101, 100, 105, 114, 101, 99, 116, 111, 114, 32, 105, 110, 115, 116, 97],
     Db ''S001'' [108, 108, 97, 116, 105, 111, 110, 32, 104, 97, 115, 32, 98, 101, 101, 110],
     Db ''S002'' [32, 102, 111, 114, 98, 105, 100, 100, 101, 110, 32, 101, 105, 116, 104, 101],
     Db ''S003'' [114, 32, 98, 121, 32, 68, 79, 83, 32, 111, 114, 32, 97, 110, 111, 116],
     DbEnd ''S004'' [104, 101, 114, 32, 112, 114, 111, 99, 101, 115, 115, 46, 13, 10], Label ''getip'',
     Pop DX, Push CS, Pop DS, MovAh 9, IntNo 0x21, Pop AX, Pop DX, Pop DS]"

definition msg_alrload :: "asm list" where
  "msg_alrload =
    [Push DS, Push DX, Push AX, Call ''getip'',
     Db ''S000'' [83, 101, 114, 105, 97, 108, 68, 70, 83, 32, 105, 115, 32, 97, 108, 114],
     Db ''S001'' [101, 97, 100, 121, 32, 105, 110, 115, 116, 97, 108, 108, 101, 100, 32, 97],
     Db ''S002'' [110, 100, 32, 99, 97, 110, 110, 111, 116, 32, 98, 101, 32, 108, 111, 97],
     DbEnd ''S003'' [100, 101, 100, 32, 116, 119, 105, 99, 101, 46, 13, 10], Label ''getip'', Pop DX,
     Push CS, Pop DS, MovAh 9, IntNo 0x21, Pop AX, Pop DX, Pop DS]"

definition msg_notload :: "asm list" where
  "msg_notload =
    [Push DS, Push DX, Push AX, Call ''getip'',
     Db ''S000'' [83, 101, 114, 105, 97, 108, 68, 70, 83, 32, 105, 115, 32, 110, 111, 116],
     Db ''S001'' [32, 108, 111, 97, 100, 101, 100, 44, 32, 115, 111, 32, 105, 116, 32, 99],
     Db ''S002'' [97, 110, 110, 111, 116, 32, 98, 101, 32, 117, 110, 108, 111, 97, 100, 101],
     DbEnd ''S003'' [100, 46, 13, 10], Label ''getip'', Pop DX, Push CS, Pop DS, MovAh 9, IntNo 0x21,
     Pop AX, Pop DX, Pop DS]"

definition msg_tsrcomfa :: "asm list" where
  "msg_tsrcomfa =
    [Push DS, Push DX, Push AX, Call ''getip'',
     Db ''S000'' [67, 111, 109, 109, 117, 110, 105, 99, 97, 116, 105, 111, 110, 32, 119, 105],
     Db ''S001'' [116, 104, 32, 116, 104, 101, 32, 84, 83, 82, 32, 102, 97, 105, 108, 101],
     DbEnd ''S002'' [100, 46, 13, 10], Label ''getip'', Pop DX, Push CS, Pop DS, MovAh 9, IntNo 0x21,
     Pop AX, Pop DX, Pop DS]"

definition msg_nomultpx :: "asm list" where
  "msg_nomultpx =
    [Push DS, Push DX, Push AX, Call ''getip'',
     Db ''S000'' [70, 97, 105, 108, 101, 100, 32, 116, 111, 32, 102, 105, 110, 100, 32, 97],
     Db ''S001'' [110, 32, 97, 118, 97, 105, 108, 97, 98, 108, 101, 32, 73, 78, 84, 32],
     Db ''S002'' [50, 70, 32, 109, 117, 108, 116, 105, 112, 108, 101, 120, 32, 105, 100, 46],
     Db ''S003'' [13, 10, 89, 111, 117, 32, 109, 97, 121, 32, 104, 97, 118, 101, 32, 108],
     Db ''S004'' [111, 97, 100, 101, 100, 32, 116, 111, 111, 32, 109, 97, 110, 121, 32, 84],
     DbEnd ''S005'' [83, 82, 115, 32, 97, 108, 114, 101, 97, 100, 121, 46, 13, 10], Label ''getip'',
     Pop DX, Push CS, Pop DS, MovAh 9, IntNo 0x21, Pop AX, Pop DX, Pop DS]"

definition msg_othertsr :: "asm list" where
  "msg_othertsr =
    [Push DS, Push DX, Push AX, Call ''getip'',
     Db ''S000'' [83, 101, 114, 105, 97, 108, 68, 70, 83, 32, 99, 97, 110, 110, 111, 116],
     Db ''S001'' [32, 98, 101, 32, 117, 110, 108, 111, 97, 100, 101, 100, 32, 98, 101, 99],
     Db ''S002'' [97, 117, 115, 101, 32, 97, 110, 111, 116, 104, 101, 114, 32, 84, 83, 82],
     Db ''S003'' [32, 104, 111, 111, 107, 101, 100, 32, 105, 116, 115, 32, 105, 110, 116, 101],
     DbEnd ''S004'' [114, 114, 117, 112, 116, 32, 104, 97, 110, 100, 108, 101, 114, 46, 13, 10],
     Label ''getip'', Pop DX, Push CS, Pop DS, MovAh 9, IntNo 0x21, Pop AX, Pop DX, Pop DS]"

definition msg_unloaded :: "asm list" where
  "msg_unloaded =
    [Push DS, Push DX, Push AX, Call ''getip'',
     Db ''S000'' [83, 101, 114, 105, 97, 108, 68, 70, 83, 32, 117, 110, 108, 111, 97, 100],
     Db ''S001'' [101, 100, 32, 115, 117, 99, 99, 101, 115, 115, 102, 117, 108, 108, 121, 46],
     DbEnd ''S002'' [13, 10], Label ''getip'', Pop DX, Push CS, Pop DS, MovAh 9, IntNo 0x21, Pop AX,
     Pop DX, Pop DS]"

definition msg_mapfail :: "asm list" where
  "msg_mapfail =
    [Push DS, Push DX, Push AX, Call ''getip'',
     Db ''S000'' [85, 110, 97, 98, 108, 101, 32, 116, 111, 32, 97, 99, 116, 105, 118, 97],
     Db ''S001'' [116, 101, 32, 116, 104, 101, 32, 108, 111, 99, 97, 108, 32, 100, 114, 105],
     Db ''S002'' [118, 101, 32, 109, 97, 112, 112, 105, 110, 103, 46, 32, 89, 111, 117, 32],
     Db ''S003'' [97, 114, 101, 32, 101, 105, 116, 104, 101, 114, 32, 117, 115, 105, 110, 103],
     Db ''S004'' [32, 97, 110, 13, 10, 117, 110, 115, 117, 112, 112, 111, 114, 116, 101, 100],
     Db ''S005'' [32, 111, 112, 101, 114, 97, 116, 105, 110, 103, 32, 115, 121, 115, 116, 101],
     Db ''S006'' [109, 44, 32, 111, 114, 32, 121, 111, 117, 114, 32, 76, 65, 83, 84, 68],
     Db ''S007'' [82, 73, 86, 69, 32, 100, 105, 114, 101, 99, 116, 105, 118, 101, 32, 100],
     Db ''S008'' [111, 101, 115, 32, 110, 111, 116, 32, 112, 101, 114, 109, 105, 116, 13, 10],
     Db ''S009'' [116, 111, 32, 100, 101, 102, 105, 110, 101, 32, 116, 104, 101, 32, 114, 101],
     Db ''S00A'' [113, 117, 101, 115, 116, 101, 100, 32, 100, 114, 105, 118, 101, 32, 108, 101],
     Db ''S00B'' [116, 116, 101, 114, 32, 40, 116, 114, 121, 32, 76, 65, 83, 84, 68, 82],
     Db ''S00C'' [73, 86, 69, 61, 90, 32, 105, 110, 32, 121, 111, 117, 114, 32, 67, 79],
     DbEnd ''S00D'' [78, 70, 73, 71, 46, 83, 89, 83, 41, 46, 13, 10], Label ''getip'', Pop DX, Push CS,
     Pop DS, MovAh 9, IntNo 0x21, Pop AX, Pop DX, Pop DS]"

definition msg_drvactiv :: "asm list" where
  "msg_drvactiv =
    [Push DS, Push DX, Push AX, Call ''getip'',
     Db ''S000'' [84, 104, 101, 32, 114, 101, 113, 117, 101, 115, 116, 101, 100, 32, 108, 111],
     Db ''S001'' [99, 97, 108, 32, 100, 114, 105, 118, 101, 32, 108, 101, 116, 116, 101, 114],
     Db ''S002'' [32, 105, 115, 32, 97, 108, 114, 101, 97, 100, 121, 32, 105, 110, 32, 117],
     Db ''S003'' [115, 101, 46, 32, 80, 108, 101, 97, 115, 101, 32, 99, 104, 111, 111, 115],
     Db ''S004'' [101, 32, 97, 110, 111, 116, 104, 101, 114, 13, 10, 100, 114, 105, 118, 101],
     DbEnd ''S005'' [32, 108, 101, 116, 116, 101, 114, 46, 13, 10], Label ''getip'', Pop DX, Push CS,
     Pop DS, MovAh 9, IntNo 0x21, Pop AX, Pop DX, Pop DS]"

definition msg_memfail :: "asm list" where
  "msg_memfail =
    [Push DS, Push DX, Push AX, Call ''getip'',
     Db ''S000'' [77, 101, 109, 111, 114, 121, 32, 97, 108, 108, 111, 99, 32, 101, 114, 114],
     DbEnd ''S001'' [111, 114, 33, 13, 10], Label ''getip'', Pop DX, Push CS, Pop DS, MovAh 9,
     IntNo 0x21, Pop AX, Pop DX, Pop DS]"

definition msg_relfail :: "asm list" where
  "msg_relfail =
    [Push DS, Push DX, Push AX, Call ''getip'',
     Db ''S000'' [68, 83, 47, 83, 83, 32, 114, 101, 108, 111, 99, 97, 116, 105, 111, 110],
     DbEnd ''S001'' [32, 102, 97, 105, 108, 101, 100, 46, 13, 10], Label ''getip'', Pop DX, Push CS,
     Pop DS, MovAh 9, IntNo 0x21, Pop AX, Pop DX, Pop DS]"

definition msg_comfail :: "asm list" where
  "msg_comfail =
    [Push DS, Push DX, Push AX, Call ''getip'',
     Db ''S000'' [83, 101, 114, 105, 97, 108, 32, 112, 111, 114, 116, 32, 105, 110, 105, 116],
     Db ''S001'' [105, 97, 108, 105, 122, 97, 116, 105, 111, 110, 32, 102, 97, 105, 108, 101],
     Db ''S002'' [100, 46, 32, 67, 104, 101, 99, 107, 32, 47, 67, 79, 77, 110, 32, 97],
     Db ''S003'' [110, 100, 32, 47, 66, 65, 85, 68, 58, 78, 32, 97, 114, 103, 117, 109],
     DbEnd ''S004'' [101, 110, 116, 115, 46, 13, 10], Label ''getip'', Pop DX, Push CS, Pop DS, MovAh 9,
     IntNo 0x21, Pop AX, Pop DX, Pop DS]"

definition msg_instlled :: "asm list" where
  "msg_instlled =
    [Push DS, Push DX, Push AX, Call ''getip'',
     Db ''S000'' [83, 101, 114, 105, 97, 108, 68, 70, 83, 32, 118, 49, 46, 48, 32, 105],
     DbEnd ''S001'' [110, 115, 116, 97, 108, 108, 101, 100, 32, 40], Label ''getip'', Pop DX, Push CS,
     Pop DS, MovAh 9, IntNo 0x21, Pop AX, Pop DX, Pop DS]"

definition messages :: "(string \<times> asm list) list" where
  "messages = [(''help'', msg_help), (''unsupdos'', msg_unsupdos), (''noredir'', msg_noredir), (''alrload'',
     msg_alrload), (''notload'', msg_notload), (''tsrcomfa'', msg_tsrcomfa), (''nomultpx'', msg_nomultpx),
     (''othertsr'', msg_othertsr), (''unloaded'', msg_unloaded), (''mapfail'', msg_mapfail), (''drvactiv'',
     msg_drvactiv), (''memfail'', msg_memfail), (''relfail'', msg_relfail), (''comfail'', msg_comfail),
     (''instlled'', msg_instlled)]"

section \<open>The text of a file\<close>

fun reg_name :: "reg \<Rightarrow> string" where
  "reg_name DS = ''ds''"
| "reg_name DX = ''dx''"
| "reg_name AX = ''ax''"
| "reg_name CS = ''cs''"

fun commas :: "string list \<Rightarrow> string" where
  "commas [] = []"
| "commas [x] = x"
| "commas (x # xs) = x @ '','' @ commas xs"

fun asm_line :: "asm \<Rightarrow> string" where
  "asm_line (Push r) = ''  push '' @ reg_name r"
| "asm_line (Pop r) = ''  pop '' @ reg_name r"
| "asm_line (Call l) = ''  call '' @ l"
| "asm_line (Label l) = '' '' @ l @ '':''"
| "asm_line (Db l ns) = ''  '' @ l @ '' db '' @ commas (map udec ns)"
| "asm_line (DbEnd l ns) = ''  '' @ l @ '' db '' @ commas (map udec ns) @ '','' @ [CHR 0x27, CHR 0x24, CHR 0x27]"
| "asm_line (MovAh b) = ''  mov ah,'' @ udec (unat b) @ ''h''"
| "asm_line (IntNo b) = ''  int '' @ udec (unat b div 16) @ udec (unat b mod 16) @ ''h''"

definition file_lines :: "asm list \<Rightarrow> string list" where
  "file_lines p = ''_asm {'' # map asm_line p @ [''};'']"

definition render :: "string \<Rightarrow> string list \<Rightarrow> string" where
  "render e ls = concat (map (\<lambda>l. l @ e) ls)"

text \<open>
  An include file as it stands in the repository, byte for byte: its first line names the Python
  generator and the bare file, and its lines end in CR CR LF.
\<close>

definition repo_file :: "string \<Rightarrow> asm list \<Rightarrow> string" where
  "repo_file f p = render [CHR 0x0D, CHR 0x0D, CHR 0x0A]
     ((''/* '' @ f @ ''.c: THIS FILE IS AUTO-GENERATED BY GENMSG.PY -- DO NOT MODIFY! */'') # file_lines p)"

text \<open>The lines of a text, without their line ends.\<close>

fun split_lines :: "string \<Rightarrow> string \<Rightarrow> string list" where
  "split_lines l [] = (if l = [] then [] else [l])"
| "split_lines l (c # cs) =
     (if c = CHR 0x0A then l # split_lines [] cs
      else if c = CHR 0x0D then split_lines l cs else split_lines (l @ [c]) cs)"

definition text_lines :: "string \<Rightarrow> string list" where
  "text_lines s = split_lines [] s"

text \<open>The file of a message, said without the loop: rows of sixteen, the last with the dollar sign.\<close>

fun data_rows :: "nat \<Rightarrow> nat list \<Rightarrow> asm list" where
  "data_rows k bs =
     (if length bs \<le> 16 then [DbEnd (row_label k) bs] else Db (row_label k) (take 16 bs) # data_rows (k + 1) (drop 16 bs))"

declare data_rows.simps [simp del]

definition message_file :: "string \<Rightarrow> asm list" where
  "message_file msg = [Push DS, Push DX, Push AX, Call ''getip''] @ data_rows 0 (map of_char msg) @
     [Label ''getip'', Pop DX, Push CS, Pop DS, MovAh 9, IntNo 0x21, Pop AX, Pop DX, Pop DS]"

lemmas message_texts = help_text_def unsupdos_text_def noredir_text_def alrload_text_def notload_text_def tsrcomfa_text_def
  nomultpx_text_def othertsr_text_def unloaded_text_def mapfail_text_def drvactiv_text_def memfail_text_def
  relfail_text_def comfail_text_def instlled_text_def

lemmas message_files = msg_help_def msg_unsupdos_def msg_noredir_def msg_alrload_def msg_notload_def msg_tsrcomfa_def
  msg_nomultpx_def msg_othertsr_def msg_unloaded_def msg_mapfail_def msg_drvactiv_def msg_memfail_def
  msg_relfail_def msg_comfail_def msg_instlled_def

lemmas message_file_eval = message_file_def data_rows.simps row_label_def hex_digit_def

lemma file_help: "message_file help_text = msg_help"
  by (simp add: message_file_eval help_text_def msg_help_def)

lemma file_unsupdos: "message_file unsupdos_text = msg_unsupdos"
  by (simp add: message_file_eval unsupdos_text_def msg_unsupdos_def)

lemma file_noredir: "message_file noredir_text = msg_noredir"
  by (simp add: message_file_eval noredir_text_def msg_noredir_def)

lemma file_alrload: "message_file alrload_text = msg_alrload"
  by (simp add: message_file_eval alrload_text_def msg_alrload_def)

lemma file_notload: "message_file notload_text = msg_notload"
  by (simp add: message_file_eval notload_text_def msg_notload_def)

lemma file_tsrcomfa: "message_file tsrcomfa_text = msg_tsrcomfa"
  by (simp add: message_file_eval tsrcomfa_text_def msg_tsrcomfa_def)

lemma file_nomultpx: "message_file nomultpx_text = msg_nomultpx"
  by (simp add: message_file_eval nomultpx_text_def msg_nomultpx_def)

lemma file_othertsr: "message_file othertsr_text = msg_othertsr"
  by (simp add: message_file_eval othertsr_text_def msg_othertsr_def)

lemma file_unloaded: "message_file unloaded_text = msg_unloaded"
  by (simp add: message_file_eval unloaded_text_def msg_unloaded_def)

lemma file_mapfail: "message_file mapfail_text = msg_mapfail"
  by (simp add: message_file_eval mapfail_text_def msg_mapfail_def)

lemma file_drvactiv: "message_file drvactiv_text = msg_drvactiv"
  by (simp add: message_file_eval drvactiv_text_def msg_drvactiv_def)

lemma file_memfail: "message_file memfail_text = msg_memfail"
  by (simp add: message_file_eval memfail_text_def msg_memfail_def)

lemma file_relfail: "message_file relfail_text = msg_relfail"
  by (simp add: message_file_eval relfail_text_def msg_relfail_def)

lemma file_comfail: "message_file comfail_text = msg_comfail"
  by (simp add: message_file_eval comfail_text_def msg_comfail_def)

lemma file_instlled: "message_file instlled_text = msg_instlled"
  by (simp add: message_file_eval instlled_text_def msg_instlled_def)

lemmas files_current = file_help file_unsupdos file_noredir file_alrload file_notload file_tsrcomfa file_nomultpx file_othertsr
  file_unloaded file_mapfail file_drvactiv file_memfail file_relfail file_comfail file_instlled

lemma messages_eq: "messages = map (\<lambda>(f, t). (f, message_file t)) genmsg_jobs"
  by (simp add: messages_def genmsg_jobs_def files_current)

lemma jobs_distinct: "distinct (map fst genmsg_jobs)"
  by (simp add: genmsg_jobs_def)

lemma texts_fine: "\<forall>(f, t) \<in> set genmsg_jobs. t \<noteq> [] \<and> CHR 0x24 \<notin> set t"
  by (simp add: genmsg_jobs_def message_texts)

section \<open>The loop of the generator writes the rows\<close>

lemma row_bits: "(i AND 15 = 0 \<longleftrightarrow> i mod 16 = 0)" "drop_bit 4 i = i div 16" for i :: nat
  using take_bit_eq_mask [of 4 i] by (simp_all add: take_bit_eq_mod drop_bit_eq_div mask_eq_exp_minus_1)

lemma commas_map: "commas (map f (x # xs)) = f x @ concat (map (\<lambda>y. '','' @ f y) xs)"
  by (induction xs arbitrary: x) simp_all

lemma loop_row:
  "0 < j \<Longrightarrow> j + length xs \<le> 16 \<Longrightarrow> genmsg_loop (16 * k + j) (xs @ ys) =
     concat (map (\<lambda>c. '','' @ udec (of_char c)) xs) @ genmsg_loop (16 * k + (j + length xs)) ys"
proof (induction xs arbitrary: j)
  case (Cons c xs)
  then show ?case using Cons.IH [of "Suc j"] by (simp add: row_bits)
qed simp

lemma loop_first:
  "length xs \<le> 15 \<Longrightarrow> genmsg_loop (16 * k) (c # xs @ ys) =
     crlf @ ''  '' @ row_label k @ '' db '' @ commas (map udec (map of_char (c # xs))) @ genmsg_loop (16 * k + (1 + length xs)) ys"
  using loop_row [of 1 xs k ys] by (simp add: row_bits commas_map comp_def del: list.map(2))

lemma rows_written:
  "msg \<noteq> [] \<Longrightarrow> genmsg_loop (16 * k) msg @ '','' @ [CHR 0x27, CHR 0x24, CHR 0x27] @ crlf =
     crlf @ concat (map (\<lambda>a. asm_line a @ crlf) (data_rows k (map of_char msg)))"
proof (induction "length msg" arbitrary: msg k rule: less_induct)
  case less
  then obtain c cs where msg: "msg = c # cs" by (cases msg) auto
  show ?case
  proof (cases "length msg \<le> 16")
    case True
    then show ?thesis
      using loop_first [of cs k c "[]"] by (simp add: data_rows.simps [of k] msg)
  next
    case False
    have cut: "cs = take 15 cs @ drop 16 msg" "length (take 15 cs) = 15" "take 16 msg = c # take 15 cs"
      using False by (simp_all add: msg)
    have "genmsg_loop (16 * k) msg = crlf @ ''  '' @ row_label k @ '' db '' @
        commas (map udec (map of_char (take 16 msg))) @ genmsg_loop (16 * (k + 1)) (drop 16 msg)"
      using loop_first [of "take 15 cs" k c "drop 16 msg"] cut by (simp add: msg)
    moreover have "data_rows k (map of_char msg) = Db (row_label k) (map of_char (take 16 msg)) # data_rows (k + 1) (map of_char (drop 16 msg))"
      using False by (simp add: data_rows.simps [of k] take_map drop_map)
    ultimately show ?thesis
      using less.hyps [of "drop 16 msg" "k + 1"] False by simp
  qed
qed

lemma digits [simp]: "udec 9 = ''9''" "udec 2 = ''2''" "udec (Suc 0) = ''1''"
  by code_simp+

lemma genmsg_text_eq:
  "msg \<noteq> [] \<Longrightarrow> genmsg_text fname msg = genmsg_line fname @ render crlf (file_lines (message_file msg))"
  using rows_written [of msg 0] by (simp add: genmsg_text_def render_def file_lines_def message_file_def comp_def)

section \<open>The run of a file\<close>

text \<open>
  The registers and the stack of the processor and what DOS has printed. The stack is kept apart
  from memory, which the instructions only read. The encodings are those of the 8086.
\<close>

record cpu =
  c_ds :: u16
  c_dx :: u16
  c_ax :: u16
  c_cs :: u16
  c_ip :: u16
  c_stack :: "u16 list"
  c_out :: "byte list"

fun get_reg :: "reg \<Rightarrow> cpu \<Rightarrow> u16" where
  "get_reg DS c = c_ds c"
| "get_reg DX c = c_dx c"
| "get_reg AX c = c_ax c"
| "get_reg CS c = c_cs c"

fun set_reg :: "reg \<Rightarrow> u16 \<Rightarrow> cpu \<Rightarrow> cpu" where
  "set_reg DS v c = c\<lparr>c_ds := v\<rparr>"
| "set_reg DX v c = c\<lparr>c_dx := v\<rparr>"
| "set_reg AX v c = c\<lparr>c_ax := v\<rparr>"
| "set_reg CS v c = c\<lparr>c_cs := v\<rparr>"

fun push_code :: "reg \<Rightarrow> byte" where
  "push_code DS = 0x1E"
| "push_code DX = 0x52"
| "push_code AX = 0x50"
| "push_code CS = 0x0E"

fun asm_size :: "asm \<Rightarrow> nat" where
  "asm_size (Call l) = 3"
| "asm_size (Label l) = 0"
| "asm_size (Db l ns) = length ns"
| "asm_size (DbEnd l ns) = length ns + 1"
| "asm_size (MovAh b) = 2"
| "asm_size (IntNo b) = 2"
| "asm_size a = 1"

fun assemble :: "asm list \<Rightarrow> byte list" where
  "assemble [] = []"
| "assemble (Push r # p) = push_code r # assemble p"
| "assemble (Pop r # p) = (if r = DS then 0x1F else if r = CS then 0x0F else push_code r + 8) # assemble p"
| "assemble (Call l # p) = 0xE8 # le16 (of_nat (sum_list (map asm_size (takeWhile (\<lambda>a. a \<noteq> Label l) p)))) @ assemble p"
| "assemble (Label l # p) = assemble p"
| "assemble (Db l ns # p) = map of_nat ns @ assemble p"
| "assemble (DbEnd l ns # p) = map of_nat ns @ 0x24 # assemble p"
| "assemble (MovAh b # p) = 0xB4 # b # assemble p"
| "assemble (IntNo b # p) = 0xCD # b # assemble p"

text \<open>INT 21h with AH = 9: the bytes at DS:DX up to the dollar sign.\<close>

partial_function (option) dollar :: "memory \<Rightarrow> fp \<Rightarrow> byte list option" where
  "dollar m p = (if peek8 m p = 0x24 then Some [] else do { bs \<leftarrow> dollar m (fadd p 1); Some (peek8 m p # bs) })"

lemma dropWhile_shorter [termination_simp]: "length (dropWhile P xs) < Suc (length xs)"
  by (simp add: le_imp_less_Suc length_dropWhile_le)

fun exec :: "memory \<Rightarrow> asm list \<Rightarrow> cpu \<Rightarrow> cpu option" where
  "exec m [] c = Some c"
| "exec m (Push r # p) c = exec m p (c\<lparr>c_stack := get_reg r c # c_stack c, c_ip := c_ip c + 1\<rparr>)"
| "exec m (Pop r # p) c =
     (case c_stack c of [] \<Rightarrow> None | v # st \<Rightarrow> exec m p (set_reg r v (c\<lparr>c_stack := st, c_ip := c_ip c + 1\<rparr>)))"
| "exec m (Call l # p) c =
     (let ret = c_ip c + 3; ahead = takeWhile (\<lambda>a. a \<noteq> Label l) p
      in exec m (dropWhile (\<lambda>a. a \<noteq> Label l) p)
        (c\<lparr>c_stack := ret # c_stack c, c_ip := ret + of_nat (sum_list (map asm_size ahead))\<rparr>))"
| "exec m (Label l # p) c = exec m p c"
| "exec m (Db l ns # p) c = None"
| "exec m (DbEnd l ns # p) c = None"
| "exec m (MovAh b # p) c = exec m p (c\<lparr>c_ax := c_ax c AND 0xFF OR push_bit 8 (ucast b), c_ip := c_ip c + 2\<rparr>)"
| "exec m (IntNo b # p) c =
     (if b = 0x21 \<and> drop_bit 8 (c_ax c) = 9
      then do { bs \<leftarrow> dollar m (c_ds c, c_dx c);
                exec m p (c\<lparr>c_out := c_out c @ bs, c_ax := c_ax c AND 0xFF00 OR 0x24, c_ip := c_ip c + 2\<rparr>) }
      else None)"

lemma dollar_bytes:
  "peek_bytes m p (length bs + 1) = bs @ [0x24] \<Longrightarrow> 0x24 \<notin> set bs \<Longrightarrow> dollar m p = Some bs"
proof (induction bs arbitrary: p)
  case Nil
  then show ?case by (subst dollar.simps) (simp add: peek_bytes_def)
next
  case (Cons b bs)
  have "peek8 m p = b"
    using arg_cong [OF Cons.prems(1), of "\<lambda>xs. xs ! 0"] by (simp add: peek_bytes_def del: upt_Suc)
  moreover have "peek_bytes m (fadd p 1) (length bs + 1) = bs @ [0x24]"
    using peek_bytes_sub [of 1 "length bs + 1" "length (b # bs) + 1" m p] Cons.prems(1) by simp
  ultimately show ?case using Cons by (subst dollar.simps) simp
qed

lemma data_rows_run:
  "assemble (data_rows k bs @ p) = map of_nat bs @ 0x24 # assemble p"
  "sum_list (map asm_size (data_rows k bs)) = length bs + 1"
  "Label l \<notin> set (data_rows k bs)"
proof (induction k bs rule: data_rows.induct)
  case (1 k bs)
  {
    case 1
    show ?case using "1.IH"(1) by (cases "length bs \<le> 16") (simp_all add: data_rows.simps [of k] flip: map_append append_assoc)
  next
    case 2
    show ?case using "1.IH"(2) by (cases "length bs \<le> 16") (simp_all add: data_rows.simps [of k])
  next
    case 3
    show ?case using "1.IH"(3) by (cases "length bs \<le> 16") (simp_all add: data_rows.simps [of k])
  }
qed

lemma byte_of_char: "of_nat (of_char c) = (of_char c :: byte)"
  by (rule of_nat_of_char)

lemma dollar_char: "of_char c = (0x24 :: byte) \<Longrightarrow> c = CHR 0x24"
proof -
  assume "of_char c = (0x24 :: byte)"
  then have "unat (of_nat (of_char c) :: byte) = 0x24" by (simp add: byte_of_char)
  then have "of_char c = (of_char (CHR 0x24) :: nat)"
    by (simp add: unat_of_nat take_bit_nat_eq_self_iff del: of_char_eq_iff)
  then show ?thesis by (rule of_char_eqI)
qed

lemma message_assembled:
  "assemble (message_file msg) = [0x1E, 0x52, 0x50, 0xE8] @ le16 (of_nat (length msg + 1)) @ map of_char msg @ [0x24] @
     [0x5A, 0x0E, 0x1F, 0xB4, 9, 0xCD, 0x21, 0x58, 0x5A, 0x1F]"
proof -
  have "takeWhile (\<lambda>a. a \<noteq> Label l) (data_rows 0 bs @ Label l # p) = data_rows 0 bs" for l bs p
    using data_rows_run(3) by (subst takeWhile_append2) auto
  then show ?thesis by (simp add: message_file_def data_rows_run byte_of_char)
qed

lemma mov_ah: "drop_bit 8 ((a :: u16) AND 0xFF OR push_bit 8 (ucast (9 :: byte))) = 9"
  by (simp add: drop_bit_and drop_bit_or)

lemma message_run:
  assumes "peek_bytes m (c_cs c, c_ip c) (length (assemble (message_file msg))) = assemble (message_file msg)"
    and "CHR 0x24 \<notin> set msg"
  shows "exec m (message_file msg) c = Some (c\<lparr>c_ip := c_ip c + of_nat (length (assemble (message_file msg))),
    c_out := c_out c @ map of_char msg\<rparr>)"
proof -
  let ?bs = "map of_char msg :: byte list" and ?p = "[Pop DX, Push CS, Pop DS, MovAh 9, IntNo 0x21, Pop AX, Pop DX, Pop DS]"
  have ahead: "takeWhile (\<lambda>a. a \<noteq> Label l) (data_rows 0 bs @ Label l # p) = data_rows 0 bs"
    "dropWhile (\<lambda>a. a \<noteq> Label l) (data_rows 0 bs @ Label l # p) = Label l # p" for l bs p
    using data_rows_run(3) by (subst takeWhile_append2, auto) (subst dropWhile_append2, auto)
  have "peek_bytes m (fadd (c_cs c, c_ip c) (of_nat 6)) (length ?bs + 1) = take (length ?bs + 1) (drop 6 (assemble (message_file msg)))"
    using peek_bytes_sub [of 6 "length ?bs + 1" "length (assemble (message_file msg))" m "(c_cs c, c_ip c)"] assms(1)
    by (simp add: message_assembled)
  then have "peek_bytes m (c_cs c, c_ip c + 6) (length ?bs + 1) = ?bs @ [0x24]"
    by (simp add: message_assembled fadd_def le16_def)
  moreover have "0x24 \<notin> set ?bs" using assms(2) by (auto dest: dollar_char)
  ultimately have d: "dollar m (c_cs c, c_ip c + 6) = Some ?bs" by (rule dollar_bytes)
  have ip: "17 + (c_ip c + w) = c_ip c + (17 + w)" "6 + c_ip c = c_ip c + 6" for w by simp_all
  show ?thesis
    by (simp add: message_file_def ahead data_rows_run Let_def d mov_ah message_assembled [unfolded message_file_def, simplified] ip)
qed

section \<open>Properties\<close>

lemma message_of_file:
  assumes "(f, p) \<in> set messages" "(f, msg) \<in> set genmsg_jobs"
  shows "p = message_file msg" "msg \<noteq> []" "CHR 0x24 \<notin> set msg"
proof -
  obtain t where t: "(f, t) \<in> set genmsg_jobs" "p = message_file t"
    using assms(1) by (auto simp: messages_eq)
  then show "p = message_file msg" using eq_key_imp_eq_value [OF jobs_distinct t(1) assms(2)] by simp
  show "msg \<noteq> []" "CHR 0x24 \<notin> set msg" using texts_fine assms(2) by auto
qed

text \<open>
  C36: each include file of the repository, assembled anywhere in the code segment, prints when it is run exactly
  the text that the generator has for it, and leaves every register and the stack as they were.
\<close>

theorem messages_print:
  assumes "(f, p) \<in> set messages" "(f, msg) \<in> set genmsg_jobs"
    and "peek_bytes m (c_cs c, c_ip c) (length (assemble p)) = assemble p"
  shows "exec m p c = Some (c\<lparr>c_ip := c_ip c + of_nat (length (assemble p)), c_out := c_out c @ map of_char msg\<rparr>)"
  using message_run [of m c msg] message_of_file [OF assms(1,2)] assms(3) by simp

theorem messages_print_witness:
  "\<exists>m c'. exec m msg_memfail \<lparr>c_ds = 1, c_dx = 2, c_ax = 3, c_cs = 0x2000, c_ip = 0x100, c_stack = [], c_out = []\<rparr> = Some c' \<and>
     c_out c' = map of_char memfail_text \<and> c_stack c' = []"
proof -
  let ?c = "\<lparr>c_ds = 1, c_dx = 2, c_ax = 3, c_cs = 0x2000, c_ip = 0x100, c_stack = [], c_out = []\<rparr>"
  let ?m = "poke_bytes (\<lambda>_. 0) (0x2000, 0x100) (assemble msg_memfail)"
  have "length (assemble msg_memfail) = 38"
    unfolding file_memfail [symmetric] by (simp add: message_assembled memfail_text_def le16_def)
  then have "peek_bytes ?m (c_cs ?c, c_ip ?c) (length (assemble msg_memfail)) = assemble msg_memfail"
    using peek_poke_bytes_same [of "(0x2000, 0x100)" "assemble msg_memfail" "\<lambda>_. 0"] by (simp add: fits_def)
  from messages_print [OF _ _ this, of "''memfail''" memfail_text]
  have "exec ?m msg_memfail ?c = Some (?c\<lparr>c_ip := c_ip ?c + of_nat (length (assemble msg_memfail)),
      c_out := c_out ?c @ map of_char memfail_text\<rparr>)"
    by (simp add: messages_def genmsg_jobs_def)
  then show ?thesis by (intro exI conjI) (assumption, simp_all)
qed

section \<open>The generator and the repository\<close>

text \<open>Lines without a line end inside are got back, whichever line end they are written with.\<close>

definition plain :: "string \<Rightarrow> bool" where
  "plain l \<longleftrightarrow> CHR 0x0A \<notin> set l \<and> CHR 0x0D \<notin> set l"

lemma plain_append [simp]: "plain (a @ b) \<longleftrightarrow> plain a \<and> plain b" "plain [] "
  by (auto simp: plain_def)

lemma split_plain: "plain l \<Longrightarrow> split_lines k (l @ s) = split_lines (k @ l) s"
  by (induction l arbitrary: k) (auto simp: plain_def)

lemma text_lines_render:
  assumes "e = crlf \<or> e = [CHR 0x0D, CHR 0x0D, CHR 0x0A]" "list_all plain ls"
  shows "text_lines (render e ls) = ls"
  using assms(2)
proof (induction ls)
  case (Cons l ls)
  then have "split_lines [] (l @ e @ render e ls) = l # split_lines [] (render e ls)"
    using assms(1) split_plain [of l "[]" "e @ render e ls"] by auto
  then show ?case using Cons by (simp add: text_lines_def render_def)
qed (simp add: text_lines_def render_def)

lemma plain_digit: "n < 10 \<Longrightarrow> plain [char_of (48 + n :: nat)]"
proof -
  assume "n < 10"
  then have "n = 0 \<or> n = 1 \<or> n = 2 \<or> n = 3 \<or> n = 4 \<or> n = 5 \<or> n = 6 \<or> n = 7 \<or> n = 8 \<or> n = 9" by presburger
  then show ?thesis by (elim disjE) (simp_all add: plain_def, code_simp+)
qed

lemma plain_udec: "plain (udec n)"
proof (induction n rule: udec.induct)
  case (1 n)
  then show ?case
    using plain_digit [of n] plain_digit [of "n mod 10"] by (subst udec.simps) simp
qed

lemma plain_commas: "list_all plain xs \<Longrightarrow> plain (commas xs)"
  by (induction xs rule: commas.induct) (auto simp: plain_def)

fun asm_label :: "asm \<Rightarrow> string" where
  "asm_label (Call l) = l"
| "asm_label (Label l) = l"
| "asm_label (Db l ns) = l"
| "asm_label (DbEnd l ns) = l"
| "asm_label a = []"

lemma plain_asm_line: "plain (asm_label a) \<Longrightarrow> plain (asm_line a)"
proof (cases a)
  case (Push r)
  then show ?thesis by (cases r) (simp_all add: plain_def)
next
  case (Pop r)
  then show ?thesis by (cases r) (simp_all add: plain_def)
next
  case (Db l ns)
  assume "plain (asm_label a)"
  moreover have "plain (commas (map udec ns))" using plain_udec by (intro plain_commas) (simp add: list_all_iff)
  ultimately show ?thesis by (simp add: Db) (simp add: plain_def)
next
  case (DbEnd l ns)
  assume "plain (asm_label a)"
  moreover have "plain (commas (map udec ns))" using plain_udec by (intro plain_commas) (simp add: list_all_iff)
  ultimately show ?thesis by (simp add: DbEnd) (simp add: plain_def)
qed (use plain_udec in \<open>auto simp: plain_def\<close>)

lemma messages_plain: "list_all (\<lambda>(f, p). plain f \<and> list_all (\<lambda>a. plain (asm_label a)) p) messages"
  by (simp add: messages_def message_files plain_def)

text \<open>What the generator leaves in the file of a message, and in all the files it can open.\<close>

definition generated :: "string \<Rightarrow> asm list \<Rightarrow> string" where
  "generated f p = genmsg_line (msg_path f) @ render crlf (file_lines p)"

definition written :: "(string \<Rightarrow> bool) \<Rightarrow> (string \<times> asm list) list \<Rightarrow> (string \<times> string) list" where
  "written writable ps = map (\<lambda>(f, p). (msg_path f, generated f p)) (filter (\<lambda>(f, p). writable (msg_path f)) ps)"

lemma generated_lines:
  assumes "plain f" "list_all (\<lambda>a. plain (asm_label a)) p"
  shows "tl (text_lines (generated f p)) = file_lines p" "tl (text_lines (repo_file f p)) = file_lines p"
proof -
  have ls: "list_all plain (file_lines p)"
    using assms(2) plain_asm_line by (auto simp: file_lines_def list_all_iff) (auto simp: plain_def)
  let ?h = "''/* '' @ msg_path f @ '': THIS FILE IS AUTO-GENERATED BY GENMSG.C -- DO NOT MODIFY! */''"
  have "generated f p = render crlf (?h # file_lines p)"
    by (simp add: generated_def genmsg_line_def render_def)
  moreover have "plain ?h" using assms(1) by (simp add: msg_path_def plain_def)
  ultimately show "tl (text_lines (generated f p)) = file_lines p"
    using text_lines_render [of crlf "?h # file_lines p"] ls by (simp del: append_Cons)
  let ?r = "''/* '' @ f @ ''.c: THIS FILE IS AUTO-GENERATED BY GENMSG.PY -- DO NOT MODIFY! */''"
  have "plain ?r" using assms(1) by (simp add: plain_def)
  then show "tl (text_lines (repo_file f p)) = file_lines p"
    using text_lines_render [of "[CHR 0x0D, CHR 0x0D, CHR 0x0A]" "?r # file_lines p"] ls
    by (simp add: repo_file_def del: append_Cons)
qed

lemma written_simps [simp]:
  "written writable [] = []"
  "written writable ((f, p) # ps) = (if writable (msg_path f)
     then (msg_path f, generated f p) # written writable ps else written writable ps)"
  by (simp_all add: written_def)

lemma msg_path_eq [simp]: "msg_path f = msg_path g \<longleftrightarrow> f = g"
  by (simp add: msg_path_def)

lemma written_paths:
  "fst ` set (written writable (map (\<lambda>(f, t). (f, message_file t)) jobs)) \<subseteq> msg_path ` fst ` set jobs"
  by (force simp: written_def)

lemma genmsg_fold:
  "distinct (map fst jobs) \<Longrightarrow> \<forall>(f, t) \<in> set jobs. t \<noteq> [] \<Longrightarrow>
   fold (\<lambda>(f, msg) (r, fs). let (e, fs) = genmsg writable (msg_path f) msg fs in (r + e, fs)) jobs (r, fs) =
     (r + length (filter (\<lambda>(f, p). \<not> writable (msg_path f)) (map (\<lambda>(f, t). (f, message_file t)) jobs)),
      fs ++ map_of (written writable (map (\<lambda>(f, t). (f, message_file t)) jobs)))"
proof (induction jobs arbitrary: r fs)
  case (Cons j jobs)
  obtain f t where j: "j = (f, t)" by fastforce
  have "msg_path f \<notin> msg_path ` fst ` set jobs" using Cons.prems(1) by (force simp: j)
  then have "msg_path f \<notin> dom (map_of (written writable (map (\<lambda>(f, t). (f, message_file t)) jobs)))"
    using written_paths [of writable jobs] unfolding dom_map_of_conv_image_fst by blast
  then show ?case
    using Cons by (auto simp: j genmsg_def Let_def genmsg_text_eq generated_def map_add_upd_left) (auto simp: map_add_def fun_eq_iff)
qed simp

text \<open>
  C37: the generator writes a file for every message whose file it can open, touches no other file, and
  exits with the number of files it could not open. What it writes agrees, line by line, with the
  include file of the repository in every line but the first; the first line and the line ends are
  different (the repository's files name another generator and end their lines in CR CR LF).
\<close>

theorem genmsg_regenerates:
  "genmsg_main writable fs =
     (let n = length (filter (\<lambda>(f, p). \<not> writable (msg_path f)) messages)
      in (n, n \<noteq> 0, fs ++ map_of (written writable messages))) \<and>
   map (\<lambda>(f, p). tl (text_lines (generated f p))) messages = map (\<lambda>(f, p). tl (text_lines (repo_file f p))) messages"
proof
  have "\<forall>(f, t) \<in> set genmsg_jobs. t \<noteq> []" using texts_fine by auto
  from genmsg_fold [OF jobs_distinct this]
  show "genmsg_main writable fs =
     (let n = length (filter (\<lambda>(f, p). \<not> writable (msg_path f)) messages)
      in (n, n \<noteq> 0, fs ++ map_of (written writable messages)))"
    by (simp add: genmsg_main_def messages_eq Let_def)
  show "map (\<lambda>(f, p). tl (text_lines (generated f p))) messages = map (\<lambda>(f, p). tl (text_lines (repo_file f p))) messages"
    using messages_plain generated_lines by (auto simp: list_all_iff)
qed

end
