(* ===== verification/Spec2Isabelle.thy ===== *)
theory Spec2Isabelle
  imports Sdf_Events Sdf_Wire Sdf_Exerciser Sdf_Probes Sdf_Messages
begin

text \<open>
SerialDFS is a network drive for DOS over a serial port: a resident program, \<open>SERDFS\<close>, takes the
redirector calls of DOS (INT 2Fh, AH=11h) for the mapped drives and turns each into requests to a
daemon at the other end of an RS-232 line. This development covers the C code of \<open>dos/src\<close> and
\<open>dos/tools\<close>, from the bytes on the wire to the life of the resident program.

1. Parts, theories and source files.

  \<^item> \<open>Sdf_Prelude\<close>: machine types of the Open Watcom 16-bit small model (8-, 16- and 32-bit
    words), little-endian access, C arrays as lists, the rules \<open>ensures_rules\<close> for partial results,
    the interface \<open>byte_codec\<close>.
  \<^item> \<open>Sdf_Frame\<close>: \<open>serframe.c\<close>, \<open>serframe.h\<close>: the table-driven CRC with its lazily filled static
    table, \<open>frame_encode\<close>, \<open>frame_decode\<close>. A wrong frame is a value of \<open>frame_err\<close>.
  \<^item> \<open>Sdf_Uart\<close>: \<open>seruart.c\<close>. Ports and tick counter are the record \<open>uart_ops\<close> over a hardware state.
  \<^item> \<open>Sdf_Rpc\<close>: \<open>serrpc.c\<close>: \<open>serial_rpc\<close> with its buffers, sequence number, ten attempts, and counters.
    \<open>Sdf_Line\<close>: a line with a peer, and what the call does against it. \<open>Sdf_Wire\<close>: a server with a state of
    its own at the other end, and READ and WRITE of DOS from the interrupt to the server's file.
  \<^item> \<open>Sdf_DosMem\<close>: conventional memory, far pointers and the structures of \<open>dosstruc.h\<close>.
    \<open>Sdf_Names\<close>: the name, path and status helpers of \<open>serdfs.c\<close>.
  \<^item> \<open>Sdf_State\<close>: \<open>globals.h\<close>, the resident statics as the record \<open>tsr\<close>. \<open>Sdf_Redirector\<close>: \<open>process2f\<close>,
    one definition per arm of the switch. \<open>Sdf_IntHandler\<close>: \<open>inthandler\<close>. \<open>Sdf_Status\<close>: the status bar and
    the handlers of INT 1Ch and 28h.
  \<^item> \<open>Sdf_FileOps\<close>, \<open>Sdf_Search\<close>: what the arms do with the answers of a server.
  \<^item> \<open>Sdf_Args\<close>: \<open>parseargv\<close>. \<open>Sdf_Install\<close>: \<open>main\<close> and its helpers (\<open>/STATS\<close>, \<open>/U\<close>, installation) on the
    resident state extended by what only \<open>main\<close> has. \<open>Sdf_Effects\<close>: what these do to vectors and memory.
    \<open>Sdf_Lifecycle\<close>: the theorems about them.
  \<^item> \<open>Sdf_Entry\<close>: the way of a call from \<open>inthandler\<close> to \<open>process2f\<close>, and that it returns. \<open>Sdf_Events\<close>: the
    resident program as a state machine, \<open>resident_step\<close>, over the interrupts it hooks.
  \<^item> \<open>Sdf_Tools\<close>, \<open>Sdf_Transfers\<close>: SERCOPY, SERTYPE, SERDIR, SERDEL, SERREN. \<open>Sdf_Probes\<close>: SERPING and
    CRCFUZZ. \<open>Sdf_Exerciser\<close>: I2FEXER, alone and on a machine with a resident copy.
  \<^item> \<open>Sdf_Messages\<close>: \<open>genmsg.c\<close>, the files \<open>msg/*.c\<close> it is for, and the run of their instructions.
  \<^item> \<open>Sdf_Sample\<close>, \<open>Sdf_Machine\<close>: concrete memories, servers and an environment for the witnesses.

2. How the parts interact. The resident state holds the link; \<open>call_rpc\<close> runs the remote call on it and
copies the reply to \<open>glob_rep_payload\<close>. Everything above the call takes it as an argument \<open>rpc\<close>, so a theorem about
a handler holds for any transport; the program's is \<open>serial_rpc\<close>. The locale \<open>rpc_service\<close> states what
the handlers need from it (the link invariant is kept, a reply fits the buffer) and is interpreted on
\<open>serial_rpc\<close>; its extensions \<open>handlers\<close> and \<open>live_handlers\<close> carry the invariant and the termination of the handlers. The locale \<open>line_like\<close> states what
the driver needs of a machine with a line in it, and is interpreted on the line, the UART with its divisor latch and the
line with the server behind it. \<open>inthandler\<close> calls \<open>process2f\<close>; \<open>main\<close> finds a resident copy through the answers \<open>inthandler\<close> gives.

3. Conventions. A result \<open>None\<close> is a call with no defined outcome: a loop that does not end or a store
outside an array. Error returns are values: \<open>frame_err\<close>, \<open>rpc_result\<close>, the carry flag and AX
of the register record, negative codes of \<open>parseargv\<close>, exit codes. Words have the width of the C type and wrap. Variables the
code does not initialise (\<open>rstatus\<close>) are arguments of the model. Loops with a bound are total functions with a measure; polling
loops and loops over strings are partial functions. No fuel is used. The ten attempts of
\<open>serial_rpc\<close> are those of the source.

4. Parameters, which stand for code outside the repository's C files: the UART and tick counter
(\<open>uart_ops\<close>; \<open>timer_live\<close> says that the tick counter goes on); the server (\<open>answers\<close>, \<open>serves_reads\<close>,
\<open>serves_writes\<close>, \<open>serves_listing\<close>, \<open>serves_stream\<close> say what it replies); DOS and the INT 2Fh chain (\<open>dos_ops\<close>; \<open>dos_laws\<close>
is its documented behaviour); the addresses the linker chooses (\<open>code_map\<close>).

5. What the lemmas show. \<open>Sdf_Frame\<close>: the CRC is the division by the CCITT generator over GF(2),
encoding and decoding are inverse, damage to two adjacent bytes is detected (and where it need not be). \<open>Sdf_Uart\<close>, \<open>Sdf_Rpc\<close>, \<open>Sdf_Line\<close>: loops end, buffers are not overrun, an
answered call returns the answer, a dead peer a timeout, and the counters say exactly what was heard on the line. \<open>Sdf_Wire\<close>: the call is the server's function. \<open>Sdf_FileOps\<close>: path commands, reads, writes and opens
against the server, with the rest of memory unchanged. \<open>Sdf_Search\<close>: the pages of a listing are walked once.
\<open>Sdf_Effects\<close>, \<open>Sdf_Lifecycle\<close>: an installation changes what it should, a refused one nothing, unloading
undoes it. \<open>Sdf_Entry\<close>, \<open>Sdf_Events\<close>: the handlers return, every reachable state is well formed, a tick leads to
a redraw, and a session from installation over any events to unloading gives the vectors back. \<open>Sdf_Transfers\<close>: the tools
transfer what they are asked to and leave no handle open. \<open>Sdf_Probes\<close>, \<open>Sdf_Exerciser\<close>: the exit codes of the probes mean what they say.
\<open>Sdf_Messages\<close>: the generator's files agree with those of the repository below the first line, and print its texts.

6. Not modelled. The statics of the resident program are the record \<open>tsr\<close> and not bytes of \<open>mem\<close>: a
transfer area that overlaps the data segment of the resident program is outside the model, and the copy of the data segment at
installation is the identity. The switch of the stack and of DS in the interrupt prologues is not visible in the state; \<open>main\<close> uses a
buffer on its old stack after DS has changed, which the model treats as the same buffer. \<open>main\<close> shows a message as
the name of its file; what the file prints is the subject of \<open>Sdf_Messages\<close>. The programs \<open>diaglol.c\<close>, \<open>sstest.c\<close>,
\<open>hello.c\<close> and \<open>int2ftest.c\<close> print one register or field and compute nothing. The transitions of \<open>resident_step\<close> are
whole handlers: an interrupt inside the code of another handler is not modelled. A directory search is outside
the theorem that calls return: the peer decides how many pages it has. The C library formats what \<open>printf\<close> prints.
\<close>

text \<open>
  C1: a READ call of DOS on a handle opened for reading, served by a peer that holds the file
  \<open>F\<close>, returns exactly the bytes of \<open>F\<close> from the file position on, at
  most CX and cut at the end of the file: the transfer area holds them, CX is their number, the
  file position advances by it, carry is clear and no other byte of memory changes, however many
  512-byte requests it takes.
\<close>

theorem read_transfers_file:
  assumes "reg_al (glob_intregs s) = AL_READFIL"
    and "serves_reads rpc (comport (glob_data s)) hid F P" "P (link s)"
    and "length (glob_req_payload s) = 512" "length (glob_rep_payload s) = 512"
    and "sft = (es (glob_intregs s), di (glob_intregs s))"
    and "io_layout (mem s) (glob_sdaptr s) sft dta n" "n = unat (cx (glob_intregs s))"
    and "peek16 (mem s) (fadd sft SFT_OPEN_MODE) AND 1 = 0"
    and "ucast (peek16 (mem s) (fadd sft SFT_START_SECTOR)) = hid"
    and "unat (peek32 (mem s) (fadd sft SFT_FILE_POS)) + n < 2 ^ 32"
    and "data = take n (drop (unat (peek32 (mem s) (fadd sft SFT_FILE_POS))) F)"
  shows "\<exists>s'. process2f rpc rst s = Some s' \<and> P (link s') \<and> succeeds s' \<and>
    cx (glob_intregs s') = of_nat (length data) \<and> transferred sft dta data (mem s) (mem s')"
proof -
  obtain s' where s': "al_readfil rpc rst (SUCCESSFLAG s) = Some s'" "P (link s')"
    "glob_intregs s' = (glob_intregs (SUCCESSFLAG s))\<lparr>cx := of_nat (length data)\<rparr>"
    "transferred sft dta data (mem s) (mem s')"
    using al_readfil_file [of rpc "SUCCESSFLAG s" hid F P sft dta n data rst] assms by auto
  then show ?thesis
    using succeeds_regs(1) [OF succeeds_SUCCESSFLAG s'(3)] by (simp add: process2f_arm(1) [OF assms(1)])
qed

theorem read_transfers_file_witness:
  "\<exists>s'. process2f demo_rpc 0 (demo_tsr 8 4 (0x3000, 0) 0) = Some s' \<and> succeeds s' \<and>
     cx (glob_intregs s') = 3 \<and> transferred (0x2000, 0) (0x3000, 0) [13, 14, 15] (demo_mem (0x3000, 0) 0) (mem s')"
proof -
  have "\<exists>s'. process2f demo_rpc 0 (demo_tsr 8 4 (0x3000, 0) 0) = Some s' \<and> link s' = demo_file \<and> succeeds s' \<and>
      cx (glob_intregs s') = of_nat (length [13, 14, 15 :: byte]) \<and>
      transferred (0x2000, 0) (0x3000, 0) [13, 14, 15] (mem (demo_tsr 8 4 (0x3000, 0) 0)) (mem s')"
    by (rule read_transfers_file [where hid = 7 and F = demo_file and n = 4])
      (simp_all add: demo_serves_reads [unfolded demo_file_def] demo_sft_fields demo_io_layout demo_file_def reg_al_def)
  then show ?thesis by auto
qed

text \<open>
  C2: a WRITE call on a handle opened for writing hands the CX bytes of the transfer area to the
  peer, all of them, once and in order, however many 511-byte requests it takes; the file
  position advances and the file size grows to at least the position, nothing else in memory
  changes, and carry is clear.
\<close>

theorem write_transfers_file:
  assumes "reg_al (glob_intregs s) = AL_WRITEFIL"
    and "serves_writes rpc (comport (glob_data s)) hid content P" "P (link s)"
    and "length (glob_req_payload s) = 512" "length (glob_rep_payload s) = 512"
    and "sft = (es (glob_intregs s), di (glob_intregs s))"
    and "io_layout (mem s) (glob_sdaptr s) sft dta n" "n = unat (cx (glob_intregs s))"
    and "peek16 (mem s) (fadd sft SFT_OPEN_MODE) AND 1 \<noteq> 0"
    and "ucast (peek16 (mem s) (fadd sft SFT_START_SECTOR)) = hid"
    and "unat (peek32 (mem s) (fadd sft SFT_FILE_POS)) + n < 2 ^ 32"
  shows "\<exists>s'. process2f rpc rst s = Some s' \<and> P (link s') \<and> succeeds s' \<and> unat (cx (glob_intregs s')) = n \<and>
    content (link s') = content (link s) @ peek_bytes (mem s) dta n \<and> sft_after sft n (mem s) (mem s')"
proof -
  obtain s' where s': "al_writefil rpc rst (SUCCESSFLAG s) = Some s'" "P (link s')"
    "glob_intregs s' = glob_intregs (SUCCESSFLAG s)"
    "content (link s') = content (link s) @ peek_bytes (mem s) dta n" "sft_after sft n (mem s) (mem s')"
    using al_writefil_file [of rpc "SUCCESSFLAG s" hid content P sft dta n rst] assms by auto
  then show ?thesis
    using succeeds_regs(2) [OF succeeds_SUCCESSFLAG s'(3)] assms(8) by (simp add: process2f_arm(2) [OF assms(1)])
qed

theorem write_transfers_file_witness:
  "\<exists>s'. process2f demo_rpc 0 (demo_tsr 9 4 (0x3000, 0) 1) = Some s' \<and> succeeds s' \<and>
     link s' = [10, 11, 12, 13, 14, 15, 1, 2, 3, 4]"
proof -
  have b: "peek_bytes (demo_mem (0x3000, 0) 1) (0x3000, 0) 4 = [1, 2, 3, 4]"
    by (simp add: peek_bytes_def upt_conv_Cons demo_eval)
  have "\<exists>s'. process2f demo_rpc 0 (demo_tsr 9 4 (0x3000, 0) 1) = Some s' \<and> True \<and> succeeds s' \<and>
      unat (cx (glob_intregs s')) = 4 \<and>
      link s' = link (demo_tsr 9 4 (0x3000, 0) 1) @ peek_bytes (mem (demo_tsr 9 4 (0x3000, 0) 1)) (0x3000, 0) 4 \<and>
      sft_after (0x2000, 0) 4 (mem (demo_tsr 9 4 (0x3000, 0) 1)) (mem s')"
    by (rule write_transfers_file [where hid = 7 and content = "\<lambda>f. f" and P = "\<lambda>_. True"])
      (simp_all add: demo_serves_writes demo_sft_fields demo_io_layout reg_al_def)
  then show ?thesis by (auto simp: b demo_file_def)
qed


text \<open>
  C13: an OPEN call for which the peer grants the handle and returns the attributes fills the
  file table entry completely: attributes, device word with the drive number, handle, size, date
  and time from the reply, no driver, position 0, the requested access mode, the sector fields and
  the directory entry number at their reset values, and the FCB name; carry is clear and memory
  outside the entry is untouched.
\<close>

theorem open_fills_sft:
  assumes "reg_al (glob_intregs s) = AL_OPEN"
    and "path_at s bs" "no_wildcards bs" "sft = (es (glob_intregs s), di (glob_intregs s))" "open_layout s sft"
    and "answers rpc (comport (glob_data s)) CMD_OPEN (path_req (sft_om s sft) bs) (link s)
           (SERRPC_OK STATUS_OK (hid # rest), l1)"
    and "answers rpc (comport (glob_data s)) CMD_GET_ATTR (path_req 0 bs) l1 (SERRPC_OK STATUS_OK rp, l2)"
    and "length rest \<le> 511" "9 \<le> length rp" "length rp \<le> 512"
  shows "\<exists>s'. process2f rpc rst s = Some s' \<and> link s' = l2 \<and> succeeds s' \<and>
    sft_opened sft hid (glob_reqdrv s) (sft_om s sft) rp (peek_bytes (mem s) (sda s SDA_FCB_FN1) 11)
      (mem s) (mem s')"
proof -
  have o: "open_layout (SUCCESSFLAG s) sft" "sft_om (SUCCESSFLAG s) sft = sft_om s sft"
    using assms by (simp_all add: open_layout_def sft_om_def)
  obtain s' where s': "al_open rpc rst (SUCCESSFLAG s) = Some s'" "link s' = l2"
    "glob_intregs s' = glob_intregs (SUCCESSFLAG s)"
    "sft_opened sft hid (glob_reqdrv s) (sft_om s sft) rp (peek_bytes (mem s) (sda s SDA_FCB_FN1) 11)
      (mem s) (mem s')"
    using al_open_ok [of "SUCCESSFLAG s" bs sft rpc hid rest l1 rp l2 rst] assms o by auto
  then show ?thesis
    using succeeds_regs(2) [OF succeeds_SUCCESSFLAG s'(3)] by (simp add: process2f_arm(3) [OF assms(1)])
qed

theorem open_fills_sft_witness:
  "\<exists>s'. process2f demo_rpc 0 (demo_tsr 0x16 0 (0x3000, 0) 0) = Some s' \<and> succeeds s' \<and>
     peek32 (mem s') (fadd (0x2000, 0) SFT_FILE_SIZE) = 6 \<and>
     peek16 (mem s') (fadd (0x2000, 0) SFT_START_SECTOR) = 7"
proof -
  let ?s = "demo_tsr 0x16 0 (0x3000, 0) 0"
  have "\<exists>s'. process2f demo_rpc 0 ?s = Some s' \<and> link s' = demo_file \<and> succeeds s' \<and>
      sft_opened (0x2000, 0) 7 (glob_reqdrv ?s) (sft_om ?s (0x2000, 0)) demo_attrs
        (peek_bytes (mem ?s) (sda ?s SDA_FCB_FN1) 11) (mem ?s) (mem s')"
    by (rule open_fills_sft [where bs = demo_path and rest = "[]" and ?l1.0 = demo_file])
      (auto simp: demo_path_at demo_no_wildcards demo_open_layout reg_al_def demo_attrs_def demo_reply_def
        intro!: demo_answers)
  then show ?thesis by (auto simp: sft_opened_def demo_attrs_def get32_def get_le32_def)
qed

text \<open>
  A CREATE call asks the peer to create or truncate the file and fills the file table entry
  from the attributes of the reply, with write access; carry is clear and memory outside the
  entry is untouched.
\<close>

theorem create_fills_sft:
  assumes "reg_al (glob_intregs s) = AL_CREATE"
    and "path_at s bs" "no_wildcards bs" "sft = (es (glob_intregs s), di (glob_intregs s))" "open_layout s sft"
    and "answers rpc (comport (glob_data s)) CMD_CREATE (path_req 1 bs) (link s)
           (SERRPC_OK STATUS_OK (hid # rest), l1)"
    and "answers rpc (comport (glob_data s)) CMD_GET_ATTR (path_req 0 bs) l1 (SERRPC_OK STATUS_OK rp, l2)"
    and "length rest \<le> 511" "9 \<le> length rp" "length rp \<le> 512"
  shows "\<exists>s'. process2f rpc rst s = Some s' \<and> link s' = l2 \<and> succeeds s' \<and>
    sft_opened sft hid (glob_reqdrv s) 1 rp (peek_bytes (mem s) (sda s SDA_FCB_FN1) 11) (mem s) (mem s')"
proof -
  have o: "open_layout (SUCCESSFLAG s) sft"
    using assms by (simp add: open_layout_def)
  obtain s' where s': "al_create rpc rst (SUCCESSFLAG s) = Some s'" "link s' = l2"
    "glob_intregs s' = glob_intregs (SUCCESSFLAG s)"
    "sft_opened sft hid (glob_reqdrv s) 1 rp (peek_bytes (mem s) (sda s SDA_FCB_FN1) 11) (mem s) (mem s')"
    using al_create_ok [of "SUCCESSFLAG s" bs sft rpc hid rest l1 rp l2 rst] assms o by auto
  then show ?thesis
    using succeeds_regs(2) [OF succeeds_SUCCESSFLAG s'(3)] by (simp add: process2f_arm(4) [OF assms(1)])
qed

theorem create_fills_sft_witness:
  "\<exists>s'. process2f demo_rpc 0 (demo_tsr 0x17 0 (0x3000, 0) 0) = Some s' \<and> succeeds s' \<and>
     peek16 (mem s') (fadd (0x2000, 0) SFT_OPEN_MODE) = 1"
proof -
  let ?s = "demo_tsr 0x17 0 (0x3000, 0) 0"
  have "\<exists>s'. process2f demo_rpc 0 ?s = Some s' \<and> link s' = demo_file \<and> succeeds s' \<and>
      sft_opened (0x2000, 0) 7 (glob_reqdrv ?s) 1 demo_attrs
        (peek_bytes (mem ?s) (sda ?s SDA_FCB_FN1) 11) (mem ?s) (mem s')"
    by (rule create_fills_sft [where bs = demo_path and rest = "[]" and ?l1.0 = demo_file])
      (auto simp: demo_path_at demo_no_wildcards demo_open_layout reg_al_def demo_attrs_def demo_reply_def
        intro!: demo_answers)
  then show ?thesis by (auto simp: sft_opened_def demo_sft_fields)
qed

text \<open>
  C14: when the peer opens the file but its attributes cannot be had, because the call for them
  is lost, is answered with a failure or with fewer than nine bytes, OPEN closes the handle at
  the peer again, reports DOS error 2 and leaves memory alone: no handle is leaked.
\<close>

theorem open_failure_closes_handle:
  assumes "reg_al (glob_intregs s) = AL_OPEN"
    and "path_at s bs" "no_wildcards bs" "sft = (es (glob_intregs s), di (glob_intregs s))"
    and "answers rpc (comport (glob_data s)) CMD_OPEN (path_req (sft_om s sft) bs) (link s)
           (SERRPC_OK STATUS_OK (hid # rest), l1)"
    and "answers rpc (comport (glob_data s)) CMD_GET_ATTR (path_req 0 bs) l1 (ra, l2)"
    and "length rest \<le> 511"
    and "case ra of SERRPC_OK st rp \<Rightarrow> st \<noteq> STATUS_OK \<or> length rp < 9 | _ \<Rightarrow> True"
    and "answers rpc (comport (glob_data s)) CMD_CLOSE [hid] l2 (r, l3)"
  shows "\<exists>s'. process2f rpc rst s = Some s' \<and> link s' = l3 \<and> mem s' = mem s \<and> reports 2 s'"
  using al_open_attr_fail [of "SUCCESSFLAG s" bs sft rpc hid rest l1 ra l2 r l3 rst] assms
  by (simp add: process2f_arm(3) [OF assms(1)] sft_om_def attr_failed_def)

text \<open>
  A server that loses every call for attributes; its link state is the list of its open handles.
\<close>

definition hollow_rpc :: "byte list rpc_fun" where
  "hollow_rpc port cmd buf n hs =
     Some (if cmd = CMD_OPEN then (SERRPC_OK STATUS_OK [7], 7 # hs)
           else if cmd = CMD_CLOSE then (SERRPC_OK STATUS_OK [], remove1 (hd buf) hs)
           else (SERRPC_ERR_TIMEOUT, hs))"

lemma hollow_answers:
  "answers hollow_rpc port CMD_OPEN req hs (SERRPC_OK STATUS_OK [7], 7 # hs)"
  "answers hollow_rpc port CMD_GET_ATTR req hs (SERRPC_ERR_TIMEOUT, hs)"
  "answers hollow_rpc port CMD_CLOSE [h] hs (SERRPC_OK STATUS_OK [], remove1 h hs)"
  by (auto simp: answers_def hollow_rpc_def neq_Nil_conv Suc_le_length_iff)

theorem open_failure_closes_handle_witness:
  "\<exists>s'. process2f hollow_rpc 0 (demo_tsr 0x16 0 (0x3000, 0) 0) = Some s' \<and> link s' = demo_file \<and> reports 2 s'"
proof -
  let ?s = "demo_tsr 0x16 0 (0x3000, 0) 0"
  have "\<exists>s'. process2f hollow_rpc 0 ?s = Some s' \<and> link s' = remove1 7 (7 # link ?s) \<and> mem s' = mem ?s \<and> reports 2 s'"
    by (rule open_failure_closes_handle [where bs = demo_path and sft = "(0x2000, 0)", OF _ _ _ _ hollow_answers(1,2) _ _ hollow_answers(3)])
      (simp_all add: demo_path_at demo_no_wildcards reg_al_def)
  then show ?thesis by auto
qed


lemma path_arm:
  assumes "(al, cmd) \<in> {(AL_RMDIR, CMD_RMDIR), (AL_MKDIR, CMD_MKDIR), (AL_DELETE, CMD_DELETE)}"
    and "reg_al (glob_intregs s) = al"
  shows "\<exists>e. process2f rpc rst s = path_command rpc cmd e rst (SUCCESSFLAG s)"
  using assms by (auto simp: process2f_def Let_def al_rmdir_def al_mkdir_def al_delete_def)

text \<open>
  The DOS errors of the failure statuses, as the table of section 4 of \<open>protocol/spec.txt\<close> has them.
\<close>

definition SPEC_DOS_ERRORS :: "(byte \<times> byte) list" where
  "SPEC_DOS_ERRORS = [(0x01, 0x02), (0x02, 0x05), (0x03, 0x06), (0x04, 0x50), (0x05, 0x1D),
     (0x06, 0x17), (0x07, 0x15), (0x08, 0x01), (0x09, 0x03), (0x0A, 0x0B)]"

lemma dos_err_spec:
  "st \<noteq> STATUS_OK \<Longrightarrow> dos_err_from_status st =
     (if st = ERR_PROTOCOL then 2 else case map_of SPEC_DOS_ERRORS st of Some e \<Rightarrow> e | None \<Rightarrow> 2)"
  by (simp add: dos_err_from_status_def SPEC_DOS_ERRORS_def)

text \<open>
  C15: RMDIR, MKDIR and DELETE send the path without its drive to the peer and report what it
  answers: carry clear for status 0, and otherwise the DOS error that the protocol's table gives
  the status, with two exceptions: a status the table does not have is error 2, and so is
  \<open>ERR_PROTOCOL\<close>, for which the table demands \<open>0x0B\<close>. Memory is untouched.
\<close>

theorem path_command_outcome:
  assumes "(al, cmd) \<in> {(AL_RMDIR, CMD_RMDIR), (AL_MKDIR, CMD_MKDIR), (AL_DELETE, CMD_DELETE)}"
    and "reg_al (glob_intregs s) = al" "path_at s bs"
    and "answers rpc (comport (glob_data s)) cmd (path_req 0 bs) (link s) (SERRPC_OK st rp, l')"
  shows "\<exists>s'. process2f rpc rst s = Some s' \<and> link s' = l' \<and> mem s' = mem s \<and>
    (if st = 0 then succeeds s'
     else if st = ERR_PROTOCOL then reports 0x02 s'
     else reports (case map_of SPEC_DOS_ERRORS st of Some e \<Rightarrow> e | None \<Rightarrow> 0x02) s')"
proof -
  obtain e where "process2f rpc rst s = path_command rpc cmd e rst (SUCCESSFLAG s)"
    using path_arm [OF assms(1,2)] by blast
  then show ?thesis
    using path_command_answered [of "SUCCESSFLAG s" bs rpc cmd st rp l' e rst] assms(3,4)
    by (cases "st = STATUS_OK") (auto simp: dos_err_spec)
qed

theorem path_command_outcome_witness:
  "\<exists>s'. process2f demo_rpc 0 (demo_tsr 1 0 (0, 0) 0) = Some s' \<and> reports 5 s'"
proof -
  let ?s = "demo_tsr 1 0 (0, 0) 0"
  have "\<exists>s'. process2f demo_rpc 0 ?s = Some s' \<and> link s' = demo_file \<and> mem s' = mem ?s \<and>
      (if ERR_ACCESS = 0 then succeeds s' else if ERR_ACCESS = ERR_PROTOCOL then reports 0x02 s'
       else reports (case map_of SPEC_DOS_ERRORS ERR_ACCESS of Some e \<Rightarrow> e | None \<Rightarrow> 0x02) s')"
    by (rule path_command_outcome [where al = AL_RMDIR and cmd = CMD_RMDIR and bs = demo_path and rp = "[]"])
      (auto simp: demo_path_at reg_al_def demo_reply_def intro!: demo_answers)
  then show ?thesis by (auto simp: SPEC_DOS_ERRORS_def)
qed

text \<open>
  C16: when RMDIR, MKDIR or DELETE gets no answer, the error code is computed from the local
  variable that holds the status of a reply, which the lost call has not written: the code is
  that of an indeterminate status, and no error at all with carry set when that happens to be 0.
\<close>

theorem path_command_lost_reports_stale:
  assumes "(al, cmd) \<in> {(AL_RMDIR, CMD_RMDIR), (AL_MKDIR, CMD_MKDIR), (AL_DELETE, CMD_DELETE)}"
    and "reg_al (glob_intregs s) = al" "path_at s bs"
    and "answers rpc (comport (glob_data s)) cmd (path_req 0 bs) (link s) (SERRPC_ERR_TIMEOUT, l')"
  shows "\<exists>s'. process2f rpc rst s = Some s' \<and> link s' = l' \<and> mem s' = mem s \<and>
    reports (dos_err_from_status rst) s'"
proof -
  obtain e where "process2f rpc rst s = path_command rpc cmd e rst (SUCCESSFLAG s)"
    using path_arm [OF assms(1,2)] by blast
  then show ?thesis
    using path_command_lost [of "SUCCESSFLAG s" bs rpc cmd l' e rst] assms(3,4) by simp
qed

theorem path_command_lost_reports_stale_witness:
  "\<exists>s'. process2f (\<lambda>port cmd buf n l. Some (SERRPC_ERR_TIMEOUT, l)) 0 (demo_tsr 1 0 (0, 0) 0) = Some s' \<and> reports 0 s'"
proof -
  let ?s = "demo_tsr 1 0 (0, 0) 0" and ?rpc = "\<lambda>port cmd buf n l. Some (SERRPC_ERR_TIMEOUT, l)"
  have "\<exists>s'. process2f ?rpc 0 ?s = Some s' \<and> link s' = demo_file \<and> mem s' = mem ?s \<and>
      reports (dos_err_from_status 0) s'"
    by (rule path_command_lost_reports_stale [where al = AL_RMDIR and cmd = CMD_RMDIR and bs = demo_path])
      (auto simp: demo_path_at reg_al_def answers_def)
  then show ?thesis by (auto simp: dos_err_from_status_def)
qed

lemma and3_and1: "((w :: u16) AND 3 = 0 \<or> w AND 3 = 2 \<longrightarrow> w AND 1 = 0) \<and> (w AND 3 = 1 \<or> w AND 3 = 3 \<longrightarrow> w AND 1 \<noteq> 0)"
proof -
  have "w AND 1 = (w AND 3) AND 1" by (simp add: and.assoc)
  then show ?thesis by auto
qed

text \<open>
  C17: READ is refused with DOS error 5 on a handle of access mode 1 or 3, WRITE on a handle of
  access mode 0 or 2, before anything is sent; mode 2 is read/write, so a handle opened for both
  cannot be written.
\<close>

theorem access_mode_refused:
  assumes "sft = (es (glob_intregs s), di (glob_intregs s))"
    and "om = peek16 (mem s) (fadd sft SFT_OPEN_MODE) AND 3"
    and "(reg_al (glob_intregs s), om) \<in> {(AL_READFIL, 1), (AL_READFIL, 3), (AL_WRITEFIL, 0), (AL_WRITEFIL, 2)}"
  shows "\<exists>s'. process2f rpc rst s = Some s' \<and> link s' = link s \<and> mem s' = mem s \<and> reports 5 s'"
  using assms and3_and1 [of "peek16 (mem s) (fadd sft SFT_OPEN_MODE)"]
  by (auto simp: process2f_def Let_def al_readfil_def al_writefil_def SUCCESSFLAG_def)

theorem access_mode_refused_witness:
  "\<exists>s'. process2f demo_rpc 0 (demo_tsr 9 4 (0x3000, 0) 2) = Some s' \<and> reports 5 s' \<and> link s' = demo_file"
  using access_mode_refused [of "(0x2000, 0)" "demo_tsr 9 4 (0x3000, 0) 2" 2 demo_rpc 0]
  by (auto simp: demo_sft_fields reg_al_def)

text \<open>
  C18: GETATTR returns the attributes, the size in DI and BX, the date in DX and the time in CX
  from the reply; a reply shorter than nine bytes is error 2 and a failure status its DOS error.
\<close>

theorem getattr_registers:
  assumes "reg_al (glob_intregs s) = AL_GETATTR" "path_at s bs" "length rp \<le> 512"
    and "answers rpc (comport (glob_data s)) CMD_GET_ATTR (path_req 0 bs) (link s) (SERRPC_OK st rp, l')"
  shows "\<exists>s'. process2f rpc rst s = Some s' \<and> link s' = l' \<and> mem s' = mem s \<and>
    (if st = STATUS_OK \<and> 9 \<le> length rp
     then glob_intregs s' = (glob_intregs (SUCCESSFLAG s))\<lparr>ax := ucast (rp ! 0), di := get16 rp 1,
        bx := get16 rp 3, dx := get16 rp 5, cx := get16 rp 7\<rparr>
     else reports (if st = STATUS_OK then 2 else dos_err_from_status st) s')"
  using assms by (rule getattr_spec)

theorem getattr_registers_witness:
  "\<exists>s'. process2f demo_rpc 0 (demo_tsr 0x0F 0 (0, 0) 0) = Some s' \<and> ax (glob_intregs s') = 0x20 \<and>
     di (glob_intregs s') = 6 \<and> dx (glob_intregs s') = 0x5A21"
proof -
  let ?s = "demo_tsr 0x0F 0 (0, 0) 0"
  have "\<exists>s'. process2f demo_rpc 0 ?s = Some s' \<and> link s' = demo_file \<and> mem s' = mem ?s \<and>
      (if (STATUS_OK = STATUS_OK) \<and> 9 \<le> length demo_attrs
     then glob_intregs s' = (glob_intregs (SUCCESSFLAG ?s))\<lparr>ax := ucast (demo_attrs ! 0), di := get16 demo_attrs 1,
        bx := get16 demo_attrs 3, dx := get16 demo_attrs 5, cx := get16 demo_attrs 7\<rparr>
     else reports (if STATUS_OK = STATUS_OK then 2 else dos_err_from_status STATUS_OK) s')"
    by (rule getattr_registers [where bs = demo_path])
      (auto simp: demo_path_at reg_al_def demo_reply_def demo_attrs_def intro!: demo_answers)
  then show ?thesis by (auto simp: demo_attrs_def get16_def get_le16_def)
qed


text \<open>
  A DIR of DOS: FINDFIRST, then FINDNEXT until the carry flag is set; \<open>view\<close> is what the
  caller looks at in between, and \<open>n\<close> bounds the number of calls.
\<close>

definition findfirst_call :: "'l tsr \<Rightarrow> 'l tsr" where
  "findfirst_call s = set_regs (\<lambda>r. r\<lparr>ax := 0x111B\<rparr>) s"

definition found_name :: "'l tsr \<Rightarrow> byte list" where
  "found_name s = peek_bytes (mem s) (sda s (SDA_FOUND_FILE + FF_FNAME)) 11"

definition dos_dir :: "'l rpc_fun \<Rightarrow> byte \<Rightarrow> ('l tsr \<Rightarrow> 'v) \<Rightarrow> nat \<Rightarrow> 'l tsr \<Rightarrow> 'v list option" where
  "dos_dir rpc rst view n s =
     do { s \<leftarrow> process2f rpc rst (findfirst_call s);
          if carry s then Some []
          else do { vs \<leftarrow> walk (\<lambda>s. process2f rpc rst (findnext_call s)) carry view n s; Some (view s # vs) } }"

lemma findfirst_run:
  "process2f rpc rst (findfirst_call s) = al_findfirst rpc rst (SUCCESSFLAG (findfirst_call s))"
  by (simp add: process2f_def findfirst_call_def reg_al_def)

lemma findfirst_call_fields [simp]:
  "mem (findfirst_call s) = mem s" "link (findfirst_call s) = link s"
  "glob_data (findfirst_call s) = glob_data s" "glob_sdaptr (findfirst_call s) = glob_sdaptr s"
  "find_ready (SUCCESSFLAG (findfirst_call s)) = find_ready s"
  "dir_path_at (SUCCESSFLAG (findfirst_call s)) dir base = dir_path_at s dir base"
  by (simp_all add: find_ready_def dir_path_at_def sda_fits_def SUCCESSFLAG_def findfirst_call_def)

text \<open>
  C3: a DOS directory search, FINDFIRST and then FINDNEXT until carry, shows the caller the FCB
  names of exactly the entries of the whole listing that match the template and the attributes,
  each once and in the order of the server, across all pages.
\<close>

theorem dos_dir_lists_matches:
  assumes "find_ready s" "dir_path_at s dir base"
    and "serves_listing rpc (comport (glob_data s)) dir hid p ps (link s)"
    and "t = peek_bytes (mem s) (sda s SDA_FCB_FN1) 11" "a = peek8 (mem s) (sda s SDA_SRCH_ATTR)"
    and "matches = filter (wanted t a) (concat (p # ps))" "length matches \<le> n"
  shows "dos_dir rpc rst found_name n s = Some (map (\<lambda>e. fcb_of (take 12 e)) matches)"
proof (cases "\<exists>x \<in> set (concat (p # ps)). wanted t a x")
  case False
  let ?s = "SUCCESSFLAG (findfirst_call s)"
  obtain s' where "al_findfirst rpc rst ?s = Some s'" "reports 2 s'"
    using al_findfirst_wanted(1) [of ?s dir base rpc hid p ps t a rst] assms False by auto
  moreover have "matches = []" using False assms(6) by (simp add: filter_empty_conv)
  ultimately show ?thesis by (simp add: dos_dir_def findfirst_run reports_def carry_def)
next
  case True
  let ?s = "SUCCESSFLAG (findfirst_call s)"
  obtain e es where m: "matches = e # es"
    using True assms(6) by (metis filter_empty_conv neq_Nil_conv)
  then obtain skipped rest where l: "concat (p # ps) = skipped @ e # rest"
    "\<forall>x \<in> set skipped. \<not> wanted t a x" "wanted t a e" "es = filter (wanted t a) rest"
    using assms(6) by (metis filter_eq_ConsD)
  obtain s' where s': "al_findfirst rpc rst ?s = Some s'" "shows_entry e s'" "search_state rpc t a rest s'"
    "glob_intregs s' = glob_intregs ?s"
    using al_findfirst_wanted(2) [of ?s dir base rpc hid p ps t a skipped e rest rst] assms l by auto
  have c: "\<not> carry s'" using s'(4) by (simp add: carry_def SUCCESSFLAG_def bit_simps)
  have view: "shows_entry x z \<Longrightarrow> found_name z = fcb_of (take 12 x)" for x and z :: "'a tsr"
    by (simp add: shows_entry_def found_name_def)
  have "walk (\<lambda>s. process2f rpc rst (findnext_call s)) carry found_name n s' =
      Some (map (\<lambda>e. fcb_of (take 12 e)) (filter (wanted t a) rest))"
    using findnext.walk_all [OF view s'(3), where n = n] assms(7) m l(4) by simp
  then show ?thesis using s'(1,2) c view by (simp add: dos_dir_def findfirst_run m l(4))
qed

theorem dos_dir_lists_matches_witness:
  "dos_dir demo_rpc 0 found_name 5 (demo_tsr 0 0 (0x1000, 0x19E) 0) = Some [demo_fcb]"
proof -
  let ?s = "demo_tsr 0 0 (0x1000, 0x19E) 0"
  have t: "peek_bytes (mem ?s) (sda ?s SDA_FCB_FN1) 11 = demo_fcb" "peek8 (mem ?s) (sda ?s SDA_SRCH_ATTR) = 0x16"
    by (simp_all add: peek_bytes_def upt_conv_Cons demo_eval)
  have r: "replicate 7 (0x20 :: byte) = [0x20, 0x20, 0x20, 0x20, 0x20, 0x20, 0x20]"
    by code_simp
  have f: "fcb_of (take 12 (demo_entry 0x41)) = demo_fcb" "fcb_of (take 12 (demo_entry 0x42)) \<noteq> demo_fcb"
    "\<not> list_all2 tmpl_ok demo_fcb (fcb_of (take 12 (demo_entry 0x42)))" "list_all2 tmpl_ok demo_fcb demo_fcb"
    by (simp_all add: fcb_of_def demo_entry_def demo_fcb_def name_base_def name_ext_def pad_def tmpl_ok_def r)
  have m: "filter (wanted demo_fcb 0x16) (concat [demo_page]) = [demo_entry 0x41]"
    by (simp add: demo_page_def wanted_def f) (simp add: demo_entry_def attr_match_def)
  have "dos_dir demo_rpc 0 found_name 5 ?s = Some (map (\<lambda>e. fcb_of (take 12 e)) [demo_entry 0x41])"
    by (rule dos_dir_lists_matches [where dir = "[]" and base = "[0x41, 0x2E, 0x54, 0x58, 0x54]" and hid = 9
          and p = demo_page and ps = "[]" and t = demo_fcb and a = "0x16"])
      (simp_all only: t m, simp_all add: demo_find_ready demo_dir_path demo_serves_listing)
  then show ?thesis by (simp add: f)
qed

text \<open>
  Every redirector function keeps the invariant of the resident state, run on the program's
  own serial RPC: the payload buffers and the directory cache keep their sizes, the count of
  cached entries stays within the cache, and the link state stays well formed, whatever the UART
  delivers.
\<close>

theorem process2f_preserves_invariant:
  assumes "tsr_ok rpc_ok s" "process2f (serial_rpc ops) rst s = Some s'"
  shows "tsr_ok rpc_ok s'"
  using resident.process2f_inv [of "statics s" s ops rst] assms by (auto simp: resident_ok_def ensures_def)

lemma demo_on_ok: "k l \<Longrightarrow> tsr_ok k (demo_on l al n dta om)"
  by (simp add: tsr_ok_def)

theorem process2f_preserves_invariant_witness:
  "\<exists>s'. process2f (serial_rpc (line_ops ping_peer)) 0 (demo_on line_start 9 4 (0x3000, 0) 2) = Some s' \<and> tsr_ok rpc_ok s'"
proof -
  let ?s = "demo_on line_start 9 4 (0x3000, 0) 2"
  have "process2f (serial_rpc (line_ops ping_peer)) 0 ?s = Some (FAILFLAG 5 (SUCCESSFLAG ?s))"
    by (simp add: process2f_def reg_al_def al_writefil_def Let_def demo_sft_fields)
  then show ?thesis
    using process2f_preserves_invariant [OF demo_on_ok [of rpc_ok line_start 9 4 "(0x3000, 0)" 2], of "line_ops ping_peer" 0] line_start_ok
    by blast
qed

text \<open>
  The INT 2Fh entry point keeps the invariant of the resident state on every path, the
  chained ones included.
\<close>

theorem inthandler_preserves_invariant:
  assumes "tsr_ok rpc_ok s" "inthandler (serial_rpc ops) rst w ds off r s = Some (out, r', s')"
  shows "tsr_ok rpc_ok s'"
  using resident.inthandler_inv [of "statics s" s ops rst w ds off r] assms by (auto simp: resident_ok_def ensures_def)

theorem inthandler_preserves_invariant_witness:
  "\<exists>x r' s'. inthandler (serial_rpc (line_ops ping_peer)) 0 0 0 0 (glob_intregs (demo_on line_start 0 0 (0, 0) 0))
     (demo_on line_start 0 0 (0, 0) 0) = Some (x, r', s') \<and> tsr_ok rpc_ok s'"
proof -
  let ?s = "demo_on line_start 0 0 (0, 0) 0"
  have "inthandler (serial_rpc (line_ops ping_peer)) 0 0 0 0 (glob_intregs ?s) ?s =
      Some (Chain (0x70, 0x10), glob_intregs ?s, ?s\<lparr>glob_reqstkword := 0\<rparr>)"
    by (simp add: inthandler_def not_redirector_def reg_ah_def reg_al_def)
  then show ?thesis
    using inthandler_preserves_invariant [OF demo_on_ok [of rpc_ok line_start 0 0 "(0, 0)" 0]] line_start_ok
    by blast
qed

text \<open>
  C19: a redirector call for a drive that is not mapped goes to the previous INT 2Fh handler with
  the caller's registers, and memory, link and buffers are as they were.
\<close>

theorem unmapped_drive_chains:
  assumes "reg_ah r \<noteq> glob_multiplexid s"
    and "drv = requested_drive r s" "drv > 25 \<or> ldrv (glob_data s) ! unat drv = 0xFF"
  shows "\<exists>d. inthandler rpc rst w ds off r s =
    Some (Chain (prev_2f_handler (glob_data s)), r, s\<lparr>glob_reqstkword := w, glob_reqdrv := d\<rparr>)"
proof (cases "not_redirector r")
  case True
  then show ?thesis using assms(1)
    by (cases s) (auto simp: inthandler_def)
next
  case False
  have "requested_drive r (s\<lparr>glob_reqstkword := w\<rparr>) = drv"
    using assms(2) by (simp add: requested_drive_def Let_def)
  with False show ?thesis using assms(1,3) by (auto simp: inthandler_def Let_def)
qed

text \<open>A machine on which drive C: is not mapped.\<close>

definition demo_unmapped :: "byte list tsr" where
  "demo_unmapped = (demo_tsr 0x16 0 (0, 0) 0)\<lparr>glob_data := (glob_data (demo_tsr 0x16 0 (0, 0) 0))\<lparr>ldrv := replicate 26 0xFF\<rparr>\<rparr>"

theorem unmapped_drive_chains_witness:
  "\<exists>d. inthandler demo_rpc 0 0 0 0 (glob_intregs demo_unmapped) demo_unmapped =
     Some (Chain (0x70, 0x10), glob_intregs demo_unmapped, demo_unmapped\<lparr>glob_reqstkword := 0, glob_reqdrv := d\<rparr>)"
proof -
  have d: "requested_drive (glob_intregs demo_unmapped) demo_unmapped = 2"
    by (simp add: requested_drive_def reg_al_def demo_unmapped_def DRIVETONUM_def demo_eval)
  show ?thesis
    using unmapped_drive_chains [OF _ d [symmetric], of demo_rpc 0 0 0 0]
    by (simp add: demo_unmapped_def reg_ah_def)
qed

end
